(* ===== verification/Prelude.thy ===== *)
theory Prelude
  imports
    Main
    "HOL-Library.Word"
    "HOL-Library.AList"
    "HOL-Library.Char_ord"
    "HOL-Library.List_Lexorder"
    "HOL-Library.Product_Lexorder"
begin

text \<open>
  Shared vocabulary of the development.

  \<^item> \<open>res\<close> is the outcome of a Rust call: a value, an error value of the function's own error
    type, or a crash (a panic from \<open>unwrap\<close>, \<open>assert!\<close> or an index out of range, or an
    exhausted call stack).
  \<^item> \<open>and_then\<close> chains pure fallible calls; \<open>or_return\<close> is the question mark operator inside a
    method with \<open>&mut self\<close>: on failure the method returns at once with the state it has so far.
  \<^item> \<open>vec_get\<close>, \<open>unwrap\<close>, \<open>ok_or\<close>, \<open>insert_at\<close>, \<open>str_split\<close> and \<open>str_rfind\<close> are the
    standard-library operations the code uses on vectors, options and strings.
  \<^item> \<open>u64\<close> and its kin are machine words; arithmetic on them wraps, as in a release build.

  A Rust \<open>String\<close> is UTF-8, so \<open>string\<close> (a list of 8-bit characters) is its byte sequence.
\<close>

type_synonym u8 = "8 word"
type_synonym u32 = "32 word"
type_synonym u64 = "64 word"

datatype crash = Panicked | StackOverflow

datatype ('e, 'a) res = Ok 'a | Err 'e | Crash crash

subsection \<open>Chaining outcomes\<close>

fun and_then :: "('e, 'a) res \<Rightarrow> ('a \<Rightarrow> ('e, 'b) res) \<Rightarrow> ('e, 'b) res" where
  "and_then (Ok a) f = f a"
| "and_then (Err e) f = Err e"
| "and_then (Crash c) f = Crash c"

fun or_return :: "('e, 'a) res \<Rightarrow> 's \<Rightarrow> ('a \<Rightarrow> ('e, 'b) res \<times> 's) \<Rightarrow> ('e, 'b) res \<times> 's" where
  "or_return (Ok a) s k = k a"
| "or_return (Err e) s k = (Err e, s)"
| "or_return (Crash c) s k = (Crash c, s)"

fun map_err :: "('e \<Rightarrow> 'f) \<Rightarrow> ('e, 'a) res \<Rightarrow> ('f, 'a) res" where
  "map_err f (Ok a) = Ok a"
| "map_err f (Err e) = Err (f e)"
| "map_err f (Crash c) = Crash c"

fun is_ok :: "('e, 'a) res \<Rightarrow> bool" where
  "is_ok (Ok _) = True"
| "is_ok _ = False"

fun is_crash :: "('e, 'a) res \<Rightarrow> bool" where
  "is_crash (Crash _) = True"
| "is_crash _ = False"

fun unwrap :: "'a option \<Rightarrow> ('e, 'a) res" where
  "unwrap (Some a) = Ok a"
| "unwrap None = Crash Panicked"

fun ok_or :: "'e \<Rightarrow> 'a option \<Rightarrow> ('e, 'a) res" where
  "ok_or e (Some a) = Ok a"
| "ok_or e None = Err e"

lemma and_then_eq_Ok [simp]: "and_then r f = Ok b \<longleftrightarrow> (\<exists>a. r = Ok a \<and> f a = Ok b)"
  by (cases r) auto

lemma and_then_assoc: "and_then (and_then r f) g = and_then r (\<lambda>a. and_then (f a) g)"
  by (cases r) auto

lemma and_then_cong [fundef_cong]:
  "r = r' \<Longrightarrow> (\<And>a. r' = Ok a \<Longrightarrow> f a = g a) \<Longrightarrow> and_then r f = and_then r' g"
  by (cases r') auto

lemma or_return_cong [fundef_cong]:
  "r = r' \<Longrightarrow> s = s' \<Longrightarrow> (\<And>a. r' = Ok a \<Longrightarrow> f a = g a) \<Longrightarrow> or_return r s f = or_return r' s' g"
  by (cases r') auto

lemma or_return_eq_Ok [simp]:
  "or_return r s k = (Ok b, s') \<longleftrightarrow> (\<exists>a. r = Ok a \<and> k a = (Ok b, s'))"
  by (cases r) auto

lemma map_err_eq_Ok [simp]: "map_err f r = Ok a \<longleftrightarrow> r = Ok a"
  by (cases r) auto

lemma unwrap_eq_Ok [simp]: "unwrap x = Ok a \<longleftrightarrow> x = Some a"
  by (cases x) auto

lemma ok_or_eq_Ok [simp]: "ok_or e x = Ok a \<longleftrightarrow> x = Some a"
  by (cases x) auto

text \<open>
  A method that only reads before it fails: whatever the outcome of \<open>or_return\<close>, a predicate on
  the pair holds if it holds of the failures with the state so far and of the continuation.
\<close>

lemma or_returnI:
  assumes "\<And>a. r = Ok a \<Longrightarrow> P (k a)"
    and "\<And>e. r = Err e \<Longrightarrow> P (Err e, s)"
    and "\<And>c. r = Crash c \<Longrightarrow> P (Crash c, s)"
  shows "P (or_return r s k)"
  using assms by (cases r) auto

subsection \<open>Vectors\<close>

definition vec_get :: "'a list \<Rightarrow> nat \<Rightarrow> 'a option" where
  "vec_get xs i = (if i < length xs then Some (xs ! i) else None)"

lemma vec_get_eq_Some [simp]: "vec_get xs i = Some x \<longleftrightarrow> i < length xs \<and> xs ! i = x"
  by (auto simp: vec_get_def)

lemma vec_get_eq_None [simp]: "vec_get xs i = None \<longleftrightarrow> length xs \<le> i"
  by (auto simp: vec_get_def)

definition insert_at :: "nat \<Rightarrow> 'a \<Rightarrow> 'a list \<Rightarrow> 'a list" where
  "insert_at i x xs = take i xs @ x # drop i xs"

lemma insert_at_append [simp]: "insert_at (length xs) x (xs @ ys) = xs @ x # ys"
  by (simp add: insert_at_def)

lemma length_insert_at: "length (insert_at i x xs) = Suc (length xs)"
  by (simp add: insert_at_def)

definition remove_at :: "nat \<Rightarrow> 'a list \<Rightarrow> 'a list" where
  "remove_at i xs = take i xs @ drop (Suc i) xs"

lemma length_remove_at: "i < length xs \<Longrightarrow> length (remove_at i xs) = length xs - 1"
  by (simp add: remove_at_def)

subsection \<open>Strings\<close>

text \<open>\<open>str.split(c)\<close>: the pieces between the separators, empty ones included.\<close>

fun str_split :: "char \<Rightarrow> string \<Rightarrow> string list" where
  "str_split c [] = [[]]"
| "str_split c (x # xs) =
     (if x = c then [] # str_split c xs
      else (x # hd (str_split c xs)) # tl (str_split c xs))"

text \<open>\<open>str.rfind(c)\<close>: the byte index of the last occurrence.\<close>

fun str_rfind :: "char \<Rightarrow> string \<Rightarrow> nat option" where
  "str_rfind c [] = None"
| "str_rfind c (x # xs) =
     (case str_rfind c xs of
        Some i \<Rightarrow> Some (Suc i)
      | None \<Rightarrow> if x = c then Some 0 else None)"

lemma str_split_nonempty [simp]: "str_split c xs \<noteq> []"
  by (induction xs) auto

lemma str_split_code [code]:
  "str_split c [] = [[]]"
  "str_split c (x # xs) =
     (let ps = str_split c xs in if x = c then [] # ps else case ps of p # qs \<Rightarrow> (x # p) # qs)"
  by (cases "str_split c xs"; auto simp: Let_def)+

lemma str_split_no_sep: "c \<notin> set xs \<Longrightarrow> str_split c xs = [xs]"
  by (induction xs) auto

lemma str_split_append_sep:
  "str_split c (xs @ c # ys) = str_split c xs @ str_split c ys"
  by (induction xs) (auto simp: hd_append tl_append split: list.splits)

lemma str_rfind_None [simp]: "str_rfind c xs = None \<longleftrightarrow> c \<notin> set xs"
  by (induction xs) (auto split: option.splits)

lemma str_rfind_append_sep:
  "c \<notin> set ys \<Longrightarrow> str_rfind c (xs @ c # ys) = Some (length xs)"
  by (induction xs) (auto split: option.splits simp flip: str_rfind_None)

lemma str_split_pieces: "s \<in> set (str_split c xs) \<Longrightarrow> c \<notin> set s"
proof (induction xs arbitrary: s)
  case (Cons x xs)
  have "hd (str_split c xs) \<in> set (str_split c xs)" and "set (tl (str_split c xs)) \<subseteq> set (str_split c xs)"
    by (simp_all add: list.set_sel(2) subsetI)
  with Cons show ?case by (auto split: if_splits)
qed simp

text \<open>Decimal digits of a number, as \<open>to_string\<close> prints an unsigned integer.\<close>

definition digit_char :: "nat \<Rightarrow> char" where
  "digit_char d = char_of (48 + d)"

fun show_nat :: "nat \<Rightarrow> string" where
  "show_nat n = (if n < 10 then [digit_char n] else show_nat (n div 10) @ [digit_char (n mod 10)])"

declare show_nat.simps [simp del]

definition show_u64 :: "u64 \<Rightarrow> string" where
  "show_u64 w = show_nat (unat w)"

lemma digit_char_inject: "d < 10 \<Longrightarrow> d' < 10 \<Longrightarrow> digit_char d = digit_char d' \<longleftrightarrow> d = d'"
  by (auto simp: digit_char_def dest!: arg_cong [of _ _ "of_char :: char \<Rightarrow> nat"])

lemma show_nat_nonempty: "show_nat n \<noteq> []"
  by (subst show_nat.simps) simp

lemma show_nat_inject: "show_nat m = show_nat n \<longleftrightarrow> m = n"
proof (induction m arbitrary: n rule: show_nat.induct)
  case (1 m)
  show ?case
  proof (cases "m < 10 \<or> n < 10")
    case True
    then show ?thesis using show_nat_nonempty [of "m div 10"] show_nat_nonempty [of "n div 10"]
      by (subst (1 2) show_nat.simps) (auto simp: digit_char_inject Cons_eq_append_conv append_eq_Cons_conv)
  next
    case False
    then show ?thesis using "1.IH" [of "n div 10"]
      by (subst (1 2) show_nat.simps) (auto simp: digit_char_inject, metis div_mult_mod_eq)
  qed
qed

lemma show_nat_digits: "c \<in> set (show_nat n) \<Longrightarrow> \<exists>d < 10. c = digit_char d"
proof (induction n rule: show_nat.induct)
  case (1 n)
  then show ?case by (subst (asm) (2) show_nat.simps) (auto split: if_splits intro: exI [of _ "n mod 10"])
qed

text \<open>\<open>strs.join(sep)\<close>\<close>

fun str_join :: "string \<Rightarrow> string list \<Rightarrow> string" where
  "str_join sep [] = []"
| "str_join sep [s] = s"
| "str_join sep (s # t # ss) = s @ sep @ str_join sep (t # ss)"

subsection \<open>Association lists as hash maps\<close>

text \<open>
  A \<open>HashMap\<close> that the code iterates over is an association list with distinct keys; the list
  order stands for the (unspecified) iteration order.
\<close>

abbreviation keys_distinct :: "('k \<times> 'v) list \<Rightarrow> bool" where
  "keys_distinct m \<equiv> distinct (map fst m)"

lemma keys_distinct_update [simp]: "keys_distinct m \<Longrightarrow> keys_distinct (AList.update k v m)"
  by (rule distinct_update)

lemma keys_distinct_delete [simp]: "keys_distinct m \<Longrightarrow> keys_distinct (AList.delete k m)"
  by (rule distinct_delete)

lemma map_of_update [simp]: "map_of (AList.update k v m) = (map_of m)(k \<mapsto> v)"
  by (rule update_conv')

lemma map_of_delete [simp]: "map_of (AList.delete k m) = (map_of m)(k := None)"
  by (rule delete_conv')

end
