(* ===== verification/Pathname.thy ===== *)
theory Pathname
  imports Prelude
begin

text \<open>
  \<open>abstract_fs/pathname.rs\<close>: abstract paths. A \<open>PathName\<close> is a wrapped \<open>String\<close>, here the string
  itself. \<open>path_split\<close> panics on a path without a slash (the \<open>unwrap\<close> of \<open>rfind\<close>).

  The lemmas are about canonical paths, which are the root or a sequence of non-empty,
  slash-free names each led by a slash: for those, splitting, joining and taking segments agree.
\<close>

type_synonym pathname = string
type_synonym name = string

abbreviation slash :: char where
  "slash \<equiv> CHR ''/''"

definition is_root :: "pathname \<Rightarrow> bool" where
  "is_root p = (p = ''/'')"

definition path_split :: "pathname \<Rightarrow> ('e, pathname \<times> name) res" where
  "path_split p =
     and_then (unwrap (str_rfind slash p)) (\<lambda>split_at.
       let parent = take split_at p; name = drop (split_at + 1) p
       in if parent = [] then Ok (''/'', name) else Ok (parent, name))"

definition segments :: "pathname \<Rightarrow> name list" where
  "segments p = filter (\<lambda>s. s \<noteq> []) (str_split slash p)"

definition path_join :: "pathname \<Rightarrow> name \<Rightarrow> pathname" where
  "path_join p n = (if is_root p then ''/'' @ n else p @ ''/'' @ n)"

definition starts_with :: "string \<Rightarrow> char \<Rightarrow> bool" where
  "starts_with s c = (s \<noteq> [] \<and> hd s = c)"

definition ends_with :: "string \<Rightarrow> char \<Rightarrow> bool" where
  "ends_with s c = (s \<noteq> [] \<and> last s = c)"

definition is_valid :: "pathname \<Rightarrow> bool" where
  "is_valid p = ((\<not> ends_with p slash \<or> is_root p) \<and> starts_with p slash \<and> p \<noteq> [])"

subsection \<open>Names and canonical paths\<close>

definition valid_name :: "name \<Rightarrow> bool" where
  "valid_name n \<longleftrightarrow> n \<noteq> [] \<and> slash \<notin> set n"

text \<open>The canonical path of a list of names.\<close>

definition path_of :: "name list \<Rightarrow> pathname" where
  "path_of ns = (if ns = [] then ''/'' else concat (map (\<lambda>n. slash # n) ns))"

definition canonical :: "pathname \<Rightarrow> bool" where
  "canonical p \<longleftrightarrow> (\<exists>ns. (\<forall>n \<in> set ns. valid_name n) \<and> p = path_of ns)"

lemma segments_append_sep: "segments (p @ slash # q) = segments p @ segments q"
  by (simp add: segments_def str_split_append_sep)

lemma segments_Nil [simp]: "segments [] = []"
  by (simp add: segments_def)

lemma segments_name [simp]: "valid_name n \<Longrightarrow> segments n = [n]"
  by (simp add: segments_def valid_name_def str_split_no_sep)

lemma segments_slash_Cons [simp]: "segments (slash # p) = segments p"
  using segments_append_sep [of "[]" p] by simp

lemma segments_are_names: "n \<in> set (segments p) \<Longrightarrow> valid_name n"
  by (auto simp: segments_def valid_name_def dest: str_split_pieces)

lemma segments_root [simp]: "segments ''/'' = []"
  by simp

lemma segments_path_of: "\<forall>n \<in> set ns. valid_name n \<Longrightarrow> segments (path_of ns) = ns"
proof -
  have "segments (concat (map (\<lambda>n. slash # n) ns)) = ns" if "\<forall>n \<in> set ns. valid_name n"
    using that
  proof (induction ns)
    case (Cons n ns)
    show ?case
    proof (cases ns)
      case Nil
      then show ?thesis using Cons.prems by simp
    next
      case (Cons m ms)
      have "segments (n @ concat (map (\<lambda>n. slash # n) ns))
            = segments n @ segments (concat (map (\<lambda>n. slash # n) ns))"
        unfolding Cons using segments_append_sep [of n] by simp
      then show ?thesis using Cons.prems Cons.IH by simp
    qed
  qed simp
  then show "\<forall>n \<in> set ns. valid_name n \<Longrightarrow> segments (path_of ns) = ns"
    by (auto simp: path_of_def)
qed

lemma path_of_snoc: "path_of (ns @ [n]) = path_join (path_of ns) n" if "\<forall>m \<in> set ns. valid_name m"
proof (cases ns)
  case Nil
  then show ?thesis by (simp add: path_of_def path_join_def is_root_def)
next
  case (Cons m ms)
  with that have "concat (map (\<lambda>n. slash # n) ns) \<noteq> ''/''"
    by (auto simp: valid_name_def)
  with Cons show ?thesis by (simp add: path_of_def path_join_def is_root_def)
qed

lemma path_split_join:
  assumes "slash \<notin> set n" and "p \<noteq> []"
  shows "path_split (path_join p n) = Ok (p, n)"
proof (cases "is_root p")
  case True
  then have "path_join p n = [] @ slash # n" by (simp add: path_join_def)
  moreover have "str_rfind slash ([] @ slash # n) = Some (length ([] :: string))"
    using assms(1) by (rule str_rfind_append_sep)
  ultimately show ?thesis using True by (simp add: path_split_def is_root_def)
next
  case False
  then have "path_join p n = p @ slash # n" by (simp add: path_join_def)
  moreover have "str_rfind slash (p @ slash # n) = Some (length p)"
    using assms(1) by (rule str_rfind_append_sep)
  ultimately show ?thesis using assms(2) by (simp add: path_split_def)
qed

lemma path_of_nonempty [simp]: "path_of ns \<noteq> []"
  by (auto simp: path_of_def)

lemma path_split_path_of:
  assumes "\<forall>m \<in> set (ns @ [n]). valid_name m"
  shows "path_split (path_of (ns @ [n])) = Ok (path_of ns, n)"
  using assms by (simp add: path_of_snoc path_split_join valid_name_def)

lemma path_of_valid:
  assumes "\<forall>m \<in> set ns. valid_name m"
  shows "is_valid (path_of ns)"
proof (cases ns rule: rev_cases)
  case Nil
  then show ?thesis by (simp add: path_of_def is_valid_def is_root_def starts_with_def)
next
  case (snoc ms m)
  then have m: "m \<noteq> []" "slash \<notin> set m" using assms by (auto simp: valid_name_def)
  then have "last m \<noteq> slash" using last_in_set [of m] by metis
  moreover have "hd (path_of ns) = slash" by (cases ns) (auto simp: path_of_def)
  ultimately show ?thesis using snoc m
    by (simp add: path_of_def is_valid_def starts_with_def ends_with_def)
qed

lemma path_of_root [simp]: "\<forall>m \<in> set ns. valid_name m \<Longrightarrow> is_root (path_of ns) \<longleftrightarrow> ns = []"
  using segments_path_of [of ns] by (auto simp: is_root_def path_of_def)

lemma path_of_inject:
  "\<lbrakk>\<forall>m \<in> set ns. valid_name m; \<forall>m \<in> set ms. valid_name m\<rbrakk> \<Longrightarrow> path_of ns = path_of ms \<longleftrightarrow> ns = ms"
  using segments_path_of by metis

lemma canonicalE:
  assumes "canonical p"
  obtains (root) "p = ''/''" "segments p = []"
  | (child) parent n where "canonical parent" "valid_name n" "p = path_join parent n"
      "path_split p = Ok (parent, n)" "segments p = segments parent @ [n]"
      "is_valid p" "is_valid parent" "\<not> is_root p"
proof -
  obtain ns where ns: "\<forall>n \<in> set ns. valid_name n" "p = path_of ns"
    using assms by (auto simp: canonical_def)
  show thesis
  proof (cases ns rule: rev_cases)
    case Nil
    then show ?thesis using ns root by (simp add: path_of_def)
  next
    case (snoc ms m)
    have parts: "\<forall>n \<in> set ms. valid_name n" "valid_name m" using ns snoc by auto
    show ?thesis
    proof (rule child [of "path_of ms" m])
      show "canonical (path_of ms)" using parts by (auto simp: canonical_def)
      show "p = path_join (path_of ms) m" using ns snoc parts by (simp add: path_of_snoc)
      show "path_split p = Ok (path_of ms, m)" using ns snoc by (simp add: path_split_path_of)
      show "segments p = segments (path_of ms) @ [m]"
        using ns snoc parts by (simp add: segments_path_of)
      show "is_valid p" using ns by (simp add: path_of_valid)
      show "is_valid (path_of ms)" using parts by (simp add: path_of_valid)
      show "\<not> is_root p" using ns snoc by simp
    qed (use parts in simp)
  qed
qed

lemma canonical_root [simp]: "canonical ''/''"
  unfolding canonical_def by (rule exI [of _ "[]"]) (simp add: path_of_def)

lemma canonical_join: "canonical p \<Longrightarrow> valid_name n \<Longrightarrow> canonical (path_join p n)"
proof -
  assume "canonical p" and n: "valid_name n"
  then obtain ns where ns: "\<forall>m \<in> set ns. valid_name m" "p = path_of ns"
    by (auto simp: canonical_def)
  then have "path_join p n = path_of (ns @ [n])" by (simp add: path_of_snoc)
  then show ?thesis using ns n unfolding canonical_def by (intro exI [of _ "ns @ [n]"]) auto
qed

lemma canonical_valid: "canonical p \<Longrightarrow> is_valid p"
  by (auto simp: canonical_def path_of_valid)

lemma canonical_segments: "canonical p \<Longrightarrow> p = path_of (segments p)"
  by (auto simp: canonical_def segments_path_of)

end
