(* ===== verification/Operation.thy ===== *)
theory Operation
  imports Pathname
begin

text \<open>
  The vocabulary of test workloads: \<open>abstract_fs/flags.rs\<close> (mode flags and their printed names),
  the index newtypes of \<open>abstract_fs/node.rs\<close>, \<open>abstract_fs/operation.rs\<close> and
  \<open>abstract_fs/workload.rs\<close>. The \<open>usize\<close> inside an index is a \<open>nat\<close>: indices are vector
  lengths, which memory bounds.
\<close>

subsection \<open>Flags\<close>

datatype open_flag =
    O_EXEC | O_RDONLY | O_RDWR | O_SEARCH | O_WRONLY
  | O_APPEND | O_CLOEXEC | O_CLOFORK | O_CREAT | O_DIRECTORY | O_DSYNC | O_EXCL | O_NOCTTY
  | O_NOFOLLOW | O_NONBLOCK | O_RSYNC | O_SYNC | O_TRUNC | O_TTY_INIT

datatype mode_flag =
    S_IRWXU | S_IRUSR | S_IWUSR | S_IXUSR
  | S_IRWXG | S_IRGRP | S_IWGRP | S_IXGRP
  | S_IRWXO | S_IROTH | S_IWOTH | S_IXOTH
  | S_ISUID | S_ISGID | S_ISVTX

text \<open>The discriminants, octal in the source.\<close>

fun mode_flag_bits :: "mode_flag \<Rightarrow> nat" where
  "mode_flag_bits S_IRWXU = 448" | "mode_flag_bits S_IRUSR = 256"
| "mode_flag_bits S_IWUSR = 128" | "mode_flag_bits S_IXUSR = 64"
| "mode_flag_bits S_IRWXG = 56" | "mode_flag_bits S_IRGRP = 32"
| "mode_flag_bits S_IWGRP = 16" | "mode_flag_bits S_IXGRP = 8"
| "mode_flag_bits S_IRWXO = 7" | "mode_flag_bits S_IROTH = 4"
| "mode_flag_bits S_IWOTH = 2" | "mode_flag_bits S_IXOTH = 1"
| "mode_flag_bits S_ISUID = 2048" | "mode_flag_bits S_ISGID = 1024"
| "mode_flag_bits S_ISVTX = 512"

fun show_mode_flag :: "mode_flag \<Rightarrow> string" where
  "show_mode_flag S_IRWXU = ''S_IRWXU''" | "show_mode_flag S_IRUSR = ''S_IRUSR''"
| "show_mode_flag S_IWUSR = ''S_IWUSR''" | "show_mode_flag S_IXUSR = ''S_IXUSR''"
| "show_mode_flag S_IRWXG = ''S_IRWXG''" | "show_mode_flag S_IRGRP = ''S_IRGRP''"
| "show_mode_flag S_IWGRP = ''S_IWGRP''" | "show_mode_flag S_IXGRP = ''S_IXGRP''"
| "show_mode_flag S_IRWXO = ''S_IRWXO''" | "show_mode_flag S_IROTH = ''S_IROTH''"
| "show_mode_flag S_IWOTH = ''S_IWOTH''" | "show_mode_flag S_IXOTH = ''S_IXOTH''"
| "show_mode_flag S_ISUID = ''S_ISUID''" | "show_mode_flag S_ISGID = ''S_ISGID''"
| "show_mode_flag S_ISVTX = ''S_ISVTX''"

type_synonym mode = "mode_flag list"

subsection \<open>Indices\<close>

datatype file_index = FileIndex (file_ix: nat)
datatype dir_index = DirIndex (dir_ix: nat)
datatype symlink_index = SymlinkIndex (symlink_ix: nat)
datatype fd_index = FileDescriptorIndex (fd_ix: nat)

lemma index_eq_iff [simp]:
  "file_ix i = file_ix j \<longleftrightarrow> i = j"
  "dir_ix k = dir_ix l \<longleftrightarrow> k = l"
  "symlink_ix s = symlink_ix t \<longleftrightarrow> s = t"
  "fd_ix d = fd_ix e \<longleftrightarrow> d = e"
  by (auto intro: file_index.expand dir_index.expand symlink_index.expand fd_index.expand)

text \<open>The derived orders of the index types, by the wrapped number.\<close>

instantiation file_index :: linorder
begin

definition less_eq_file_index :: "file_index \<Rightarrow> file_index \<Rightarrow> bool" where
  "i \<le> j \<longleftrightarrow> file_ix i \<le> file_ix j"

definition less_file_index :: "file_index \<Rightarrow> file_index \<Rightarrow> bool" where
  "i < j \<longleftrightarrow> file_ix i < file_ix j"

instance
  by standard (auto simp: less_eq_file_index_def less_file_index_def file_index.expand)

end

instantiation dir_index :: linorder
begin

definition less_eq_dir_index :: "dir_index \<Rightarrow> dir_index \<Rightarrow> bool" where
  "i \<le> j \<longleftrightarrow> dir_ix i \<le> dir_ix j"

definition less_dir_index :: "dir_index \<Rightarrow> dir_index \<Rightarrow> bool" where
  "i < j \<longleftrightarrow> dir_ix i < dir_ix j"

instance
  by standard (auto simp: less_eq_dir_index_def less_dir_index_def dir_index.expand)

end

subsection \<open>Operations and workloads\<close>

datatype operation =
    OpMkDir pathname mode
  | OpCreate pathname mode
  | OpRemove pathname
  | OpHardlink pathname pathname
  | OpRename pathname pathname
  | OpOpen pathname fd_index
  | OpClose fd_index
  | OpRead fd_index u64
  | OpWrite fd_index u64 u64
  | OpFSync fd_index
  | OpSymlink pathname pathname

datatype operation_kind =
    KMkDir | KCreate | KRemove | KHardlink | KRename | KOpen | KClose | KRead | KWrite | KFSync
  | KSymlink

fun kind_of :: "operation \<Rightarrow> operation_kind" where
  "kind_of (OpMkDir _ _) = KMkDir"
| "kind_of (OpCreate _ _) = KCreate"
| "kind_of (OpRemove _) = KRemove"
| "kind_of (OpHardlink _ _) = KHardlink"
| "kind_of (OpRename _ _) = KRename"
| "kind_of (OpOpen _ _) = KOpen"
| "kind_of (OpClose _) = KClose"
| "kind_of (OpRead _ _) = KRead"
| "kind_of (OpWrite _ _ _) = KWrite"
| "kind_of (OpFSync _) = KFSync"
| "kind_of (OpSymlink _ _) = KSymlink"

type_synonym operation_weights = "(operation_kind \<times> u32) list"

definition uniform_weights :: operation_weights where
  "uniform_weights =
     [(KCreate, 100), (KMkDir, 100), (KRemove, 100), (KHardlink, 100), (KRename, 100),
      (KOpen, 100), (KClose, 100), (KRead, 100), (KWrite, 100), (KFSync, 100), (KSymlink, 100)]"

record workload =
  ops :: "operation list"

definition workload_new :: workload where
  "workload_new = \<lparr>ops = []\<rparr>"

definition workload_push :: "operation \<Rightarrow> workload \<Rightarrow> workload" where
  "workload_push op w = w\<lparr>ops := ops w @ [op]\<rparr>"

lemma ops_workload_push [simp]: "ops (workload_push op w) = ops w @ [op]"
  by (simp add: workload_push_def)

lemma ops_workload_new [simp]: "ops workload_new = []"
  by (simp add: workload_new_def)

end
