(* ===== verification/Content.thy ===== *)
theory Content
  imports Prelude
begin

text \<open>
  \<open>abstract_fs/content.rs\<close>: the content of a file as a sequence of slices of an imaginary source.
  Sizes and offsets are \<open>u64\<close> words and wrap, as in a release build; \<open>assert!\<close> is a branch that
  ends in \<open>Crash Panicked\<close>.

  The abstraction \<open>bytes\<close> lists the source positions that the content stands for. Against it
  \<open>content_write\<close> is an overwrite of a range and \<open>content_read\<close> a sublist.
\<close>

subsection \<open>Slices\<close>

record source_slice =
  slice_from :: u64
  slice_to :: u64

definition slice_size :: "source_slice \<Rightarrow> u64" where
  "slice_size s =
     (if slice_from s \<le> slice_to s then slice_to s - slice_from s + 1 else 0)"

record content =
  slices :: "source_slice list"

datatype content_error = BadOffset u64 u64

definition content_new :: content where
  "content_new = \<lparr>slices = []\<rparr>"

definition content_size :: "content \<Rightarrow> u64" where
  "content_size c = foldl (\<lambda>acc s. acc + slice_size s) 0 (slices c)"

subsection \<open>Writing\<close>

definition write_back :: "u64 \<Rightarrow> u64 \<Rightarrow> content \<Rightarrow> content" where
  "write_back src_offset sz c =
     (if sz > 0
      then c\<lparr>slices := slices c @ [\<lparr>slice_from = src_offset, slice_to = src_offset + sz - 1\<rparr>]\<rparr>
      else c)"

text \<open>
  The first loop of \<open>write\<close>: find the slice at which the write starts, splitting the slice that
  the write offset falls into. The result is the slice vector and \<open>write_at_index\<close>; a loop that
  ends without \<open>break\<close> leaves the index 0.
\<close>

function write_locate ::
    "u64 \<Rightarrow> nat \<Rightarrow> u64 \<Rightarrow> source_slice list \<Rightarrow> (content_error, source_slice list \<times> nat) res" where
  "write_locate write_offset i curr_offset ss =
     (if i < length ss then
        let slice = ss ! i;
            next_offset = curr_offset + slice_size slice
        in if curr_offset = write_offset then Ok (ss, i)
           else if next_offset > write_offset then
             (let old_size = slice_size slice;
                  fst_half_to = slice_from slice + (write_offset - curr_offset - 1);
                  snd_half_to = slice_to slice;
                  fst_half = slice\<lparr>slice_to := fst_half_to\<rparr>;
                  snd_half = \<lparr>slice_from = fst_half_to + 1, slice_to = snd_half_to\<rparr>;
                  ss' = insert_at (i + 1) snd_half (ss[i := fst_half])
              in if old_size = slice_size fst_half + slice_size snd_half
                 then Ok (ss', i + 1) else Crash Panicked)
           else write_locate write_offset (Suc i) next_offset ss
      else Ok (ss, 0))"
  by pat_completeness auto
termination
  by (relation "measure (\<lambda>(w, i, c, ss). length ss - i)") auto

text \<open>The second loop of \<open>write\<close>: cut the overwritten bytes off the slices that follow.\<close>

function write_truncate :: "nat \<Rightarrow> u64 \<Rightarrow> source_slice list \<Rightarrow> source_slice list" where
  "write_truncate i truncate_size ss =
     (if i < length ss then
        let slice = ss ! i;
            can_truncate_size = slice_size slice
        in if can_truncate_size > truncate_size
           then ss[i := slice\<lparr>slice_from := slice_from slice + truncate_size\<rparr>]
           else write_truncate (Suc i) (truncate_size - can_truncate_size)
                  (ss[i := slice\<lparr>slice_from := 100000, slice_to := 0\<rparr>])
      else ss)"
  by pat_completeness auto
termination
  by (relation "measure (\<lambda>(i, t, ss). length ss - i)") auto

declare write_locate.simps [simp del] write_truncate.simps [simp del]

definition write_middle ::
    "u64 \<Rightarrow> u64 \<Rightarrow> u64 \<Rightarrow> source_slice list \<Rightarrow> (content_error, source_slice list) res" where
  "write_middle src_offset write_offset sz ss =
     and_then (write_locate write_offset 0 0 ss) (\<lambda>(ss1, write_at_index).
       let ss2 = insert_at write_at_index
                   \<lparr>slice_from = src_offset, slice_to = src_offset + sz - 1\<rparr> ss1;
           ss3 = write_truncate (write_at_index + 1) sz ss2
       in Ok (filter (\<lambda>s. slice_size s > 0) ss3))"

definition content_write ::
    "u64 \<Rightarrow> u64 \<Rightarrow> u64 \<Rightarrow> content \<Rightarrow> (content_error, content) res" where
  "content_write src_offset write_offset sz c =
     (if write_offset = content_size c then Ok (write_back src_offset sz c)
      else if write_offset > content_size c then Err (BadOffset write_offset (content_size c))
      else
        let old_size = content_size c
        in and_then
             (if sz > 0 then write_middle src_offset write_offset sz (slices c)
              else Ok (slices c))
             (\<lambda>ss. let c' = c\<lparr>slices := ss\<rparr>;
                       new_size = content_size c';
                       expected_size = max (write_offset + sz) old_size
                   in if new_size = expected_size \<and> (\<forall>s \<in> set ss. slice_size s > 0)
                      then Ok c' else Crash Panicked))"

subsection \<open>Reading\<close>

text \<open>
  The loop of \<open>read\<close> with its variables \<open>content\<close>, \<open>current_offset\<close>, \<open>read_size\<close> and
  \<open>reading\<close>; the last component of the result is \<open>end_of_file\<close>.
\<close>

fun read_loop ::
    "u64 \<Rightarrow> u64 \<Rightarrow> source_slice list \<Rightarrow> content \<Rightarrow> u64 \<Rightarrow> u64 \<Rightarrow> bool \<Rightarrow> content \<times> u64 \<times> bool" where
  "read_loop offset sz [] cont current_offset read_size reading = (cont, read_size, True)"
| "read_loop offset sz (s # ss) cont current_offset read_size reading =
     (if reading then
        if read_size \<ge> sz then (cont, read_size, False)
        else
          let slice_read_size =
                (if read_size + slice_size s > sz then sz - read_size else slice_size s)
          in read_loop offset sz ss (write_back (slice_from s) slice_read_size cont)
               current_offset (read_size + slice_read_size) True
      else
        let next_offset = current_offset + slice_size s
        in if next_offset > offset then
             let read_from = offset - current_offset;
                 slice_read_size =
                   (if slice_size s - read_from > sz then sz else slice_size s - read_from)
             in read_loop offset sz ss
                  (write_back (slice_from s + read_from) slice_read_size cont)
                  current_offset (read_size + slice_read_size) True
           else read_loop offset sz ss cont next_offset read_size False)"

definition content_read :: "u64 \<Rightarrow> u64 \<Rightarrow> content \<Rightarrow> (content_error, content) res" where
  "content_read offset sz c =
     (if offset > content_size c then Err (BadOffset offset (content_size c))
      else
        case read_loop offset sz (slices c) content_new 0 0 False of
          (cont, read_size, end_of_file) \<Rightarrow>
            if content_size cont = read_size \<or> end_of_file \<and> content_size cont \<le> read_size
            then Ok cont else Crash Panicked)"

end
