(* ===== verification/Abstract_FS.thy ===== *)
theory Abstract_FS
  imports Operation Content
begin

text \<open>
  \<open>abstract_fs/fs.rs\<close> and \<open>abstract_fs/node.rs\<close>: the abstract file system, path resolution and
  the operations.

  \<^item> The state \<open>abstract_fs\<close> keeps its nodes in vectors; an index is a position.
  \<^item> \<open>resolve_node_rec\<close> takes the depth of the call stack as its first argument: a call deeper
    than that is \<open>Crash StackOverflow\<close>. The code has no bound but the real stack; \<open>resolve_depth\<close>
    is a depth that is enough for every resolution that ends at all (shown in the theory
    \<open>Resolve_Correct\<close>), so \<open>StackOverflow\<close> stands for an infinite recursion.
  \<^item> An operation takes the state and returns its result with the state it leaves, also on failure.
\<close>

subsection \<open>Nodes and state\<close>

datatype node = NodeFile file_index | NodeDir dir_index | NodeSymlink symlink_index

record file_node =
  descriptor :: "fd_index option"
  cont :: content

record file_descriptor =
  fd_file :: file_index
  offset :: u64

record dir_node =
  children :: "(name \<times> node) list"

record symlink_node =
  target :: pathname

datatype fs_error =
    NotAFile pathname
  | NotADir pathname
  | NameAlreadyExists pathname
  | RootRemovalForbidden
  | NotFound pathname
  | InvalidPath pathname
  | DirNotEmpty pathname
  | BadDescriptor fd_index nat
  | DescriptorWasClosed fd_index
  | FileAlreadyOpened pathname
  | RenameToSubdirectoryError pathname pathname
  | LoopExists pathname
  | HardlinkToSymlinkForbidden pathname
  | ContentErr content_error

record abstract_fs =
  dirs :: "dir_node list"
  files :: "file_node list"
  symlinks :: "symlink_node list"
  descriptors :: "file_descriptor list"
  recording :: workload

definition fs_new :: abstract_fs where
  "fs_new = \<lparr>dirs = [\<lparr>children = []\<rparr>], files = [], symlinks = [], descriptors = [],
             recording = workload_new\<rparr>"

definition root_index :: dir_index where
  "root_index = DirIndex 0"

subsection \<open>Node access\<close>

definition get_dir :: "abstract_fs \<Rightarrow> dir_index \<Rightarrow> ('e, dir_node) res" where
  "get_dir fs idx = unwrap (vec_get (dirs fs) (dir_ix idx))"

definition get_file :: "abstract_fs \<Rightarrow> file_index \<Rightarrow> ('e, file_node) res" where
  "get_file fs idx = unwrap (vec_get (files fs) (file_ix idx))"

definition get_sym :: "abstract_fs \<Rightarrow> symlink_index \<Rightarrow> ('e, symlink_node) res" where
  "get_sym fs idx = unwrap (vec_get (symlinks fs) (symlink_ix idx))"

definition get_descriptor :: "abstract_fs \<Rightarrow> fd_index \<Rightarrow> (fs_error, file_descriptor) res" where
  "get_descriptor fs idx =
     ok_or (BadDescriptor idx (length (descriptors fs))) (vec_get (descriptors fs) (fd_ix idx))"

definition set_dir :: "dir_index \<Rightarrow> dir_node \<Rightarrow> abstract_fs \<Rightarrow> abstract_fs" where
  "set_dir idx d fs = fs\<lparr>dirs := (dirs fs)[dir_ix idx := d]\<rparr>"

definition set_file :: "file_index \<Rightarrow> file_node \<Rightarrow> abstract_fs \<Rightarrow> abstract_fs" where
  "set_file idx f fs = fs\<lparr>files := (files fs)[file_ix idx := f]\<rparr>"

definition set_descriptor :: "fd_index \<Rightarrow> file_descriptor \<Rightarrow> abstract_fs \<Rightarrow> abstract_fs" where
  "set_descriptor idx d fs = fs\<lparr>descriptors := (descriptors fs)[fd_ix idx := d]\<rparr>"

definition record_op :: "operation \<Rightarrow> abstract_fs \<Rightarrow> abstract_fs" where
  "record_op op fs = fs\<lparr>recording := workload_push op (recording fs)\<rparr>"

text \<open>\<open>children.insert(name, node)\<close> and \<open>children.remove(name)\<close> in a directory.\<close>

definition insert_child :: "name \<Rightarrow> node \<Rightarrow> dir_node \<Rightarrow> dir_node" where
  "insert_child n x d = d\<lparr>children := AList.update n x (children d)\<rparr>"

definition remove_child :: "name \<Rightarrow> dir_node \<Rightarrow> dir_node" where
  "remove_child n d = d\<lparr>children := AList.delete n (children d)\<rparr>"

definition child :: "dir_node \<Rightarrow> name \<Rightarrow> node option" where
  "child d n = map_of (children d) n"

subsection \<open>Path resolution\<close>

text \<open>
  The loop of \<open>resolve_node_rec\<close> over the segments: \<open>ds\<close> is the vector of directories visited,
  \<open>lst\<close> the node reached, \<open>path\<close> the path walked so far. The argument \<open>rd\<close> is the recursive
  \<open>resolve_dir\<close> of a symlink target.
\<close>

fun walk ::
    "(pathname \<Rightarrow> (fs_error, dir_index list \<times> dir_index) res) \<Rightarrow> abstract_fs \<Rightarrow> name list \<Rightarrow>
     dir_index list \<Rightarrow> node \<Rightarrow> pathname \<Rightarrow> (fs_error, dir_index list \<times> node \<times> pathname) res" where
  "walk rd fs [] ds lst path = Ok (ds, lst, path)"
| "walk rd fs (segment # rest) ds lst path =
     (let path' = path @ ''/'' @ segment
      in and_then
           (case lst of
              NodeDir idx \<Rightarrow> Ok (ds @ [idx], idx)
            | NodeSymlink idx \<Rightarrow>
                and_then (get_sym fs idx) (\<lambda>s.
                and_then (rd (target s)) (\<lambda>(rec_dirs, i). Ok (ds @ rec_dirs @ [i], i)))
            | NodeFile _ \<Rightarrow> Err (NotADir path'))
           (\<lambda>(ds', idx).
         and_then (get_dir fs idx) (\<lambda>d.
         and_then (ok_or (NotFound path') (child d segment)) (\<lambda>next.
         walk rd fs rest ds' next path'))))"

definition node_to_dir ::
    "pathname \<Rightarrow> (fs_error, dir_index list \<times> node) res \<Rightarrow> (fs_error, dir_index list \<times> dir_index) res" where
  "node_to_dir path r =
     and_then r (\<lambda>(ds, n). case n of NodeDir idx \<Rightarrow> Ok (ds, idx) | _ \<Rightarrow> Err (NotADir path))"

definition node_to_file ::
    "pathname \<Rightarrow> (fs_error, dir_index list \<times> node) res \<Rightarrow> (fs_error, dir_index list \<times> file_index) res" where
  "node_to_file path r =
     and_then r (\<lambda>(ds, n). case n of NodeFile idx \<Rightarrow> Ok (ds, idx) | _ \<Rightarrow> Err (NotAFile path))"

primrec resolve_node_rec ::
    "nat \<Rightarrow> abstract_fs \<Rightarrow> pathname \<Rightarrow> bool \<Rightarrow> symlink_index list \<Rightarrow>
     (fs_error, dir_index list \<times> node) res" where
  "resolve_node_rec 0 fs path follow_symlinks visited_symlinks = Crash StackOverflow"
| "resolve_node_rec (Suc depth) fs path follow_symlinks visited_symlinks =
     (if \<not> is_valid path then Err (InvalidPath path)
      else
        and_then
          (walk (\<lambda>t. node_to_dir t (resolve_node_rec depth fs t True []))
             fs (segments path) [] (NodeDir root_index) [])
          (\<lambda>(ds, lst, path').
             case lst of
               NodeSymlink idx \<Rightarrow>
                 if follow_symlinks then
                   if idx \<in> set visited_symlinks then Err (LoopExists path')
                   else
                     and_then (get_sym fs idx) (\<lambda>s.
                     and_then
                       (resolve_node_rec depth fs (target s) follow_symlinks
                          (visited_symlinks @ [idx]))
                       (\<lambda>(rec_dirs, lst'). Ok (ds @ rec_dirs, lst')))
                 else Ok (ds, lst)
             | _ \<Rightarrow> Ok (ds, lst)))"

definition resolve_depth :: "abstract_fs \<Rightarrow> nat" where
  "resolve_depth fs = (length (symlinks fs) + 1) ^ 2"

definition resolve_node ::
    "abstract_fs \<Rightarrow> pathname \<Rightarrow> bool \<Rightarrow> (fs_error, dir_index list \<times> node) res" where
  "resolve_node fs path follow_symlinks =
     resolve_node_rec (resolve_depth fs) fs path follow_symlinks []"

definition resolve_file ::
    "abstract_fs \<Rightarrow> pathname \<Rightarrow> (fs_error, dir_index list \<times> file_index) res" where
  "resolve_file fs path = node_to_file path (resolve_node fs path True)"

definition resolve_dir ::
    "abstract_fs \<Rightarrow> pathname \<Rightarrow> (fs_error, dir_index list \<times> dir_index) res" where
  "resolve_dir fs path = node_to_dir path (resolve_node fs path True)"

text \<open>
  The common prologue of the operations that work on a directory entry: split the path, resolve
  its parent directory and look at that directory.
\<close>

definition parent_entry ::
    "abstract_fs \<Rightarrow> pathname \<Rightarrow> (fs_error, dir_index list \<times> dir_index \<times> dir_node \<times> name) res" where
  "parent_entry fs path =
     and_then (path_split path) (\<lambda>(parent_path, name).
     and_then (resolve_dir fs parent_path) (\<lambda>(ds, parent).
     and_then (get_dir fs parent) (\<lambda>d. Ok (ds, parent, d, name))))"

subsection \<open>Operations on the tree\<close>

definition remove :: "pathname \<Rightarrow> abstract_fs \<Rightarrow> (fs_error, unit) res \<times> abstract_fs" where
  "remove path fs =
     (if is_root path then (Err RootRemovalForbidden, fs)
      else or_return (parent_entry fs path) fs (\<lambda>(_, parent, d, name).
        if child d name = None then (Err (NotFound path), fs)
        else (Ok (), record_op (OpRemove path) (set_dir parent (remove_child name d) fs))))"

definition mkdir ::
    "pathname \<Rightarrow> mode \<Rightarrow> abstract_fs \<Rightarrow> (fs_error, dir_index) res \<times> abstract_fs" where
  "mkdir path m fs =
     or_return (parent_entry fs path) fs (\<lambda>(_, parent, d, name).
       if child d name \<noteq> None then (Err (NameAlreadyExists path), fs)
       else
         let idx = DirIndex (length (dirs fs));
             fs1 = fs\<lparr>dirs := dirs fs @ [\<lparr>children = []\<rparr>]\<rparr>;
             fs2 = set_dir parent (insert_child name (NodeDir idx) d) fs1
         in (Ok idx, record_op (OpMkDir path m) fs2))"

definition create ::
    "pathname \<Rightarrow> mode \<Rightarrow> abstract_fs \<Rightarrow> (fs_error, file_index) res \<times> abstract_fs" where
  "create path m fs =
     or_return (parent_entry fs path) fs (\<lambda>(_, parent, d, name).
       if child d name \<noteq> None then (Err (NameAlreadyExists path), fs)
       else
         let idx = FileIndex (length (files fs));
             fs1 = fs\<lparr>files := files fs @ [\<lparr>descriptor = None, cont = content_new\<rparr>]\<rparr>;
             fs2 = set_dir parent (insert_child name (NodeFile idx) d) fs1
         in (Ok idx, record_op (OpCreate path m) fs2))"

definition hardlink ::
    "pathname \<Rightarrow> pathname \<Rightarrow> abstract_fs \<Rightarrow> (fs_error, file_index) res \<times> abstract_fs" where
  "hardlink old_path new_path fs =
     or_return (parent_entry fs old_path) fs (\<lambda>(_, _, old_d, old_name).
       case child old_d old_name of
         Some (NodeSymlink _) \<Rightarrow> (Err (HardlinkToSymlinkForbidden old_path), fs)
       | _ \<Rightarrow>
         or_return (resolve_file fs old_path) fs (\<lambda>(_, old_file).
         or_return (parent_entry fs new_path) fs (\<lambda>(_, parent, d, name).
           if child d name \<noteq> None then (Err (NameAlreadyExists new_path), fs)
           else (Ok old_file, record_op (OpHardlink old_path new_path)
                  (set_dir parent (insert_child name (NodeFile old_file) d) fs)))))"

definition make_symlink ::
    "pathname \<Rightarrow> pathname \<Rightarrow> abstract_fs \<Rightarrow> (fs_error, symlink_index) res \<times> abstract_fs" where
  "make_symlink tgt linkpath fs =
     or_return (parent_entry fs linkpath) fs (\<lambda>(_, parent, d, name).
       if child d name \<noteq> None then (Err (NameAlreadyExists linkpath), fs)
       else
         let idx = SymlinkIndex (length (symlinks fs));
             fs1 = fs\<lparr>symlinks := symlinks fs @ [\<lparr>target = tgt\<rparr>]\<rparr>;
             fs2 = set_dir parent (insert_child name (NodeSymlink idx) d) fs1
         in (Ok idx, record_op (OpSymlink tgt linkpath) fs2))"

text \<open>
  The guard at the top of \<open>rename\<close>: \<open>Ok True\<close> when the new path resolves to a directory that has
  children. A failure to resolve the new path is swallowed, a crash is not.
\<close>

definition nonempty_dir_at :: "abstract_fs \<Rightarrow> pathname \<Rightarrow> (fs_error, bool) res" where
  "nonempty_dir_at fs path =
     (case resolve_dir fs path of
        Ok (_, idx) \<Rightarrow> and_then (get_dir fs idx) (\<lambda>d. Ok (children d \<noteq> []))
      | Err _ \<Rightarrow> Ok False
      | Crash c \<Rightarrow> Crash c)"

definition moves_below_itself :: "node \<Rightarrow> dir_index list \<Rightarrow> dir_index \<Rightarrow> bool" where
  "moves_below_itself n old_dirs parent =
     (case n of NodeDir old_idx \<Rightarrow> old_idx \<in> set old_dirs \<or> parent = old_idx | _ \<Rightarrow> False)"

definition rename ::
    "pathname \<Rightarrow> pathname \<Rightarrow> abstract_fs \<Rightarrow> (fs_error, node) res \<times> abstract_fs" where
  "rename old_path new_path fs =
     or_return (nonempty_dir_at fs new_path) fs (\<lambda>nonempty.
       if nonempty then (Err (DirNotEmpty new_path), fs)
       else
         or_return (resolve_node fs old_path False) fs (\<lambda>(_, n).
         or_return (parent_entry fs new_path) fs (\<lambda>(old_dirs, parent, d, name).
           if moves_below_itself n old_dirs parent
           then (Err (RenameToSubdirectoryError old_path new_path), fs)
           else
             let fs1 = set_dir parent (insert_child name n d) fs
             in or_return (parent_entry fs1 old_path) fs1 (\<lambda>(_, parent2, d2, name2).
                  (Ok n, record_op (OpRename old_path new_path)
                     (set_dir parent2 (remove_child name2 d2) fs1))))))"

subsection \<open>Operations on descriptors\<close>

definition open_file :: "pathname \<Rightarrow> abstract_fs \<Rightarrow> (fs_error, fd_index) res \<times> abstract_fs" where
  "open_file path fs =
     (let des = FileDescriptorIndex (length (descriptors fs))
      in or_return (resolve_file fs path) fs (\<lambda>(_, file_idx).
         or_return (get_file fs file_idx) fs (\<lambda>f.
           if descriptor f \<noteq> None then (Err (FileAlreadyOpened path), fs)
           else
             let fs1 = set_file file_idx (f\<lparr>descriptor := Some des\<rparr>) fs;
                 fs2 = fs1\<lparr>descriptors := descriptors fs1 @ [\<lparr>fd_file = file_idx, offset = 0\<rparr>]\<rparr>
             in (Ok des, record_op (OpOpen path des) fs2))))"

text \<open>The common prologue of the descriptor operations: the descriptor must exist and be open.\<close>

definition open_descriptor ::
    "abstract_fs \<Rightarrow> fd_index \<Rightarrow> (fs_error, file_descriptor \<times> file_node) res" where
  "open_descriptor fs des_idx =
     and_then (get_descriptor fs des_idx) (\<lambda>des.
     and_then (get_file fs (fd_file des)) (\<lambda>f.
       if descriptor f \<noteq> Some des_idx then Err (DescriptorWasClosed des_idx) else Ok (des, f)))"

definition close_fd :: "fd_index \<Rightarrow> abstract_fs \<Rightarrow> (fs_error, unit) res \<times> abstract_fs" where
  "close_fd des_idx fs =
     or_return (open_descriptor fs des_idx) fs (\<lambda>(des, f).
       (Ok (), record_op (OpClose des_idx) (set_file (fd_file des) (f\<lparr>descriptor := None\<rparr>) fs)))"

definition read_fd :: "fd_index \<Rightarrow> u64 \<Rightarrow> abstract_fs \<Rightarrow> (fs_error, content) res \<times> abstract_fs" where
  "read_fd des_idx sz fs =
     or_return (open_descriptor fs des_idx) fs (\<lambda>(des, f).
     or_return (map_err ContentErr (content_read (offset des) sz (cont f))) fs (\<lambda>c.
     or_return (get_descriptor fs des_idx) fs (\<lambda>des2.
       let fs1 = set_descriptor des_idx (des2\<lparr>offset := offset des2 + content_size c\<rparr>) fs
       in if offset des2 + content_size c \<le> content_size (cont f)
          then (Ok c, record_op (OpRead des_idx sz) fs1)
          else (Crash Panicked, fs1))))"

definition write_fd ::
    "fd_index \<Rightarrow> u64 \<Rightarrow> u64 \<Rightarrow> abstract_fs \<Rightarrow> (fs_error, unit) res \<times> abstract_fs" where
  "write_fd des_idx src_offset sz fs =
     or_return (open_descriptor fs des_idx) fs (\<lambda>(des, f).
     or_return (map_err ContentErr (content_write src_offset (offset des) sz (cont f))) fs (\<lambda>c.
       let fs1 = set_file (fd_file des) (f\<lparr>cont := c\<rparr>) fs
       in or_return (get_descriptor fs1 des_idx) fs1 (\<lambda>des2.
            let fs2 = set_descriptor des_idx (des2\<lparr>offset := offset des2 + sz\<rparr>) fs1
            in if offset des2 + sz \<le> content_size c
               then (Ok (), record_op (OpWrite des_idx src_offset sz) fs2)
               else (Crash Panicked, fs2))))"

definition fsync_fd :: "fd_index \<Rightarrow> abstract_fs \<Rightarrow> (fs_error, unit) res \<times> abstract_fs" where
  "fsync_fd des_idx fs =
     or_return (open_descriptor fs des_idx) fs (\<lambda>_.
       (Ok (), record_op (OpFSync des_idx) fs))"

subsection \<open>Replaying a workload\<close>

fun forget :: "('e, 'a) res \<times> 's \<Rightarrow> ('e, unit) res \<times> 's" where
  "forget (r, s) = (and_then r (\<lambda>_. Ok ()), s)"

text \<open>One operation of a workload; the recorded descriptor of an \<open>Open\<close> is ignored.\<close>

fun apply_op :: "operation \<Rightarrow> abstract_fs \<Rightarrow> (fs_error, unit) res \<times> abstract_fs" where
  "apply_op (OpMkDir path m) fs = forget (mkdir path m fs)"
| "apply_op (OpCreate path m) fs = forget (create path m fs)"
| "apply_op (OpRemove path) fs = remove path fs"
| "apply_op (OpHardlink old_path new_path) fs = forget (hardlink old_path new_path fs)"
| "apply_op (OpRename old_path new_path) fs = forget (rename old_path new_path fs)"
| "apply_op (OpOpen path _) fs = forget (open_file path fs)"
| "apply_op (OpClose des) fs = close_fd des fs"
| "apply_op (OpRead des sz) fs = forget (read_fd des sz fs)"
| "apply_op (OpWrite des src_offset sz) fs = write_fd des src_offset sz fs"
| "apply_op (OpFSync des) fs = fsync_fd des fs"
| "apply_op (OpSymlink tgt linkpath) fs = forget (make_symlink tgt linkpath fs)"

fun replay_ops :: "operation list \<Rightarrow> abstract_fs \<Rightarrow> (fs_error, unit) res \<times> abstract_fs" where
  "replay_ops [] fs = (Ok (), fs)"
| "replay_ops (op # rest) fs =
     (case apply_op op fs of (r, fs') \<Rightarrow> or_return r fs' (\<lambda>_. replay_ops rest fs'))"

definition replay :: "workload \<Rightarrow> abstract_fs \<Rightarrow> (fs_error, unit) res \<times> abstract_fs" where
  "replay w fs = replay_ops (ops w) fs"

end
