(* ===== verification/Resolve_Correct.thy ===== *)
theory Resolve_Correct
  imports Abstract_FS
begin

text \<open>
  Path resolution and its recursion depth.

  \<^item> Resolution is monotone in the depth: a result other than \<open>StackOverflow\<close> stays.
  \<^item> \<open>resolve_depth\<close> is enough: past it the result no longer changes, so a resolution that
    overflows there overflows at every depth, that is, recurses for ever.

  The bound is a counting argument. A call whose result changes between depth \<open>k\<close> and \<open>k + 1\<close> makes
  a call whose result changes between \<open>k - 1\<close> and \<open>k\<close>. No call changes at two depths, so the calls on
  such a chain are all different; those for a symlink in the middle of a path are at most one per
  symlink, and between two of them each followed final symlink lengthens the list of visited ones.
\<close>

subsection \<open>Monotone in the depth\<close>

text \<open>\<open>upto_overflow r r'\<close>: \<open>r'\<close> is \<open>r\<close>, unless \<open>r\<close> ran out of stack.\<close>

definition upto_overflow :: "('e, 'a) res \<Rightarrow> ('e, 'a) res \<Rightarrow> bool" where
  "upto_overflow r r' \<longleftrightarrow> r = Crash StackOverflow \<or> r' = r"

lemma upto_overflow_refl [simp, intro]: "upto_overflow r r"
  by (simp add: upto_overflow_def)

lemma upto_overflow_bot [simp]: "upto_overflow (Crash StackOverflow) r"
  by (simp add: upto_overflow_def)

lemma upto_overflow_and_then [intro!]:
  "upto_overflow r r' \<Longrightarrow> (\<And>a. r' = Ok a \<Longrightarrow> upto_overflow (f a) (g a)) \<Longrightarrow>
   upto_overflow (and_then r f) (and_then r' g)"
  by (cases r) (auto simp: upto_overflow_def)

lemma walk_mono:
  assumes "\<And>t. upto_overflow (rd t) (rd' t)"
  shows "upto_overflow (walk rd fs segs ds n p) (walk rd' fs segs ds n p)"
proof (induction segs arbitrary: ds n p)
  case (Cons seg segs)
  show ?case
    by (auto simp: Let_def assms Cons.IH split: node.split prod.split)
qed simp

lemma node_to_dir_mono: "upto_overflow r r' \<Longrightarrow> upto_overflow (node_to_dir p r) (node_to_dir p r')"
  by (auto simp: node_to_dir_def)

lemma resolve_mono_Suc:
  "upto_overflow (resolve_node_rec k fs p follow v) (resolve_node_rec (Suc k) fs p follow v)"
proof (induction k arbitrary: p follow v)
  case (Suc k)
  have "upto_overflow
      (walk (\<lambda>t. node_to_dir t (resolve_node_rec k fs t True [])) fs (segments p) [] (NodeDir root_index) [])
      (walk (\<lambda>t. node_to_dir t (resolve_node_rec (Suc k) fs t True [])) fs (segments p) [] (NodeDir root_index) [])"
    by (intro walk_mono node_to_dir_mono Suc.IH)
  then show ?case
    by (subst (1 2) resolve_node_rec.simps(2))
      (auto simp: Suc.IH simp del: resolve_node_rec.simps split: node.split prod.split)
qed simp

lemma resolve_mono:
  "k \<le> k' \<Longrightarrow> upto_overflow (resolve_node_rec k fs p follow v) (resolve_node_rec k' fs p follow v)"
proof (induction k' rule: dec_induct)
  case (step n)
  then show ?case
    using resolve_mono_Suc [of n fs p follow v] by (auto simp: upto_overflow_def)
qed simp

subsection \<open>Enough depth\<close>

text \<open>The result of a call changes between depth \<open>k\<close> and \<open>k + 1\<close>.\<close>

definition changes_at :: "nat \<Rightarrow> abstract_fs \<Rightarrow> pathname \<Rightarrow> bool \<Rightarrow> symlink_index list \<Rightarrow> bool" where
  "changes_at k fs p follow v \<longleftrightarrow>
     resolve_node_rec k fs p follow v \<noteq> resolve_node_rec (Suc k) fs p follow v"

lemma changes_at_unique:
  assumes "changes_at j fs p follow v" and "changes_at k fs p follow v"
  shows "j = k"
proof -
  have "\<not> i < l" if "changes_at i fs p follow v" "changes_at l fs p follow v" for i l
  proof
    assume "i < l"
    then show False
      using that resolve_mono [of "Suc i" l fs p follow v] resolve_mono_Suc [of i fs p follow v]
        resolve_mono_Suc [of l fs p follow v]
      by (auto simp: changes_at_def upto_overflow_def)
  qed
  then show ?thesis using assms by (meson linorder_neqE_nat)
qed

lemma walk_cong_targets:
  assumes "\<And>i s. get_sym fs i = (Ok s :: (fs_error, _) res) \<Longrightarrow> rd (target s) = rd' (target s)"
  shows "walk rd fs segs ds n p = walk rd' fs segs ds n p"
proof (induction segs arbitrary: ds n p)
  case (Cons seg segs)
  show ?case
    by (auto simp: Let_def assms Cons.IH split: node.split prod.split intro!: and_then_cong)
qed simp

lemma changes_at_subcall:
  assumes "changes_at (Suc k) fs p follow v"
  shows "\<exists>i s. get_sym fs i = (Ok s :: (fs_error, _) res) \<and>
           (changes_at k fs (target s) True []
            \<or> follow \<and> i \<notin> set v \<and> changes_at k fs (target s) True (v @ [i]))"
proof (rule ccontr)
  assume no: "\<not> ?thesis"
  have dirs: "resolve_node_rec k fs (target s) True [] = resolve_node_rec (Suc k) fs (target s) True []"
    if "get_sym fs i = (Ok s :: (fs_error, _) res)" for i s
    using no that unfolding changes_at_def by blast
  have final: "resolve_node_rec k fs (target s) True (v @ [i])
               = resolve_node_rec (Suc k) fs (target s) True (v @ [i])"
    if "get_sym fs i = (Ok s :: (fs_error, _) res)" "follow" "i \<notin> set v" for i s
  proof -
    have "\<not> changes_at k fs (target s) True (v @ [i])" using no that by blast
    then show ?thesis by (simp add: changes_at_def del: resolve_node_rec.simps)
  qed
  have "walk (\<lambda>t. node_to_dir t (resolve_node_rec k fs t True [])) fs (segments p) [] (NodeDir root_index) []
      = walk (\<lambda>t. node_to_dir t (resolve_node_rec (Suc k) fs t True [])) fs (segments p) [] (NodeDir root_index) []"
    by (rule walk_cong_targets) (simp only: dirs)
  then have "resolve_node_rec (Suc k) fs p follow v = resolve_node_rec (Suc (Suc k)) fs p follow v"
    by (subst (1 2) resolve_node_rec.simps(2))
      (auto simp: final simp del: resolve_node_rec.simps split: node.split prod.split intro!: and_then_cong)
  then show False using assms by (simp add: changes_at_def)
qed

text \<open>The symlinks whose target, resolved as a directory, changes at a depth below \<open>k\<close>.\<close>

definition pending :: "nat \<Rightarrow> abstract_fs \<Rightarrow> symlink_index set" where
  "pending k fs = {i. symlink_ix i < length (symlinks fs) \<and>
     (\<exists>j < k. changes_at j fs (target (symlinks fs ! symlink_ix i)) True [])}"

lemma symlink_indices_image: "{i. symlink_ix i < n} = SymlinkIndex ` {..<n}"
proof -
  have "i \<in> SymlinkIndex ` {..<n}" if "symlink_ix i < n" for i
    using that by (cases i) simp
  then show ?thesis by auto
qed

lemma symlink_indices_finite [simp]: "finite {i. symlink_ix i < n}"
  by (simp add: symlink_indices_image)

lemma symlink_indices_card: "card {i. symlink_ix i < n} = n"
  by (simp add: symlink_indices_image card_image inj_on_def)

lemma pending_finite: "finite (pending k fs)"
  by (rule finite_subset [OF _ symlink_indices_finite [of "length (symlinks fs)"]])
    (auto simp: pending_def)

lemma pending_card: "card (pending k fs) \<le> length (symlinks fs)"
  using card_mono [OF symlink_indices_finite, of "pending k fs" "length (symlinks fs)"]
  by (auto simp: pending_def symlink_indices_card)

lemma changes_at_bound:
  assumes "changes_at k fs p follow v" and "distinct v"
    and "\<forall>i \<in> set v. symlink_ix i < length (symlinks fs)"
  shows "k \<le> (length (symlinks fs) - length v) + card (pending k fs) * (length (symlinks fs) + 1)"
  using assms
proof (induction k arbitrary: p follow v)
  case (Suc k)
  let ?n = "length (symlinks fs)"
  obtain i s where i: "get_sym fs i = (Ok s :: (fs_error, _) res)"
    and sub: "changes_at k fs (target s) True []
              \<or> follow \<and> i \<notin> set v \<and> changes_at k fs (target s) True (v @ [i])"
    using changes_at_subcall [OF Suc.prems(1)] by blast
  have ix: "symlink_ix i < ?n" "s = symlinks fs ! symlink_ix i"
    using i by (auto simp: get_sym_def)
  have mono: "pending k fs \<subseteq> pending (Suc k) fs" by (auto simp: pending_def intro: less_SucI)
  from sub show ?case
  proof
    assume change: "changes_at k fs (target s) True []"
    then have "i \<in> pending (Suc k) fs" using ix by (auto simp: pending_def)
    moreover have "i \<notin> pending k fs"
      using change ix by (auto simp: pending_def dest: changes_at_unique)
    ultimately have "pending k fs \<subset> pending (Suc k) fs" using mono by auto
    then have "card (pending k fs) < card (pending (Suc k) fs)"
      by (rule psubset_card_mono [OF pending_finite])
    then have "Suc (card (pending k fs)) * (?n + 1) \<le> card (pending (Suc k) fs) * (?n + 1)"
      by (intro mult_le_mono1) simp
    moreover have "k \<le> ?n + card (pending k fs) * (?n + 1)"
      using Suc.IH [OF change] by simp
    ultimately show ?thesis by simp
  next
    assume F: "follow \<and> i \<notin> set v \<and> changes_at k fs (target s) True (v @ [i])"
    have dist: "distinct (v @ [i])" using F Suc.prems by simp
    have sub: "set (v @ [i]) \<subseteq> {i. symlink_ix i < ?n}" using Suc.prems(3) ix by auto
    have "card (set (v @ [i])) \<le> ?n"
      using card_mono [OF symlink_indices_finite sub] by (simp only: symlink_indices_card)
    then have len: "Suc (length v) \<le> ?n" using distinct_card [OF dist] by simp
    have "k \<le> (?n - length (v @ [i])) + card (pending k fs) * (?n + 1)"
      using Suc.IH [of "target s" True "v @ [i]"] F dist sub by auto
    moreover have "card (pending k fs) * (?n + 1) \<le> card (pending (Suc k) fs) * (?n + 1)"
      by (intro mult_le_mono1 card_mono pending_finite mono)
    ultimately show ?thesis using len by simp
  qed
qed simp

lemma no_change_past_depth:
  assumes "resolve_depth fs \<le> k"
  shows "\<not> changes_at k fs p follow []"
proof
  let ?n = "length (symlinks fs)"
  assume "changes_at k fs p follow []"
  then have "k \<le> ?n + card (pending k fs) * (?n + 1)"
    using changes_at_bound [of k fs p follow "[]"] by simp
  also have "\<dots> \<le> ?n + ?n * (?n + 1)"
    by (intro add_left_mono mult_le_mono1 pending_card)
  finally show False using assms by (simp add: resolve_depth_def power2_eq_square)
qed

lemma resolve_depth_enough:
  assumes "resolve_depth fs \<le> k"
  shows "resolve_node_rec k fs p follow [] = resolve_node fs p follow"
  using assms
proof (induction k rule: dec_induct)
  case (step n)
  then show ?case using no_change_past_depth [of fs n p follow] by (simp add: changes_at_def)
qed (simp add: resolve_node_def)

lemma resolve_overflow_iff:
  "resolve_node fs p follow = Crash StackOverflow
   \<longleftrightarrow> (\<forall>k. resolve_node_rec k fs p follow [] = Crash StackOverflow)"
proof
  assume over: "resolve_node fs p follow = Crash StackOverflow"
  show "\<forall>k. resolve_node_rec k fs p follow [] = Crash StackOverflow"
  proof
    fix k
    have "resolve_node_rec (max k (resolve_depth fs)) fs p follow [] = Crash StackOverflow"
      using over by (simp add: resolve_depth_enough)
    then show "resolve_node_rec k fs p follow [] = Crash StackOverflow"
      using resolve_mono [of k "max k (resolve_depth fs)" fs p follow "[]"]
      by (auto simp: upto_overflow_def)
  qed
qed (simp add: resolve_node_def)

end
