(* ===== verification/Content_Correct.thy ===== *)
theory Content_Correct
  imports Content
begin

text \<open>
  Correctness of \<open>content.rs\<close> against the abstraction \<open>content_bytes\<close>, the list of source positions
  a content stands for.
\<close>

subsection \<open>The abstraction\<close>

definition slice_bytes :: "source_slice \<Rightarrow> nat list" where
  "slice_bytes s = [unat (slice_from s) ..< Suc (unat (slice_to s))]"

definition slices_bytes :: "source_slice list \<Rightarrow> nat list" where
  "slices_bytes ss = concat (map slice_bytes ss)"

definition content_bytes :: "content \<Rightarrow> nat list" where
  "content_bytes c = slices_bytes (slices c)"

text \<open>Well-formed: no empty slice, and the total size is a \<open>u64\<close>.\<close>

definition wf_slices :: "source_slice list \<Rightarrow> bool" where
  "wf_slices ss \<longleftrightarrow>
     (\<forall>s \<in> set ss. slice_from s \<le> slice_to s) \<and> length (slices_bytes ss) < 2 ^ 64"

definition wf_content :: "content \<Rightarrow> bool" where
  "wf_content c \<longleftrightarrow> wf_slices (slices c)"

lemma slices_bytes_simps [simp]:
  "slices_bytes [] = []"
  "slices_bytes (s # ss) = slice_bytes s @ slices_bytes ss"
  "slices_bytes (ss @ ts) = slices_bytes ss @ slices_bytes ts"
  by (simp_all add: slices_bytes_def)

lemma wf_slices_simps [simp]:
  "wf_slices []"
  "wf_slices (s # ss) \<longleftrightarrow>
     slice_from s \<le> slice_to s \<and> wf_slices ss \<and> length (slices_bytes (s # ss)) < 2 ^ 64"
  "wf_slices (ss @ ts) \<longleftrightarrow> wf_slices ss \<and> wf_slices ts \<and> length (slices_bytes (ss @ ts)) < 2 ^ 64"
  by (auto simp: wf_slices_def)

lemma unat_word_of_nat_less: "n < 2 ^ 64 \<Longrightarrow> unat (word_of_nat n :: u64) = n"
  by (simp add: unat_of_nat)

lemma length_slice_bytes: "length (slice_bytes s) = Suc (unat (slice_to s)) - unat (slice_from s)"
  by (simp add: slice_bytes_def del: upt_Suc)

lemma slice_size_eq: "slice_size s = word_of_nat (length (slice_bytes s))"
proof (cases "slice_from s \<le> slice_to s")
  case True
  then have "unat (slice_from s) \<le> unat (slice_to s)" by (simp add: word_le_nat_alt)
  then have "length (slice_bytes s) = unat (slice_to s - slice_from s) + 1"
    using True by (simp add: length_slice_bytes unat_sub Suc_diff_le)
  with True show ?thesis by (simp add: slice_size_def)
next
  case False
  then have "unat (slice_to s) < unat (slice_from s)" by (simp add: word_le_nat_alt)
  with False show ?thesis by (simp add: slice_size_def length_slice_bytes)
qed

lemma unat_slice_size:
  "length (slice_bytes s) < 2 ^ 64 \<Longrightarrow> unat (slice_size s) = length (slice_bytes s)"
  by (simp add: slice_size_eq unat_word_of_nat_less)

lemma slice_size_pos:
  "length (slice_bytes s) < 2 ^ 64 \<Longrightarrow> 0 < slice_size s \<longleftrightarrow> slice_bytes s \<noteq> []"
  by (simp add: word_less_nat_alt unat_slice_size)

lemma slice_bytes_nonempty: "slice_from s \<le> slice_to s \<longleftrightarrow> slice_bytes s \<noteq> []"
  by (simp add: slice_bytes_def word_le_nat_alt less_Suc_eq_le)

lemma wf_slices_pos: "wf_slices ss \<Longrightarrow> \<forall>s \<in> set ss. slice_size s > 0"
  by (induction ss) (auto simp: slice_size_pos slice_bytes_nonempty)

lemma slice_bytes_take:
  assumes "k \<le> length (slice_bytes s)"
  shows "take k (slice_bytes s) = [unat (slice_from s) ..< unat (slice_from s) + k]"
    and "unat (slice_from s) + k \<le> 2 ^ 64"
proof -
  have "unat (slice_to s) < 2 ^ 64" "unat (slice_from s) < 2 ^ 64"
    using unsigned_less [of "slice_to s"] unsigned_less [of "slice_from s"] by simp_all
  then show "unat (slice_from s) + k \<le> 2 ^ 64" using assms by (simp add: length_slice_bytes)
  show "take k (slice_bytes s) = [unat (slice_from s) ..< unat (slice_from s) + k]"
  proof (cases "k = 0")
    case False
    then show ?thesis using assms by (simp add: slice_bytes_def take_upt del: upt_Suc)
  qed simp
qed

lemma take_min_length: "take (min (length xs) n) xs = take n xs"
  by (simp add: min_def)

lemma foldl_slice_size:
  "foldl (\<lambda>acc s. acc + slice_size s) a ss = a + word_of_nat (length (slices_bytes ss))"
  by (induction ss arbitrary: a) (simp_all add: slice_size_eq)

lemma content_size_eq: "content_size c = word_of_nat (length (content_bytes c))"
  by (simp add: content_size_def content_bytes_def foldl_slice_size)

lemma unat_content_size: "wf_content c \<Longrightarrow> unat (content_size c) = length (content_bytes c)"
  by (simp add: content_size_eq wf_content_def wf_slices_def content_bytes_def unat_word_of_nat_less)

lemma wf_content_new [simp]: "wf_content content_new" "content_bytes content_new = []"
  by (simp_all add: wf_content_def content_new_def content_bytes_def)

subsection \<open>Appending\<close>

lemma slice_bytes_range:
  assumes "0 < n" and "unat src + unat n \<le> 2 ^ 64"
  shows "slice_bytes \<lparr>slice_from = src, slice_to = src + n - 1\<rparr> = [unat src ..< unat src + unat n]"
proof -
  have n: "1 \<le> n" using assms(1) by (simp add: word_le_nat_alt word_less_nat_alt)
  then have pos: "unat n \<noteq> 0" by (simp add: word_le_nat_alt)
  have n1: "unat (n - 1) = unat n - 1" using n by (simp add: unat_sub)
  have "unat src + unat (n - 1) < 2 ^ LENGTH(64)" using assms pos n1 by simp
  then have "unat (src + (n - 1)) = unat src + (unat n - 1)"
    by (subst unat_add_lem [THEN iffD1]) (simp_all add: n1)
  then show ?thesis using pos by (simp add: slice_bytes_def add_diff_eq)
qed

lemma write_back_bytes:
  assumes "unat src + unat n \<le> 2 ^ 64"
  shows "content_bytes (write_back src n c) = content_bytes c @ [unat src ..< unat src + unat n]"
proof (cases "0 < n")
  case True
  then show ?thesis
    by (simp add: write_back_def content_bytes_def slice_bytes_range [OF True assms])
next
  case False
  then have "n = 0" using word_gt_0 by blast
  then show ?thesis by (simp add: write_back_def)
qed

lemma write_back_wf:
  assumes "wf_content c" and "unat src + unat n \<le> 2 ^ 64"
    and "length (content_bytes c) + unat n < 2 ^ 64"
  shows "wf_content (write_back src n c)"
proof (cases "0 < n")
  case True
  then have "slice_bytes \<lparr>slice_from = src, slice_to = src + n - 1\<rparr> \<noteq> []"
    using assms(2) by (simp add: slice_bytes_range word_less_nat_alt)
  then show ?thesis
    using assms True slice_bytes_nonempty [of "\<lparr>slice_from = src, slice_to = src + n - 1\<rparr>"]
    by (simp add: write_back_def wf_content_def content_bytes_def slice_bytes_range)
qed (use assms in \<open>simp add: write_back_def\<close>)

subsection \<open>Overwriting\<close>

lemma slice_split:
  assumes "slice_from s \<le> slice_to s" and k: "0 < k" "k < length (slice_bytes s)"
    and fst_to: "fst_to = slice_from s + (word_of_nat k - 1)"
  shows "slice_bytes (s\<lparr>slice_to := fst_to\<rparr>) = take k (slice_bytes s)"
    and "slice_bytes \<lparr>slice_from = fst_to + 1, slice_to = slice_to s\<rparr> = drop k (slice_bytes s)"
proof -
  have bound: "unat (slice_from s) + k \<le> unat (slice_to s)"
    using k by (simp add: length_slice_bytes)
  also have "unat (slice_to s) < 2 ^ 64" using unsigned_less [of "slice_to s"] by simp
  finally have less: "unat (slice_from s) + k < 2 ^ 64" .
  have k1: "word_of_nat k - 1 = (word_of_nat (k - 1) :: u64)" using k by simp
  have to: "unat fst_to = unat (slice_from s) + k - 1"
  proof -
    have "fst_to = word_of_nat (unat (slice_from s) + (k - 1))"
      by (simp add: fst_to k1 del: of_nat_diff)
    moreover have "unat (slice_from s) + (k - 1) < 2 ^ 64" using less by simp
    ultimately have "unat fst_to = unat (slice_from s) + (k - 1)" by (simp only: unat_word_of_nat_less)
    then show ?thesis using k by simp
  qed
  have to1: "unat (fst_to + 1) = unat (slice_from s) + k"
  proof -
    have "fst_to + 1 = word_of_nat (unat (slice_from s) + k)" by (simp add: fst_to)
    moreover have "unat (slice_from s) + k < 2 ^ 64" using less by simp
    ultimately show ?thesis by (simp only: unat_word_of_nat_less)
  qed
  show "slice_bytes (s\<lparr>slice_to := fst_to\<rparr>) = take k (slice_bytes s)"
    using k to bound by (simp add: slice_bytes_def take_upt del: upt_Suc)
  show "slice_bytes \<lparr>slice_from = fst_to + 1, slice_to = slice_to s\<rparr> = drop k (slice_bytes s)"
    using to1 by (simp add: slice_bytes_def drop_upt del: upt_Suc)
qed

text \<open>Locating the write: the bytes do not change and the index cuts them at the write offset.\<close>

lemma write_locate_step:
  assumes "i < length ss"
  shows "write_locate w i off ss =
     (let slice = ss ! i; next_offset = off + slice_size slice
      in if off = w then Ok (ss, i)
         else if next_offset > w then
           (let old_size = slice_size slice;
                fst_half_to = slice_from slice + (w - off - 1);
                snd_half_to = slice_to slice;
                fst_half = slice\<lparr>slice_to := fst_half_to\<rparr>;
                snd_half = \<lparr>slice_from = fst_half_to + 1, slice_to = snd_half_to\<rparr>;
                ss' = insert_at (i + 1) snd_half (ss[i := fst_half])
            in if old_size = slice_size fst_half + slice_size snd_half
               then Ok (ss', i + 1) else Crash Panicked)
         else write_locate w (Suc i) next_offset ss)"
  using assms by (simp add: write_locate.simps [of w i off ss])

lemma write_locate_split:
  assumes wf: "wf_slices (pre @ s # post)"
    and lo: "length (slices_bytes pre) < unat w"
    and hi: "unat w < length (slices_bytes (pre @ [s]))"
  shows "\<exists>a b. write_locate w (length pre) (word_of_nat (length (slices_bytes pre))) (pre @ s # post)
             = Ok (pre @ a # b # post, Suc (length pre))
           \<and> slice_bytes a = take (unat w - length (slices_bytes pre)) (slice_bytes s)
           \<and> slice_bytes b = drop (unat w - length (slices_bytes pre)) (slice_bytes s)"
proof -
  let ?p = "length (slices_bytes pre)"
  let ?k = "unat w - ?p"
  let ?off = "word_of_nat ?p :: u64"
  have k: "0 < ?k" "?k < length (slice_bytes s)" using lo hi by auto
  have s: "slice_from s \<le> slice_to s" using wf by simp
  have less: "length (slices_bytes (pre @ [s])) < 2 ^ 64" using wf by simp
  have p: "unat ?off = ?p" using less by (simp add: unat_word_of_nat_less)
  have "?p \<le> unat w" using lo by simp
  then have "word_of_nat (unat w) - ?off = word_of_nat ?k"
    by (simp only: of_nat_diff)
  then have wk: "w - ?off = word_of_nat ?k" by (simp only: of_nat_unat ucast_id)
  have ne: "?off \<noteq> w" using lo p by auto
  have nxt: "?off + slice_size s > w"
  proof -
    have "?off + slice_size s = word_of_nat (length (slices_bytes (pre @ [s])))"
      by (simp add: slice_size_eq)
    then have "unat (?off + slice_size s) = length (slices_bytes (pre @ [s]))"
      using less by (simp only: unat_word_of_nat_less)
    then show ?thesis using hi by (simp add: word_less_nat_alt)
  qed
  let ?ft = "slice_from s + (w - ?off - 1)"
  let ?a = "s\<lparr>slice_to := ?ft\<rparr>" and ?b = "\<lparr>slice_from = ?ft + 1, slice_to = slice_to s\<rparr>"
  have ft: "?ft = slice_from s + (word_of_nat ?k - 1)" by (simp only: wk)
  note halves = slice_split [OF s k ft]
  have "length (slice_bytes s) = length (take ?k (slice_bytes s)) + length (drop ?k (slice_bytes s))"
    using k by simp
  then have "slice_size s = slice_size ?a + slice_size ?b"
    unfolding slice_size_eq halves by (simp only: of_nat_add)
  then have "write_locate w (length pre) ?off (pre @ s # post)
             = Ok (pre @ ?a # ?b # post, Suc (length pre))"
    using ne nxt by (simp add: write_locate_step Let_def insert_at_def)
  then show ?thesis using halves by blast
qed

lemma write_locate_bytes:
  assumes "wf_slices (pre @ post)"
    and "length (slices_bytes pre) \<le> unat w" and "unat w < length (slices_bytes (pre @ post))"
  shows "\<exists>ss1 ss2. write_locate w (length pre) (word_of_nat (length (slices_bytes pre))) (pre @ post)
             = Ok (ss1 @ ss2, length ss1)
           \<and> slices_bytes ss1 = take (unat w) (slices_bytes (pre @ post))
           \<and> slices_bytes ss2 = drop (unat w) (slices_bytes (pre @ post))"
  using assms
proof (induction post arbitrary: pre)
  case Nil
  then show ?case by simp
next
  case (Cons s post)
  let ?p = "length (slices_bytes pre)"
  have p: "unat (word_of_nat ?p :: u64) = ?p" using Cons.prems(1) by (simp add: unat_word_of_nat_less)
  have p': "unat (word_of_nat (length (slices_bytes (pre @ [s]))) :: u64) = length (slices_bytes (pre @ [s]))"
    using Cons.prems(1) by (simp add: unat_word_of_nat_less del: of_nat_add)
  consider (here) "?p = unat w" | (inside) "?p < unat w" "unat w < length (slices_bytes (pre @ [s]))"
    | (later) "length (slices_bytes (pre @ [s])) \<le> unat w" "?p < unat w"
    using Cons.prems by fastforce
  then show ?case
  proof cases
    case here
    then have "word_of_nat ?p = w" by simp
    then have "write_locate w (length pre) (word_of_nat ?p) (pre @ s # post)
               = Ok (pre @ s # post, length pre)"
      by (simp add: write_locate_step)
    with here show ?thesis by (intro exI [of _ pre] exI [of _ "s # post"]) simp
  next
    case inside
    then obtain a b where ab:
      "write_locate w (length pre) (word_of_nat ?p) (pre @ s # post)
       = Ok (pre @ a # b # post, Suc (length pre))"
      "slice_bytes a = take (unat w - ?p) (slice_bytes s)"
      "slice_bytes b = drop (unat w - ?p) (slice_bytes s)"
      using write_locate_split [OF Cons.prems(1)] by blast
    then show ?thesis using inside
      by (intro exI [of _ "pre @ [a]"] exI [of _ "b # post"]) simp
  next
    case later
    have ne: "word_of_nat ?p \<noteq> w" using later(2) p by auto
    have add: "word_of_nat ?p + slice_size s = word_of_nat (length (slices_bytes (pre @ [s])))"
      by (simp add: slice_size_eq)
    have "\<not> word_of_nat ?p + slice_size s > w"
      unfolding add word_less_nat_alt p' using later(1) by simp
    then have "write_locate w (length pre) (word_of_nat ?p) (pre @ s # post)
        = write_locate w (length (pre @ [s])) (word_of_nat (length (slices_bytes (pre @ [s])))) ((pre @ [s]) @ post)"
      using ne by (simp add: write_locate_step add Let_def del: of_nat_add)
    then show ?thesis using Cons.IH [of "pre @ [s]"] Cons.prems later by simp
  qed
qed

text \<open>Truncation, first as a recursion on the slices that follow the written one.\<close>

fun truncate_list :: "u64 \<Rightarrow> source_slice list \<Rightarrow> source_slice list" where
  "truncate_list t [] = []"
| "truncate_list t (s # ss) =
     (if slice_size s > t then s\<lparr>slice_from := slice_from s + t\<rparr> # ss
      else s\<lparr>slice_from := 100000, slice_to := 0\<rparr> # truncate_list (t - slice_size s) ss)"

lemma write_truncate_append:
  "write_truncate (length pre) t (pre @ post) = pre @ truncate_list t post"
proof (induction post arbitrary: pre t)
  case Nil
  then show ?case by (simp add: write_truncate.simps)
next
  case (Cons s post)
  have "write_truncate (length pre) t (pre @ s # post)
        = (if slice_size s > t then pre @ s\<lparr>slice_from := slice_from s + t\<rparr> # post
           else write_truncate (length (pre @ [s\<lparr>slice_from := 100000, slice_to := 0\<rparr>]))
                  (t - slice_size s) ((pre @ [s\<lparr>slice_from := 100000, slice_to := 0\<rparr>]) @ post))"
    by (subst write_truncate.simps) (simp add: Let_def)
  then show ?case by (simp only: Cons.IH) simp
qed

lemma slice_drop:
  assumes "unat t < length (slice_bytes s)"
  shows "slice_bytes (s\<lparr>slice_from := slice_from s + t\<rparr>) = drop (unat t) (slice_bytes s)"
proof -
  have bound: "unat (slice_from s) + unat t \<le> unat (slice_to s)"
    using assms by (simp add: length_slice_bytes)
  also have "unat (slice_to s) < 2 ^ 64" using unsigned_less [of "slice_to s"] by simp
  finally have "unat (slice_from s + t) = unat (slice_from s) + unat t"
    by (subst unat_add_lem [THEN iffD1]) simp_all
  with bound show ?thesis by (simp add: slice_bytes_def drop_upt del: upt_Suc)
qed

lemma truncate_list_bytes:
  "length (slices_bytes ss) < 2 ^ 64 \<Longrightarrow>
   slices_bytes (truncate_list t ss) = drop (unat t) (slices_bytes ss)"
proof (induction ss arbitrary: t)
  case (Cons s ss)
  then have wf: "length (slice_bytes s) < 2 ^ 64" by simp
  show ?case
  proof (cases "slice_size s > t")
    case True
    then have "unat t < length (slice_bytes s)"
      using wf by (simp add: word_less_nat_alt unat_slice_size)
    with True wf show ?thesis by (simp add: slice_drop)
  next
    case False
    then have le: "length (slice_bytes s) \<le> unat t"
      using wf by (simp add: word_less_nat_alt unat_slice_size)
    have "slice_size s \<le> t" using False by simp
    then have "unat (t - slice_size s) = unat t - length (slice_bytes s)"
      using wf by (simp add: unat_sub unat_slice_size)
    with False le Cons show ?thesis by (simp add: slice_bytes_def)
  qed
qed simp

lemma filter_slices_bytes:
  assumes "length (slices_bytes ss) < 2 ^ 64"
  shows "slices_bytes (filter (\<lambda>s. slice_size s > 0) ss) = slices_bytes ss"
  using assms by (induction ss) (auto simp: slice_size_pos)

lemma filter_wf_slices:
  assumes "length (slices_bytes ss) < 2 ^ 64"
  shows "wf_slices (filter (\<lambda>s. slice_size s > 0) ss)"
  using assms by (induction ss) (auto simp: filter_slices_bytes slice_size_pos slice_bytes_nonempty)

lemma write_middle_bytes:
  assumes wf: "wf_slices ss" and w: "unat w < length (slices_bytes ss)"
    and n: "0 < n" "unat src + unat n \<le> 2 ^ 64" "unat w + unat n < 2 ^ 64"
  shows "\<exists>ss'. write_middle src w n ss = Ok ss' \<and> wf_slices ss'
           \<and> slices_bytes ss' = take (unat w) (slices_bytes ss)
               @ [unat src ..< unat src + unat n] @ drop (unat w + unat n) (slices_bytes ss)"
proof -
  let ?B = "slices_bytes ss"
  let ?new = "\<lparr>slice_from = src, slice_to = src + n - 1\<rparr>"
  obtain ss1 ss2 where loc: "write_locate w 0 0 ss = Ok (ss1 @ ss2, length ss1)"
    and b1: "slices_bytes ss1 = take (unat w) ?B" and b2: "slices_bytes ss2 = drop (unat w) ?B"
    using write_locate_bytes [of "[]" ss w] wf w by auto
  have trunc: "write_truncate (Suc (length ss1)) n (ss1 @ ?new # ss2)
        = (ss1 @ [?new]) @ truncate_list n ss2"
    using write_truncate_append [of "ss1 @ [?new]" n ss2] by simp
  let ?ss3 = "(ss1 @ [?new]) @ truncate_list n ss2"
  have "length ?B < 2 ^ 64" using wf by (simp add: wf_slices_def)
  have len2: "length (slices_bytes ss2) < 2 ^ 64" using \<open>length ?B < 2 ^ 64\<close> by (simp add: b2)
  have mid: "write_middle src w n ss = Ok (filter (\<lambda>s. slice_size s > 0) ?ss3)"
    by (simp add: write_middle_def loc trunc Let_def)
  have bytes: "slices_bytes ?ss3 = take (unat w) ?B @ [unat src ..< unat src + unat n]
          @ drop (unat w + unat n) ?B"
    using len2 b1 b2 by (simp add: truncate_list_bytes slice_bytes_range [OF n(1,2)] add.commute [of "unat n" "unat w"])
  have len: "length (slices_bytes ?ss3) < 2 ^ 64"
    unfolding bytes using w n \<open>length ?B < 2 ^ 64\<close> by (simp add: min_def)
  show ?thesis
    by (rule exI, intro conjI, rule mid, rule filter_wf_slices [OF len])
      (simp only: filter_slices_bytes [OF len] bytes)
qed

subsection \<open>The operations\<close>

lemma content_write_bytes:
  assumes "wf_content c" and "unat w \<le> length (content_bytes c)"
    and "unat src + unat n \<le> 2 ^ 64" and "unat w + unat n < 2 ^ 64"
  shows "\<exists>c'. content_write src w n c = Ok c' \<and> wf_content c'
           \<and> content_bytes c' = take (unat w) (content_bytes c)
               @ [unat src ..< unat src + unat n] @ drop (unat w + unat n) (content_bytes c)"
proof -
  note sz = unat_content_size [OF assms(1)]
  consider (append) "unat w = length (content_bytes c)"
    | (noop) "unat w < length (content_bytes c)" "n = 0"
    | (middle) "unat w < length (content_bytes c)" "0 < n"
    using assms(2) word_gt_0 [of n] by fastforce
  then show ?thesis
  proof cases
    case append
    then have "w = content_size c" using sz by (simp add: word_unat_eq_iff)
    then show ?thesis using append assms
      by (simp add: content_write_def write_back_wf write_back_bytes)
  next
    case noop
    then have "w < content_size c" using sz by (simp add: word_less_nat_alt)
    then have "\<not> w > content_size c" "w \<noteq> content_size c" "max w (content_size c) = content_size c"
      by auto
    moreover have "\<forall>s \<in> set (slices c). slice_size s > 0"
      using assms(1) by (simp add: wf_content_def wf_slices_pos)
    ultimately show ?thesis using noop assms(1) by (simp add: content_write_def)
  next
    case middle
    then have "w < content_size c" using sz by (simp add: word_less_nat_alt)
    then have ne: "\<not> w > content_size c" "w \<noteq> content_size c" by auto
    obtain ss' where ss': "write_middle src w n (slices c) = Ok ss'" "wf_slices ss'"
      "slices_bytes ss' = take (unat w) (content_bytes c)
         @ [unat src ..< unat src + unat n] @ drop (unat w + unat n) (content_bytes c)"
      using write_middle_bytes [of "slices c" w n src] assms middle
      by (auto simp: wf_content_def content_bytes_def)
    let ?c' = "c\<lparr>slices := ss'\<rparr>"
    have wf': "wf_content ?c'" using ss'(2) by (simp add: wf_content_def)
    have b': "content_bytes ?c' = slices_bytes ss'" by (simp add: content_bytes_def)
    have "unat (content_size ?c') = max (unat w + unat n) (length (content_bytes c))"
      unfolding unat_content_size [OF wf'] b' ss'(3) using middle(1) by simp
    moreover have "unat (w + n) = unat w + unat n"
      using assms(4) by (subst unat_add_lem [THEN iffD1]) simp_all
    ultimately have "content_size ?c' = max (w + n) (content_size c)"
      using sz by (auto simp: word_unat_eq_iff max_def word_le_nat_alt)
    moreover have "\<forall>s \<in> set ss'. slice_size s > 0"
      using ss'(2) by (rule wf_slices_pos)
    ultimately show ?thesis using ss' wf' b' middle(2) ne
      by (simp add: content_write_def)
  qed
qed

lemma content_write_bad_offset:
  assumes "wf_content c" and "length (content_bytes c) < unat w"
  shows "content_write src w n c = Err (BadOffset w (content_size c))"
  using assms by (auto simp: content_write_def word_less_nat_alt unat_content_size)

text \<open>Reading\<close>

lemma read_loop_reading:
  assumes "length (slices_bytes ss) + unat r < 2 ^ 64" and "wf_slices ss"
    and "wf_content cont" and "length (content_bytes cont) = unat r" and "unat r \<le> unat n"
  shows "\<exists>cont' r' e. read_loop off n ss cont cur r True = (cont', r', e)
     \<and> wf_content cont' \<and> length (content_bytes cont') = unat r'
     \<and> content_bytes cont' = content_bytes cont @ take (unat n - unat r) (slices_bytes ss)"
  using assms
proof (induction ss arbitrary: cont r)
  case (Cons s ss)
  show ?case
  proof (cases "r \<ge> n")
    case True
    with Cons.prems show ?thesis by (auto simp: word_le_nat_alt)
  next
    case False
    then have rn: "unat r < unat n" by (simp add: word_le_nat_alt)
    let ?l = "length (slice_bytes s)"
    have l: "unat (slice_size s) = ?l" using Cons.prems(1) by (simp add: unat_slice_size)
    have add: "unat (r + slice_size s) = unat r + ?l"
      using Cons.prems(1) l by (subst unat_add_lem [THEN iffD1]) simp_all
    let ?k = "if r + slice_size s > n then n - r else slice_size s"
    have k: "unat ?k = min ?l (unat n - unat r)"
      using rn False
      by (cases "r + slice_size s > n") (auto simp: word_less_nat_alt word_le_nat_alt add l unat_sub)
    have rk: "unat (r + ?k) = unat r + unat ?k"
      using rn k Cons.prems(1) by (subst unat_add_lem [THEN iffD1]) simp_all
    have src: "[unat (slice_from s) ..< unat (slice_from s) + unat ?k] = take (unat n - unat r) (slice_bytes s)"
      "unat (slice_from s) + unat ?k \<le> 2 ^ 64"
      using slice_bytes_take [of "unat ?k" s] take_min_length [of "slice_bytes s" "unat n - unat r"]
      unfolding k by simp_all
    let ?cont = "write_back (slice_from s) ?k cont"
    have "wf_content ?cont"
      by (rule write_back_wf) (use Cons.prems src k in auto)
    moreover have b: "content_bytes ?cont = content_bytes cont @ take (unat n - unat r) (slice_bytes s)"
      using src by (simp add: write_back_bytes)
    moreover have "length (slices_bytes ss) + unat (r + ?k) < 2 ^ 64"
      using Cons.prems(1) rk k by simp
    moreover have "length (content_bytes ?cont) = unat (r + ?k)"
      using b rk k Cons.prems by (simp add: min.commute)
    moreover have "unat (r + ?k) \<le> unat n" using rk k rn by simp
    ultimately obtain cont' r' e where
      "read_loop off n ss ?cont cur (r + ?k) True = (cont', r', e)" "wf_content cont'"
      "length (content_bytes cont') = unat r'"
      "content_bytes cont' = content_bytes ?cont @ take (unat n - unat (r + ?k)) (slices_bytes ss)"
      using Cons.IH [of "r + ?k" ?cont] Cons.prems(2) by auto
    moreover have "unat n - unat (r + ?k) = unat n - unat r - ?l" using rk k by simp
    ultimately show ?thesis using False b by (simp add: Let_def)
  qed
qed auto

lemma read_loop_skipping:
  assumes "length (slices_bytes ss) + unat cur < 2 ^ 64" and "wf_slices ss"
    and "unat cur \<le> unat off"
  shows "\<exists>cont' r' e. read_loop off n ss content_new cur 0 False = (cont', r', e)
     \<and> wf_content cont' \<and> length (content_bytes cont') = unat r'
     \<and> content_bytes cont' = take (unat n) (drop (unat off - unat cur) (slices_bytes ss))"
  using assms
proof (induction ss arbitrary: cur)
  case (Cons s ss)
  let ?l = "length (slice_bytes s)"
  have l: "unat (slice_size s) = ?l" using Cons.prems(1) by (simp add: unat_slice_size)
  have nxt: "unat (cur + slice_size s) = unat cur + ?l"
    using Cons.prems(1) l by (subst unat_add_lem [THEN iffD1]) simp_all
  show ?case
  proof (cases "cur + slice_size s > off")
    case False
    then have le: "unat cur + ?l \<le> unat off" by (simp add: word_less_nat_alt nxt)
    with Cons.IH [of "cur + slice_size s"] Cons.prems nxt
    have "\<exists>cont' r' e. read_loop off n ss content_new (cur + slice_size s) 0 False = (cont', r', e)
       \<and> wf_content cont' \<and> length (content_bytes cont') = unat r'
       \<and> content_bytes cont' = take (unat n) (drop (unat off - (unat cur + ?l)) (slices_bytes ss))"
      by simp
    with False le show ?thesis by (simp add: Let_def)
  next
    case True
    then have lt: "unat off < unat cur + ?l" by (simp add: word_less_nat_alt nxt)
    let ?f = "off - cur"
    have f: "unat ?f = unat off - unat cur"
      using Cons.prems(3) by (simp add: unat_sub word_le_nat_alt)
    have rest: "unat (slice_size s - ?f) = ?l - unat ?f"
      using lt Cons.prems(3) by (subst unat_sub) (simp_all add: word_le_nat_alt l f)
    let ?k = "if slice_size s - ?f > n then n else slice_size s - ?f"
    have k: "unat ?k = min (?l - unat ?f) (unat n)"
      by (simp add: word_less_nat_alt rest min_def)
    let ?s = "s\<lparr>slice_from := slice_from s + ?f\<rparr>"
    have s: "slice_bytes ?s = drop (unat ?f) (slice_bytes s)"
      by (rule slice_drop) (use lt f Cons.prems(3) in simp)
    have src: "[unat (slice_from s + ?f) ..< unat (slice_from s + ?f) + unat ?k]
          = take (unat n) (drop (unat ?f) (slice_bytes s))"
      "unat (slice_from s + ?f) + unat ?k \<le> 2 ^ 64"
      using slice_bytes_take [of "unat ?k" ?s] take_min_length [of "drop (unat ?f) (slice_bytes s)" "unat n"]
      unfolding k s by simp_all
    let ?cont = "write_back (slice_from s + ?f) ?k content_new"
    have b: "content_bytes ?cont = take (unat n) (drop (unat ?f) (slice_bytes s))"
      using src by (simp add: write_back_bytes)
    have wf: "wf_content ?cont"
      by (rule write_back_wf) (use src k Cons.prems(1) in auto)
    have "\<exists>cont' r' e. read_loop off n ss ?cont cur ?k True = (cont', r', e)
       \<and> wf_content cont' \<and> length (content_bytes cont') = unat r'
       \<and> content_bytes cont' = content_bytes ?cont @ take (unat n - unat ?k) (slices_bytes ss)"
      by (rule read_loop_reading) (use Cons.prems(1,2) wf b k in auto)
    moreover have "unat n - unat ?k = unat n - (?l - unat ?f)" by (simp add: k)
    moreover have "unat ?f \<le> ?l" using lt f by simp
    ultimately show ?thesis using True b f by (simp add: Let_def)
  qed
qed auto

lemma content_read_bytes:
  assumes "wf_content c" and "unat off \<le> length (content_bytes c)"
  shows "\<exists>c'. content_read off n c = Ok c' \<and> wf_content c'
           \<and> content_bytes c' = take (unat n) (drop (unat off) (content_bytes c))"
proof -
  have "\<not> off > content_size c"
    using assms by (simp add: word_less_nat_alt unat_content_size)
  moreover obtain c' r e where loop: "read_loop off n (slices c) content_new 0 0 False = (c', r, e)"
    and c': "wf_content c'" "length (content_bytes c') = unat r"
    "content_bytes c' = take (unat n) (drop (unat off) (content_bytes c))"
    using read_loop_skipping [of "slices c" 0 off n] assms
    by (auto simp: wf_content_def content_bytes_def wf_slices_def)
  moreover have "content_size c' = r"
    using c' by (simp add: word_unat_eq_iff unat_content_size)
  ultimately show ?thesis by (auto simp: content_read_def)
qed

lemma content_read_bad_offset:
  assumes "wf_content c" and "length (content_bytes c) < unat off"
  shows "content_read off n c = Err (BadOffset off (content_size c))"
  using assms by (simp add: content_read_def word_less_nat_alt unat_content_size)

end
