(* ===== verification/FS_Invariant.thy ===== *)
theory FS_Invariant
  imports Resolve_Correct Content_Correct
begin

text \<open>
  The invariant of the abstract file system and its preservation.

  \<^item> \<open>wf_fs\<close>: every index stored in a node or a descriptor is in range, the children of a directory
    have distinct names, contents are well-formed, an open file and its descriptor name each other,
    no offset is past the end of its file, and no file is longer than what the recording wrote.
  \<^item> \<open>wf_op\<close> and \<open>fits\<close>: the operations for which the invariant is kept, those with canonical paths
    and with writes that stay below the range of \<open>u64\<close>.
  \<^item> Every operation keeps \<open>wf_fs\<close>, and none panics from a state that satisfies it.
\<close>

subsection \<open>The invariant\<close>

definition node_in :: "abstract_fs \<Rightarrow> node \<Rightarrow> bool" where
  "node_in fs x =
     (case x of
        NodeFile i \<Rightarrow> file_ix i < length (files fs)
      | NodeDir i \<Rightarrow> dir_ix i < length (dirs fs)
      | NodeSymlink i \<Rightarrow> symlink_ix i < length (symlinks fs))"

definition wf_dir :: "abstract_fs \<Rightarrow> dir_node \<Rightarrow> bool" where
  "wf_dir fs d \<longleftrightarrow> keys_distinct (children d) \<and> (\<forall>n x. child d n = Some x \<longrightarrow> node_in fs x)"

definition file_bytes :: "abstract_fs \<Rightarrow> file_index \<Rightarrow> nat list" where
  "file_bytes fs i = content_bytes (cont (files fs ! file_ix i))"

definition wf_descriptor :: "abstract_fs \<Rightarrow> file_descriptor \<Rightarrow> bool" where
  "wf_descriptor fs d \<longleftrightarrow>
     file_ix (fd_file d) < length (files fs)
     \<and> unat (offset d) \<le> length (file_bytes fs (fd_file d))"

fun op_written :: "operation \<Rightarrow> nat" where
  "op_written (OpWrite _ _ n) = unat n"
| "op_written _ = 0"

definition written :: "operation list \<Rightarrow> nat" where
  "written os = sum_list (map op_written os)"

definition wf_file :: "abstract_fs \<Rightarrow> nat \<Rightarrow> bool" where
  "wf_file fs i \<longleftrightarrow>
     wf_content (cont (files fs ! i))
     \<and> length (content_bytes (cont (files fs ! i))) \<le> written (ops (recording fs))
     \<and> (\<forall>des. descriptor (files fs ! i) = Some des \<longrightarrow>
          fd_ix des < length (descriptors fs)
          \<and> fd_file (descriptors fs ! fd_ix des) = FileIndex i)"

definition wf_fs :: "abstract_fs \<Rightarrow> bool" where
  "wf_fs fs \<longleftrightarrow>
     dirs fs \<noteq> []
     \<and> (\<forall>d \<in> set (dirs fs). wf_dir fs d)
     \<and> (\<forall>i < length (files fs). wf_file fs i)
     \<and> (\<forall>d \<in> set (descriptors fs). wf_descriptor fs d)"

text \<open>The operations the invariant is about.\<close>

fun wf_op :: "operation \<Rightarrow> bool" where
  "wf_op (OpMkDir p _) = (canonical p \<and> \<not> is_root p)"
| "wf_op (OpCreate p _) = (canonical p \<and> \<not> is_root p)"
| "wf_op (OpRemove p) = canonical p"
| "wf_op (OpHardlink p q) = (canonical p \<and> canonical q \<and> \<not> is_root q)"
| "wf_op (OpRename p q) = (canonical p \<and> canonical q \<and> \<not> is_root q)"
| "wf_op (OpOpen p _) = canonical p"
| "wf_op (OpSymlink _ p) = (canonical p \<and> \<not> is_root p)"
| "wf_op (OpWrite _ src n) = (unat src + unat n \<le> 2 ^ 64)"
| "wf_op _ = True"

definition fits :: "operation \<Rightarrow> abstract_fs \<Rightarrow> bool" where
  "fits op fs \<longleftrightarrow> written (ops (recording fs)) + op_written op < 2 ^ 64"

lemma written_simps [simp]:
  "written [] = 0"
  "written (os @ [op]) = written os + op_written op"
  by (simp_all add: written_def)

lemma record_op_simps [simp]:
  "dirs (record_op op fs) = dirs fs"
  "files (record_op op fs) = files fs"
  "symlinks (record_op op fs) = symlinks fs"
  "descriptors (record_op op fs) = descriptors fs"
  "ops (recording (record_op op fs)) = ops (recording fs) @ [op]"
  by (simp_all add: record_op_def)

lemma setter_simps [simp]:
  "dirs (set_dir i d fs) = (dirs fs)[dir_ix i := d]"
  "files (set_dir i d fs) = files fs"
  "symlinks (set_dir i d fs) = symlinks fs"
  "descriptors (set_dir i d fs) = descriptors fs"
  "recording (set_dir i d fs) = recording fs"
  "dirs (set_file j f fs) = dirs fs"
  "files (set_file j f fs) = (files fs)[file_ix j := f]"
  "symlinks (set_file j f fs) = symlinks fs"
  "descriptors (set_file j f fs) = descriptors fs"
  "recording (set_file j f fs) = recording fs"
  "dirs (set_descriptor k x fs) = dirs fs"
  "files (set_descriptor k x fs) = files fs"
  "symlinks (set_descriptor k x fs) = symlinks fs"
  "descriptors (set_descriptor k x fs) = (descriptors fs)[fd_ix k := x]"
  "recording (set_descriptor k x fs) = recording fs"
  by (simp_all add: set_dir_def set_file_def set_descriptor_def)

lemma wf_fs_dir: "wf_fs fs \<Longrightarrow> dir_ix i < length (dirs fs) \<Longrightarrow> wf_dir fs (dirs fs ! dir_ix i)"
  by (simp add: wf_fs_def)

lemma wf_fs_file: "wf_fs fs \<Longrightarrow> file_ix i < length (files fs) \<Longrightarrow> wf_file fs (file_ix i)"
  by (simp add: wf_fs_def)

lemma wf_fs_descriptor:
  "wf_fs fs \<Longrightarrow> fd_ix i < length (descriptors fs) \<Longrightarrow> wf_descriptor fs (descriptors fs ! fd_ix i)"
  by (simp add: wf_fs_def)

lemma wf_dir_child: "wf_dir fs d \<Longrightarrow> child d n = Some x \<Longrightarrow> node_in fs x"
  by (auto simp: wf_dir_def)

lemma child_insert [simp]: "child (insert_child n x d) m = (if m = n then Some x else child d m)"
  by (simp add: child_def insert_child_def)

lemma child_remove [simp]:
  "child (remove_child n d) m = (if m = n then None else child d m)"
  by (simp add: child_def remove_child_def)

lemma child_empty [simp]: "child \<lparr>children = []\<rparr> n = None"
  by (simp add: child_def)

lemma keys_distinct_children [simp]:
  "keys_distinct (children d) \<Longrightarrow> keys_distinct (children (insert_child n x d))"
  "keys_distinct (children d) \<Longrightarrow> keys_distinct (children (remove_child n d))"
  by (simp_all add: insert_child_def remove_child_def)

lemma wf_fs_new [simp]: "wf_fs fs_new"
  by (simp add: wf_fs_def fs_new_def wf_dir_def child_def)

lemma wf_dir_insert: "wf_dir fs d \<Longrightarrow> node_in fs x \<Longrightarrow> wf_dir fs (insert_child n x d)"
  by (simp add: wf_dir_def)

lemma wf_dir_remove: "wf_dir fs d \<Longrightarrow> wf_dir fs (remove_child n d)"
  by (simp add: wf_dir_def)

text \<open>A state with no fewer nodes keeps what points into the old one.\<close>

definition grows :: "abstract_fs \<Rightarrow> abstract_fs \<Rightarrow> bool" where
  "grows fs fs' \<longleftrightarrow>
     length (dirs fs) \<le> length (dirs fs')
     \<and> length (files fs) \<le> length (files fs')
     \<and> length (symlinks fs) \<le> length (symlinks fs')"

lemma node_in_grows: "node_in fs x \<Longrightarrow> grows fs fs' \<Longrightarrow> node_in fs' x"
  by (auto simp: node_in_def grows_def split: node.splits)

lemma wf_dir_grows: "wf_dir fs d \<Longrightarrow> grows fs fs' \<Longrightarrow> wf_dir fs' d"
  by (auto simp: wf_dir_def intro: node_in_grows)

lemma wf_dirs_grow: "wf_fs fs \<Longrightarrow> d \<in> set (dirs fs) \<Longrightarrow> grows fs fs' \<Longrightarrow> wf_dir fs' d"
  by (auto simp: wf_fs_def intro: wf_dir_grows)

lemma wf_fs_root: "wf_fs fs \<Longrightarrow> dir_ix root_index < length (dirs fs)"
  by (simp add: wf_fs_def root_index_def)

subsection \<open>Building blocks of the operations\<close>

text \<open>A state that differs from a well-formed one in its directories and symlinks only.\<close>

lemma wf_fs_dirs:
  assumes "wf_fs fs" and "grows fs fs'"
    and "files fs' = files fs" and "descriptors fs' = descriptors fs"
    and "written (ops (recording fs)) \<le> written (ops (recording fs'))"
    and "\<And>d. d \<in> set (dirs fs') \<Longrightarrow> d \<in> set (dirs fs) \<or> wf_dir fs' d"
  shows "wf_fs fs'"
proof -
  have "dirs fs' \<noteq> []" using assms(1,2) by (auto simp: wf_fs_def grows_def)
  moreover have "\<forall>d \<in> set (dirs fs'). wf_dir fs' d"
    using assms(1,2,6) by (auto simp: wf_fs_def intro: wf_dir_grows)
  moreover have "\<forall>i < length (files fs'). wf_file fs' i"
    using assms(1,3,4,5) by (auto simp: wf_fs_def wf_file_def)
  moreover have "\<forall>d \<in> set (descriptors fs'). wf_descriptor fs' d"
    using assms(1,3,4) by (simp add: wf_fs_def wf_descriptor_def file_bytes_def)
  ultimately show ?thesis by (simp add: wf_fs_def)
qed

lemma wf_set_dir: "wf_fs fs \<Longrightarrow> wf_dir fs d \<Longrightarrow> wf_fs (set_dir i d fs)"
  by (rule wf_fs_dirs [of fs])
    (auto simp: grows_def dest!: set_mp [OF set_update_subset_insert] intro: wf_dir_grows)

lemma wf_record_op: "wf_fs fs \<Longrightarrow> wf_fs (record_op op fs)"
  by (rule wf_fs_dirs [of fs]) (auto simp: grows_def)

lemma wf_push_dir: "wf_fs fs \<Longrightarrow> wf_fs (fs\<lparr>dirs := dirs fs @ [\<lparr>children = []\<rparr>]\<rparr>)"
  by (rule wf_fs_dirs [of fs]) (auto simp: grows_def wf_dir_def)

lemma wf_push_symlink: "wf_fs fs \<Longrightarrow> wf_fs (fs\<lparr>symlinks := symlinks fs @ [s]\<rparr>)"
  by (rule wf_fs_dirs [of fs]) (auto simp: grows_def)

lemma wf_push_file:
  assumes "wf_fs fs"
  shows "wf_fs (fs\<lparr>files := files fs @ [\<lparr>descriptor = None, cont = content_new\<rparr>]\<rparr>)" (is "wf_fs ?fs")
proof -
  have "wf_dir ?fs d" if "d \<in> set (dirs fs)" for d
    using assms that by (auto simp: wf_fs_def grows_def intro: wf_dir_grows)
  moreover have "wf_file ?fs i" if "i < Suc (length (files fs))" for i
    using assms that by (auto simp: wf_fs_def wf_file_def nth_append less_Suc_eq)
  moreover have "wf_descriptor ?fs d" if "d \<in> set (descriptors fs)" for d
    using assms that by (auto simp: wf_fs_def wf_descriptor_def file_bytes_def nth_append)
  ultimately show ?thesis using assms by (simp add: wf_fs_def)
qed

text \<open>What resolution returns points into the state, and it does not panic.\<close>

definition no_panic :: "('e, 'a) res \<Rightarrow> bool" where
  "no_panic r \<longleftrightarrow> r \<noteq> Crash Panicked"

lemma no_panic_simps [simp]:
  "no_panic (Ok a)" "no_panic (Err e)" "no_panic (Crash StackOverflow)" "\<not> no_panic (Crash Panicked)"
  by (simp_all add: no_panic_def)

lemma no_panic_and_then:
  "no_panic r \<Longrightarrow> (\<And>a. r = Ok a \<Longrightarrow> no_panic (f a)) \<Longrightarrow> no_panic (and_then r f)"
  by (cases r) (auto simp: no_panic_def)

lemma no_panic_ok_or [simp]: "no_panic (ok_or e x)"
  by (cases x) auto

lemma no_panic_unwrap [simp]: "no_panic (unwrap x) \<longleftrightarrow> x \<noteq> None"
  by (cases x) auto

lemma get_dir_Ok [simp]: "get_dir fs i = Ok d \<longleftrightarrow> dir_ix i < length (dirs fs) \<and> dirs fs ! dir_ix i = d"
  by (simp add: get_dir_def)

lemma get_sym_Ok [simp]:
  "get_sym fs i = Ok s \<longleftrightarrow> symlink_ix i < length (symlinks fs) \<and> symlinks fs ! symlink_ix i = s"
  by (simp add: get_sym_def)

lemma get_file_Ok [simp]:
  "get_file fs i = Ok f \<longleftrightarrow> file_ix i < length (files fs) \<and> files fs ! file_ix i = f"
  by (simp add: get_file_def)

lemma get_descriptor_Ok [simp]:
  "get_descriptor fs i = Ok d \<longleftrightarrow> fd_ix i < length (descriptors fs) \<and> descriptors fs ! fd_ix i = d"
  by (simp add: get_descriptor_def)

lemma get_in [simp]:
  "dir_ix i < length (dirs fs) \<Longrightarrow> get_dir fs i = Ok (dirs fs ! dir_ix i)"
  "symlink_ix k < length (symlinks fs) \<Longrightarrow> get_sym fs k = Ok (symlinks fs ! symlink_ix k)"
  "file_ix j < length (files fs) \<Longrightarrow> get_file fs j = Ok (files fs ! file_ix j)"
  "fd_ix l < length (descriptors fs) \<Longrightarrow> get_descriptor fs l = Ok (descriptors fs ! fd_ix l)"
  by simp_all

lemma node_in_simps [simp]:
  "node_in fs (NodeFile i) \<longleftrightarrow> file_ix i < length (files fs)"
  "node_in fs (NodeDir j) \<longleftrightarrow> dir_ix j < length (dirs fs)"
  "node_in fs (NodeSymlink k) \<longleftrightarrow> symlink_ix k < length (symlinks fs)"
  by (simp_all add: node_in_def)

definition dir_in :: "abstract_fs \<Rightarrow> dir_index \<Rightarrow> bool" where
  "dir_in fs i \<longleftrightarrow> dir_ix i < length (dirs fs)"

text \<open>A resolution outcome is sound: no panic, and an index in range when it succeeds.\<close>

definition sound :: "('a \<Rightarrow> bool) \<Rightarrow> ('e, 'a) res \<Rightarrow> bool" where
  "sound P r \<longleftrightarrow> (case r of Ok a \<Rightarrow> P a | Err _ \<Rightarrow> True | Crash c \<Rightarrow> c \<noteq> Panicked)"

lemma sound_simps [simp]:
  "sound P (Ok a) \<longleftrightarrow> P a" "sound P (Err e)" "sound P (Crash c) \<longleftrightarrow> c \<noteq> Panicked"
  by (simp_all add: sound_def)

lemma sound_and_then: "sound P r \<Longrightarrow> (\<And>a. r = Ok a \<Longrightarrow> P a \<Longrightarrow> sound Q (f a)) \<Longrightarrow> sound Q (and_then r f)"
  by (cases r) auto

lemma sound_D: "sound P r \<Longrightarrow> r = Ok a \<Longrightarrow> P a"
  by simp

lemma walk_sound:
  assumes "wf_fs fs" and "\<And>t. sound (\<lambda>(ds, i). dir_in fs i) (rd t)" and "node_in fs n"
  shows "sound (\<lambda>(ds, n, p). node_in fs n) (walk rd fs segs ds n p)"
  using assms(3)
proof (induction segs arbitrary: ds n p)
  case (Cons seg segs)
  have "sound (\<lambda>(ds, i). dir_in fs i)
          (case n of
              NodeDir idx \<Rightarrow> Ok (ds @ [idx], idx)
            | NodeSymlink idx \<Rightarrow>
                and_then (get_sym fs idx) (\<lambda>s.
                and_then (rd (target s)) (\<lambda>(rec_dirs, i). Ok (ds @ rec_dirs @ [i], i)))
            | NodeFile _ \<Rightarrow> Err (NotADir (p @ ''/'' @ seg)))"
  proof (cases n)
    case (NodeSymlink k)
    then have "symlink_ix k < length (symlinks fs)" using Cons.prems by simp
    then show ?thesis using NodeSymlink assms(2) [of "target (symlinks fs ! symlink_ix k)"]
      by (auto intro!: sound_and_then [of "\<lambda>(ds, i). dir_in fs i"])
  qed (use Cons.prems in \<open>auto simp: dir_in_def\<close>)
  then show ?case unfolding walk.simps Let_def
  proof (rule sound_and_then, clarify)
    fix ds' i
    assume "dir_in fs i"
    then have d: "get_dir fs i = Ok (dirs fs ! dir_ix i)" "wf_dir fs (dirs fs ! dir_ix i)"
      using assms(1) by (auto simp: dir_in_def wf_fs_dir)
    show "sound (\<lambda>(ds, n, p). node_in fs n)
            (and_then (get_dir fs i) (\<lambda>d. and_then (ok_or (NotFound (p @ ''/'' @ seg)) (child d seg))
              (\<lambda>next. walk rd fs segs ds' next (p @ ''/'' @ seg))))"
      unfolding d(1) using d(2) Cons.IH
      by (cases "child (dirs fs ! dir_ix i) seg") (auto dest: wf_dir_child)
  qed
qed simp

lemma node_to_dir_sound: "sound (\<lambda>(ds, n). node_in fs n) r \<Longrightarrow> sound (\<lambda>(ds, i). dir_in fs i) (node_to_dir p r)"
  by (cases r) (auto simp: node_to_dir_def dir_in_def split: node.splits)

lemma node_to_file_sound:
  "sound (\<lambda>(ds, n). node_in fs n) r \<Longrightarrow> sound (\<lambda>(ds, i). file_ix i < length (files fs)) (node_to_file p r)"
  by (cases r) (auto simp: node_to_file_def split: node.splits)

lemma resolve_node_rec_sound:
  assumes "wf_fs fs"
  shows "sound (\<lambda>(ds, n). node_in fs n) (resolve_node_rec k fs p follow v)"
proof (induction k arbitrary: p follow v)
  case (Suc k)
  have "sound (\<lambda>(ds, n, p). node_in fs n)
     (walk (\<lambda>t. node_to_dir t (resolve_node_rec k fs t True [])) fs (segments p) [] (NodeDir root_index) [])"
    using assms Suc.IH by (intro walk_sound node_to_dir_sound) (simp_all add: wf_fs_root)
  then show ?case
    unfolding resolve_node_rec.simps
    by (auto intro!: sound_and_then [of "\<lambda>(ds, n, p). node_in fs n"]
        sound_and_then [OF Suc.IH] split: node.split)
qed simp

lemma resolve_node_sound: "wf_fs fs \<Longrightarrow> sound (\<lambda>(ds, n). node_in fs n) (resolve_node fs p follow)"
  by (simp add: resolve_node_def resolve_node_rec_sound)

lemma resolve_dir_sound: "wf_fs fs \<Longrightarrow> sound (\<lambda>(ds, i). dir_in fs i) (resolve_dir fs p)"
  by (simp add: resolve_dir_def node_to_dir_sound resolve_node_sound)

lemma resolve_file_sound: "wf_fs fs \<Longrightarrow> sound (\<lambda>(ds, i). file_ix i < length (files fs)) (resolve_file fs p)"
  by (simp add: resolve_file_def node_to_file_sound resolve_node_sound)

text \<open>The directory, entry and name that \<open>parent_entry\<close> finds.\<close>

definition entry_in :: "abstract_fs \<Rightarrow> dir_index list \<times> dir_index \<times> dir_node \<times> name \<Rightarrow> bool" where
  "entry_in fs e \<longleftrightarrow>
     (case e of (_, i, d, _) \<Rightarrow> dir_in fs i \<and> d = dirs fs ! dir_ix i \<and> wf_dir fs d)"

lemma path_split_sound: "slash \<in> set p \<Longrightarrow> sound (\<lambda>_. True) (path_split p)"
  by (cases "str_rfind slash p") (auto simp: path_split_def Let_def)

lemma parent_entry_sound:
  assumes "wf_fs fs" and "slash \<in> set p"
  shows "sound (entry_in fs) (parent_entry fs p)"
  unfolding parent_entry_def using assms
  by (auto intro!: sound_and_then [OF path_split_sound] sound_and_then [OF resolve_dir_sound]
      simp: entry_in_def dir_in_def wf_fs_dir)

lemma canonical_slash: "canonical p \<Longrightarrow> slash \<in> set p"
  by (cases p) (auto dest!: canonical_valid simp: is_valid_def starts_with_def)

subsection \<open>Every operation keeps the invariant and does not panic\<close>

text \<open>The outcome of an operation: a result that is not a panic, in a well-formed state.\<close>

definition good :: "('e, 'a) res \<times> abstract_fs \<Rightarrow> bool" where
  "good o' \<longleftrightarrow> no_panic (fst o') \<and> wf_fs (snd o')"

lemma good_pair [simp]: "good (r, s) \<longleftrightarrow> no_panic r \<and> wf_fs s"
  by (simp add: good_def)

lemma good_or_return:
  "\<lbrakk>sound P r; wf_fs s; \<And>a. r = Ok a \<Longrightarrow> P a \<Longrightarrow> good (k a)\<rbrakk> \<Longrightarrow> good (or_return r s k)"
  by (cases r) (auto simp: no_panic_def)

lemmas wf_building_blocks =
  wf_set_dir wf_record_op wf_push_dir wf_push_symlink wf_push_file wf_dir_insert wf_dir_remove

lemma wf_dir_push [intro]:
  assumes "wf_dir fs d"
  shows "wf_dir (fs\<lparr>dirs := dirs fs @ ds\<rparr>) d"
    and "wf_dir (fs\<lparr>files := files fs @ fl\<rparr>) d"
    and "wf_dir (fs\<lparr>symlinks := symlinks fs @ sl\<rparr>) d"
  using assms by (auto elim: wf_dir_grows simp: grows_def)

lemma entry_inE:
  assumes "entry_in fs (ds, i, d, n)"
  obtains "dir_in fs i" "d = dirs fs ! dir_ix i" "wf_dir fs d"
  using assms by (auto simp: entry_in_def)

lemma remove_good: "wf_fs fs \<Longrightarrow> slash \<in> set p \<Longrightarrow> good (remove p fs)"
  by (auto simp: remove_def intro!: good_or_return [OF parent_entry_sound] wf_building_blocks
      elim!: entry_inE)

lemma mkdir_good: "wf_fs fs \<Longrightarrow> slash \<in> set p \<Longrightarrow> good (mkdir p m fs)"
  by (auto simp: mkdir_def Let_def intro!: good_or_return [OF parent_entry_sound] wf_building_blocks
      elim!: entry_inE)

lemma create_good: "wf_fs fs \<Longrightarrow> slash \<in> set p \<Longrightarrow> good (create p m fs)"
  by (auto simp: create_def Let_def intro!: good_or_return [OF parent_entry_sound] wf_building_blocks
      elim!: entry_inE)

lemma make_symlink_good: "wf_fs fs \<Longrightarrow> slash \<in> set p \<Longrightarrow> good (make_symlink t p fs)"
  by (auto simp: make_symlink_def Let_def intro!: good_or_return [OF parent_entry_sound]
      wf_building_blocks elim!: entry_inE)

lemma hardlink_good:
  assumes "wf_fs fs" and "slash \<in> set p" and "slash \<in> set q"
  shows "good (hardlink p q fs)"
proof -
  have link: "good (or_return (resolve_file fs p) fs (\<lambda>(_, old_file).
      or_return (parent_entry fs q) fs (\<lambda>(_, parent, d, name).
        if child d name \<noteq> None then (Err (NameAlreadyExists q), fs)
        else (Ok old_file, record_op (OpHardlink p q)
               (set_dir parent (insert_child name (NodeFile old_file) d) fs)))))"
    using assms
    by (auto intro!: good_or_return [OF resolve_file_sound] good_or_return [OF parent_entry_sound]
        wf_building_blocks elim!: entry_inE)
  have "good (case child d n of
         Some (NodeSymlink _) \<Rightarrow> (Err (HardlinkToSymlinkForbidden p), fs)
       | _ \<Rightarrow> or_return (resolve_file fs p) fs (\<lambda>(_, old_file).
      or_return (parent_entry fs q) fs (\<lambda>(_, parent, d, name).
        if child d name \<noteq> None then (Err (NameAlreadyExists q), fs)
        else (Ok old_file, record_op (OpHardlink p q)
               (set_dir parent (insert_child name (NodeFile old_file) d) fs)))))" for d n
    using link assms(1) by (simp split: option.split node.split)
  then show ?thesis unfolding hardlink_def using assms
    by (intro good_or_return [OF parent_entry_sound]) auto
qed

lemma nonempty_dir_at_sound: "wf_fs fs \<Longrightarrow> sound (\<lambda>_. True) (nonempty_dir_at fs p)"
  using resolve_dir_sound [of fs p]
  by (auto simp: nonempty_dir_at_def dir_in_def split: res.split)

lemma rename_good:
  assumes "wf_fs fs" and "slash \<in> set p" and "slash \<in> set q"
  shows "good (rename p q fs)"
  unfolding rename_def Let_def using assms
  by (auto intro!: good_or_return [OF nonempty_dir_at_sound] good_or_return [OF resolve_node_sound]
      good_or_return [OF parent_entry_sound] wf_building_blocks elim!: entry_inE)

text \<open>The descriptor operations.\<close>

lemma open_file_good:
  assumes "wf_fs fs"
  shows "good (open_file p fs)"
proof -
  have opened: "wf_fs (record_op op (set_file i (f\<lparr>descriptor := Some (FileDescriptorIndex (length (descriptors fs)))\<rparr>) fs
                 \<lparr>descriptors := descriptors fs @ [\<lparr>fd_file = i, offset = 0\<rparr>]\<rparr>))" (is "wf_fs (record_op op ?fs)")
    if i: "file_ix i < length (files fs)" and f: "f = files fs ! file_ix i" for i f op
  proof -
    have "wf_file ?fs j" if "j < length (files fs)" for j
      using assms that i f by (auto simp: wf_fs_def wf_file_def nth_list_update nth_append)
    moreover have "wf_descriptor ?fs d" if "d \<in> set (descriptors fs)" for d
      using assms that i f
      by (auto simp: wf_fs_def wf_descriptor_def file_bytes_def nth_list_update)
    moreover have "wf_dir ?fs d" if "d \<in> set (dirs fs)" for d
      by (rule wf_dirs_grow [OF assms(1) that]) (simp add: grows_def)
    ultimately show ?thesis using assms i
      by (intro wf_record_op) (auto simp: wf_fs_def wf_descriptor_def)
  qed
  then show ?thesis unfolding open_file_def Let_def using assms
    by (auto intro!: good_or_return [OF resolve_file_sound])
qed

definition opened_as :: "abstract_fs \<Rightarrow> fd_index \<Rightarrow> file_descriptor \<times> file_node \<Rightarrow> bool" where
  "opened_as fs i e \<longleftrightarrow>
     (case e of (des, f) \<Rightarrow>
        fd_ix i < length (descriptors fs) \<and> des = descriptors fs ! fd_ix i
        \<and> file_ix (fd_file des) < length (files fs) \<and> f = files fs ! file_ix (fd_file des)
        \<and> descriptor f = Some i)"

lemma open_descriptor_Ok:
  "open_descriptor fs i = Ok e \<longleftrightarrow> opened_as fs i e"
  by (cases e) (auto simp: open_descriptor_def opened_as_def)

lemma open_descriptor_sound: "wf_fs fs \<Longrightarrow> sound (opened_as fs i) (open_descriptor fs i)"
  using wf_fs_descriptor [of fs i]
  by (cases "fd_ix i < length (descriptors fs)")
    (auto simp: open_descriptor_def opened_as_def wf_descriptor_def get_descriptor_def ok_or.simps vec_get_def)

text \<open>Changing a file without changing its content, and moving an offset inside the file.\<close>

lemma opened_asD:
  assumes "opened_as fs i (des, f)"
  shows "open_descriptor fs i = Ok (des, f)" and "get_descriptor fs i = Ok des"
    and "get_file fs (fd_file des) = Ok f" and "get_descriptor (set_file j x fs) i = Ok des"
  using assms by (auto simp: open_descriptor_Ok opened_as_def)

lemma wf_set_file_closed:
  assumes "wf_fs fs" and "file_ix i < length (files fs)" and "f = files fs ! file_ix i"
  shows "wf_fs (set_file i (f\<lparr>descriptor := None\<rparr>) fs)" (is "wf_fs ?fs")
proof -
  have "wf_file ?fs j" if "j < length (files fs)" for j
    using assms that by (auto simp: wf_fs_def wf_file_def nth_list_update)
  moreover have "wf_descriptor ?fs d" if "d \<in> set (descriptors fs)" for d
    using assms that by (auto simp: wf_fs_def wf_descriptor_def file_bytes_def nth_list_update)
  moreover have "wf_dir ?fs d" if "d \<in> set (dirs fs)" for d
    by (rule wf_dirs_grow [OF assms(1) that]) (simp add: grows_def)
  ultimately show ?thesis using assms by (simp add: wf_fs_def)
qed

lemma wf_set_descriptor:
  assumes "wf_fs fs" and "fd_ix i < length (descriptors fs)"
    and "fd_file d = fd_file (descriptors fs ! fd_ix i)"
    and "unat (offset d) \<le> length (file_bytes fs (fd_file d))"
  shows "wf_fs (set_descriptor i d fs)" (is "wf_fs ?fs")
proof -
  have "wf_file ?fs j" if "j < length (files fs)" for j
    using assms that by (auto simp: wf_fs_def wf_file_def nth_list_update)
  moreover have "wf_descriptor ?fs x" if "x \<in> set ((descriptors fs)[fd_ix i := d])" for x
    using assms that wf_fs_descriptor [OF assms(1,2)]
    by (auto simp: wf_fs_def wf_descriptor_def file_bytes_def dest!: set_mp [OF set_update_subset_insert])
  moreover have "wf_dir ?fs x" if "x \<in> set (dirs fs)" for x
    by (rule wf_dirs_grow [OF assms(1) that]) (simp add: grows_def)
  ultimately show ?thesis using assms by (simp add: wf_fs_def)
qed

lemma close_fd_good: "wf_fs fs \<Longrightarrow> good (close_fd i fs)"
  unfolding close_fd_def
  by (auto intro!: good_or_return [OF open_descriptor_sound] wf_record_op wf_set_file_closed
      simp: opened_as_def)

lemma fsync_fd_good: "wf_fs fs \<Longrightarrow> good (fsync_fd i fs)"
  unfolding fsync_fd_def by (auto intro!: good_or_return [OF open_descriptor_sound] wf_record_op)

text \<open>
  The outcome of a read through an open descriptor: the bytes from the offset on, at most the
  requested size, and an offset moved past them.
\<close>

lemma offset_in_file:
  assumes "wf_fs fs" and "opened_as fs i (des, f)"
  shows "wf_content (cont f)" and "unat (offset des) \<le> length (content_bytes (cont f))"
    and "length (content_bytes (cont f)) \<le> written (ops (recording fs))"
    and "length (content_bytes (cont f)) < 2 ^ 64"
    and "file_bytes fs (fd_file des) = content_bytes (cont f)"
proof -
  have f: "wf_file fs (file_ix (fd_file des))" "f = files fs ! file_ix (fd_file des)"
    using assms by (auto simp: opened_as_def wf_fs_file)
  moreover have "wf_descriptor fs des" using assms wf_fs_descriptor by (auto simp: opened_as_def)
  ultimately show "wf_content (cont f)" "unat (offset des) \<le> length (content_bytes (cont f))"
    "length (content_bytes (cont f)) \<le> written (ops (recording fs))"
    "file_bytes fs (fd_file des) = content_bytes (cont f)"
    by (auto simp: wf_file_def wf_descriptor_def file_bytes_def)
  then show "length (content_bytes (cont f)) < 2 ^ 64"
    by (simp add: wf_content_def wf_slices_def content_bytes_def)
qed

lemma unat_plus_fits: "unat a + unat b < 2 ^ 64 \<Longrightarrow> unat (a + b :: u64) = unat a + unat b"
  by (subst unat_add_lem [THEN iffD1]) simp_all

lemma read_fd_open:
  assumes "wf_fs fs" and "opened_as fs i (des, f)"
  obtains c where "read_fd i n fs =
      (Ok c, record_op (OpRead i n) (set_descriptor i (des\<lparr>offset := offset des + content_size c\<rparr>) fs))"
    and "wf_content c"
    and "content_bytes c = take (unat n) (drop (unat (offset des)) (content_bytes (cont f)))"
    and "unat (offset des + content_size c) = unat (offset des) + length (content_bytes c)"
    and "unat (offset des + content_size c) \<le> length (content_bytes (cont f))"
proof -
  note o = offset_in_file [OF assms]
  obtain c where c: "content_read (offset des) n (cont f) = Ok c" "wf_content c"
    "content_bytes c = take (unat n) (drop (unat (offset des)) (content_bytes (cont f)))"
    using content_read_bytes [OF o(1,2)] by blast
  have len: "unat (offset des) + length (content_bytes c) \<le> length (content_bytes (cont f))"
    using o(2) unfolding c(3) by simp
  then have off: "unat (offset des + content_size c) = unat (offset des) + length (content_bytes c)"
    using o(4) c(2) by (subst unat_plus_fits) (simp_all add: unat_content_size)
  then have "offset des + content_size c \<le> content_size (cont f)"
    using len o(1) by (simp add: word_le_nat_alt unat_content_size)
  then have "read_fd i n fs =
      (Ok c, record_op (OpRead i n) (set_descriptor i (des\<lparr>offset := offset des + content_size c\<rparr>) fs))"
    by (simp add: read_fd_def opened_asD [OF assms(2)] c(1) Let_def)
  then show thesis using that [of c] c off len by simp
qed

lemma read_fd_good:
  assumes "wf_fs fs"
  shows "good (read_fd i n fs)"
proof (cases "open_descriptor fs i")
  case (Ok e)
  obtain des f where e: "e = (des, f)" by (cases e)
  with Ok have op: "opened_as fs i (des, f)" by (simp add: open_descriptor_Ok)
  obtain c where c: "read_fd i n fs =
      (Ok c, record_op (OpRead i n) (set_descriptor i (des\<lparr>offset := offset des + content_size c\<rparr>) fs))"
    "unat (offset des + content_size c) \<le> length (content_bytes (cont f))"
    using read_fd_open [OF assms op] by metis
  show ?thesis using assms op c(2) offset_in_file(5) [OF assms op] unfolding c(1)
    by (auto intro!: wf_record_op wf_set_descriptor simp: opened_as_def file_bytes_def)
next
  case (Crash x)
  then show ?thesis using open_descriptor_sound [OF assms, of i] assms
    by (simp add: read_fd_def no_panic_def)
qed (simp add: read_fd_def assms)

text \<open>A write through an open descriptor: an overwrite at the offset, and an offset moved past it.\<close>

lemma write_fd_open:
  assumes "wf_fs fs" and "opened_as fs i (des, f)"
    and "unat src + unat n \<le> 2 ^ 64" and "unat (offset des) + unat n < 2 ^ 64"
  obtains c where "write_fd i src n fs =
      (Ok (), record_op (OpWrite i src n)
         (set_descriptor i (des\<lparr>offset := offset des + n\<rparr>) (set_file (fd_file des) (f\<lparr>cont := c\<rparr>) fs)))"
    and "wf_content c"
    and "content_bytes c = take (unat (offset des)) (content_bytes (cont f))
           @ [unat src ..< unat src + unat n] @ drop (unat (offset des) + unat n) (content_bytes (cont f))"
    and "unat (offset des + n) = unat (offset des) + unat n"
    and "unat (offset des + n) \<le> length (content_bytes c)"
proof -
  note o = offset_in_file [OF assms(1,2)]
  obtain c where c: "content_write src (offset des) n (cont f) = Ok c" "wf_content c"
    "content_bytes c = take (unat (offset des)) (content_bytes (cont f))
           @ [unat src ..< unat src + unat n] @ drop (unat (offset des) + unat n) (content_bytes (cont f))"
    using content_write_bytes [OF o(1,2) assms(3,4)] by blast
  note off = unat_plus_fits [OF assms(4)]
  have len: "unat (offset des) + unat n \<le> length (content_bytes c)" using o(2) unfolding c(3) by simp
  then have "offset des + n \<le> content_size c"
    using off c(2) by (simp add: word_le_nat_alt unat_content_size)
  then have "write_fd i src n fs =
      (Ok (), record_op (OpWrite i src n)
         (set_descriptor i (des\<lparr>offset := offset des + n\<rparr>) (set_file (fd_file des) (f\<lparr>cont := c\<rparr>) fs)))"
    by (simp add: write_fd_def opened_asD [OF assms(2)] c(1) Let_def)
  then show thesis using that [of c] c off len by simp
qed

text \<open>A file whose content grows, within what the recording accounts for.\<close>

lemma wf_set_content:
  assumes "wf_fs fs" and "file_ix i < length (files fs)" and "f = files fs ! file_ix i"
    and "wf_content c" and "length (content_bytes (cont f)) \<le> length (content_bytes c)"
    and "length (content_bytes c) \<le> written (ops (recording fs))"
  shows "wf_fs (set_file i (f\<lparr>cont := c\<rparr>) fs)" (is "wf_fs ?fs")
proof -
  have "wf_file ?fs j" if "j < length (files fs)" for j
    using assms that by (auto simp: wf_fs_def wf_file_def nth_list_update)
  moreover have "wf_descriptor ?fs d" if "d \<in> set (descriptors fs)" for d
  proof -
    have "wf_descriptor fs d" using assms(1) that by (simp add: wf_fs_def)
    then show ?thesis using assms(2,3,5)
      by (auto simp: wf_descriptor_def file_bytes_def nth_list_update)
  qed
  moreover have "wf_dir ?fs d" if "d \<in> set (dirs fs)" for d
    by (rule wf_dirs_grow [OF assms(1) that]) (simp add: grows_def)
  ultimately show ?thesis using assms by (simp add: wf_fs_def)
qed

lemma record_op_commutes:
  "record_op op (set_descriptor i d (set_file j f fs)) = set_descriptor i d (set_file j f (record_op op fs))"
  by (simp add: record_op_def set_descriptor_def set_file_def)

lemma write_fd_good:
  assumes "wf_fs fs" and "unat src + unat n \<le> 2 ^ 64"
    and "written (ops (recording fs)) + unat n < 2 ^ 64"
  shows "good (write_fd i src n fs)"
proof (cases "open_descriptor fs i")
  case (Ok e)
  obtain des f where e: "e = (des, f)" by (cases e)
  with Ok have op: "opened_as fs i (des, f)" by (simp add: open_descriptor_Ok)
  note o = offset_in_file [OF assms(1) op]
  have room: "unat (offset des) + unat n < 2 ^ 64" using o(2,3) assms(3) by linarith
  obtain c where c: "write_fd i src n fs =
      (Ok (), record_op (OpWrite i src n)
         (set_descriptor i (des\<lparr>offset := offset des + n\<rparr>) (set_file (fd_file des) (f\<lparr>cont := c\<rparr>) fs)))"
    "wf_content c" "content_bytes c = take (unat (offset des)) (content_bytes (cont f))
           @ [unat src ..< unat src + unat n] @ drop (unat (offset des) + unat n) (content_bytes (cont f))"
    "unat (offset des + n) \<le> length (content_bytes c)"
    using write_fd_open [OF assms(1) op assms(2) room] by blast
  have grown: "length (content_bytes (cont f)) \<le> length (content_bytes c)"
    "length (content_bytes c) \<le> written (ops (recording fs)) + unat n"
    using o(2,3) unfolding c(3) by simp_all
  let ?fs0 = "record_op (OpWrite i src n) fs"
  let ?fs1 = "set_file (fd_file des) (f\<lparr>cont := c\<rparr>) ?fs0"
  have i: "fd_ix i < length (descriptors fs)" "descriptors fs ! fd_ix i = des"
    "file_ix (fd_file des) < length (files fs)" "files fs ! file_ix (fd_file des) = f"
    using op by (auto simp: opened_as_def)
  have "wf_fs ?fs1" using i grown c(2) assms(1)
    by (intro wf_set_content wf_record_op) simp_all
  then have "wf_fs (set_descriptor i (des\<lparr>offset := offset des + n\<rparr>) ?fs1)"
    using i c(4) by (intro wf_set_descriptor) (simp_all add: file_bytes_def)
  then show ?thesis unfolding c(1) record_op_commutes by simp
next
  case (Crash x)
  then show ?thesis using open_descriptor_sound [OF assms(1), of i] assms(1)
    by (simp add: write_fd_def no_panic_def)
qed (simp add: write_fd_def assms)

lemma good_forget [simp]: "good (forget r) \<longleftrightarrow> good r"
proof -
  obtain a s where r: "r = (a, s)" by (cases r)
  show ?thesis unfolding r by (cases a) (auto simp: no_panic_def)
qed

lemma apply_op_good: "wf_fs fs \<Longrightarrow> wf_op op \<Longrightarrow> fits op fs \<Longrightarrow> good (apply_op op fs)"
  by (cases op)
    (auto simp: fits_def canonical_slash mkdir_good create_good remove_good hardlink_good rename_good
      make_symlink_good open_file_good close_fd_good read_fd_good write_fd_good fsync_fd_good)

end
