(* ===== verification/Rename_Correct.thy ===== *)
theory Rename_Correct
  imports FS_Invariant
begin

text \<open>
  \<open>rename\<close> is atomic. Its code inserts the new entry, then resolves the old path a second time in the
  changed tree and returns early if that fails. For canonical paths the second resolution reaches the
  directory the first one reached: the entry that was replaced is not one that the old path goes
  through, because such an entry leads to a directory with children, which the first guard refuses.
\<close>

subsection \<open>A resolution as a walk and a last step\<close>

text \<open>A resolved path in terms of the walk and its last node.\<close>

abbreviation walk_from_root ::
    "nat \<Rightarrow> abstract_fs \<Rightarrow> pathname \<Rightarrow> (fs_error, dir_index list \<times> node \<times> pathname) res" where
  "walk_from_root k fs p \<equiv>
     walk (\<lambda>t. node_to_dir t (resolve_node_rec k fs t True [])) fs (segments p) [] (NodeDir root_index) []"

lemma resolve_Suc_Ok:
  "resolve_node_rec (Suc k) fs p follow v = Ok r \<longleftrightarrow>
     is_valid p \<and>
     (\<exists>ds n p'. walk_from_root k fs p = Ok (ds, n, p') \<and>
        ((\<forall>s. follow \<longrightarrow> n \<noteq> NodeSymlink s) \<and> r = (ds, n)
         \<or> (\<exists>s ds' x. follow \<and> n = NodeSymlink s \<and> s \<notin> set v \<and> symlink_ix s < length (symlinks fs)
              \<and> resolve_node_rec k fs (target (symlinks fs ! symlink_ix s)) True (v @ [s]) = Ok (ds', x)
              \<and> r = (ds @ ds', x))))"
proof (cases "walk_from_root k fs p")
  case (Ok w)
  obtain ds n p' where "w = (ds, n, p')" by (cases w)
  with Ok show ?thesis by (cases n) (auto split: if_splits)
qed (auto split: if_splits)

declare resolve_node_rec.simps(2) [simp del]

lemma resolve_Suc_nofollow:
  "resolve_node_rec (Suc k) fs p False v = Ok (ds, x) \<longleftrightarrow>
     is_valid p \<and> (\<exists>p'. walk_from_root k fs p = Ok (ds, x, p'))"
  unfolding resolve_Suc_Ok by blast

lemma resolve_Suc_dirI:
  "walk_from_root k fs p = Ok (ds, NodeDir j, p') \<Longrightarrow> is_valid p \<Longrightarrow>
   resolve_node_rec (Suc k) fs p follow v = Ok (ds, NodeDir j)"
  unfolding resolve_Suc_Ok by blast

lemma resolve_Suc_symlinkI:
  "\<lbrakk>walk_from_root k fs p = Ok (ds, NodeSymlink s, p'); is_valid p; s \<notin> set v;
    symlink_ix s < length (symlinks fs);
    resolve_node_rec k fs (target (symlinks fs ! symlink_ix s)) True (v @ [s]) = Ok (ds', x)\<rbrakk>
   \<Longrightarrow> resolve_node_rec (Suc k) fs p True v = Ok (ds @ ds', x)"
  unfolding resolve_Suc_Ok by blast

lemma resolve_Suc_valid: "resolve_node_rec (Suc k) fs p follow v = Ok r \<Longrightarrow> is_valid p"
  unfolding resolve_Suc_Ok by blast

subsection \<open>The list of visited symlinks\<close>

lemma resolve_fewer_visited:
  assumes "resolve_node_rec k fs p follow v' = Ok r" and "set v \<subseteq> set v'"
  shows "resolve_node_rec k fs p follow v = Ok r"
  using assms
proof (induction k arbitrary: p follow v v' r)
  case (Suc k)
  have "resolve_node_rec k fs t True (v @ [i]) = Ok a"
    if "resolve_node_rec k fs t True (v' @ [i]) = Ok a" for t i a
    using Suc.IH [OF that, of "v @ [i]"] Suc.prems(2) by auto
  then show ?case using Suc.prems unfolding resolve_Suc_Ok by blast
qed simp

text \<open>A symlink that leads anywhere is not on the chain it starts.\<close>

lemma resolve_visited_self:
  assumes "resolve_node_rec k fs t True [] = Ok r"
    and t: "t = target (symlinks fs ! symlink_ix s)"
  shows "\<exists>k. resolve_node_rec k fs t True [s] = Ok r"
proof -
  define m where "m = (LEAST k. \<exists>r. resolve_node_rec k fs t True [] = Ok r)"
  have minimal: "resolve_node_rec j fs t True [] \<noteq> Ok r'" if "j < m" for j r'
    using not_less_Least [OF that [unfolded m_def]] by blast
  obtain r' where r': "resolve_node_rec m fs t True [] = Ok r'"
    using LeastI_ex [of "\<lambda>k. \<exists>r. resolve_node_rec k fs t True [] = Ok r"] assms(1)
    unfolding m_def by blast
  have "m \<le> k" using minimal assms(1) by (meson not_le_imp_less)
  then have "r' = r" using resolve_mono [of m k fs t True "[]"] r' assms(1)
    by (simp add: upto_overflow_def)
  have "resolve_node_rec j fs p True v' = Ok a"
    if "resolve_node_rec j fs p True v = Ok a" "set v' \<subseteq> insert s (set v)" "j \<le> m" for j p v v' a
    using that
  proof (induction j arbitrary: p v v' a)
    case (Suc j)
    have "i \<notin> set v' \<and> resolve_node_rec j fs (target (symlinks fs ! symlink_ix i)) True (v' @ [i]) = Ok b"
      if "i \<notin> set v" "resolve_node_rec j fs (target (symlinks fs ! symlink_ix i)) True (v @ [i]) = Ok b"
      for i b
    proof
      show "i \<notin> set v'"
        using that Suc.prems(2,3) minimal [of j b] resolve_fewer_visited [OF that(2), of "[]"] t by auto
      show "resolve_node_rec j fs (target (symlinks fs ! symlink_ix i)) True (v' @ [i]) = Ok b"
        using Suc.IH [OF that(2), of "v' @ [i]"] Suc.prems(2,3) by auto
    qed
    then show ?case using Suc.prems(1) unfolding resolve_Suc_Ok by blast
  qed simp
  from this [OF r', of "[s]"] show ?thesis using \<open>r' = r\<close> by auto
qed

subsection \<open>Nodes that lead to a directory\<close>

text \<open>\<open>leads fs x j\<close>: following \<open>x\<close> ends at the directory \<open>j\<close>.\<close>

definition leads :: "abstract_fs \<Rightarrow> node \<Rightarrow> dir_index \<Rightarrow> bool" where
  "leads fs x j \<longleftrightarrow>
     (case x of
        NodeFile _ \<Rightarrow> False
      | NodeDir i \<Rightarrow> i = j
      | NodeSymlink s \<Rightarrow>
          symlink_ix s < length (symlinks fs)
          \<and> (\<exists>k ds. resolve_node_rec k fs (target (symlinks fs ! symlink_ix s)) True [] = Ok (ds, NodeDir j)))"

lemma leads_simps [simp]:
  "\<not> leads fs (NodeFile f) j"
  "leads fs (NodeDir i) j \<longleftrightarrow> i = j"
  by (simp_all add: leads_def)

lemma node_to_dir_Ok [simp]: "node_to_dir p r = Ok (ds, i) \<longleftrightarrow> r = Ok (ds, NodeDir i)"
  by (cases r) (auto simp: node_to_dir_def split: node.splits)

lemma leads_symlinkI:
  "\<lbrakk>symlink_ix s < length (symlinks fs);
    resolve_node_rec k fs (target (symlinks fs ! symlink_ix s)) True v = Ok (ds, NodeDir j)\<rbrakk>
   \<Longrightarrow> leads fs (NodeSymlink s) j"
  using resolve_fewer_visited [of k fs "target (symlinks fs ! symlink_ix s)" True v _ "[]"]
  by (auto simp: leads_def)

text \<open>The directory that one step of the walk enters, and the step itself.\<close>

definition enter ::
    "(pathname \<Rightarrow> (fs_error, dir_index list \<times> dir_index) res) \<Rightarrow> abstract_fs \<Rightarrow> node \<Rightarrow>
     dir_index list \<Rightarrow> pathname \<Rightarrow> (fs_error, dir_index list \<times> dir_index) res" where
  "enter rd fs n ds path =
     (case n of
        NodeDir idx \<Rightarrow> Ok (ds @ [idx], idx)
      | NodeSymlink idx \<Rightarrow>
          and_then (get_sym fs idx) (\<lambda>s.
          and_then (rd (target s)) (\<lambda>(rec_dirs, i). Ok (ds @ rec_dirs @ [i], i)))
      | NodeFile _ \<Rightarrow> Err (NotADir path))"

lemma walk_Cons_Ok:
  "walk rd fs (seg # segs) ds n p = Ok r \<longleftrightarrow>
     (\<exists>ds' i x. enter rd fs n ds (p @ ''/'' @ seg) = Ok (ds', i) \<and> dir_ix i < length (dirs fs)
        \<and> child (dirs fs ! dir_ix i) seg = Some x \<and> walk rd fs segs ds' x (p @ ''/'' @ seg) = Ok r)"
  by (simp add: Let_def flip: enter_def)

lemma walk_append_Ok:
  "walk rd fs (segs @ segs') ds n p = Ok r \<longleftrightarrow>
     (\<exists>ds' n' p'. walk rd fs segs ds n p = Ok (ds', n', p') \<and> walk rd fs segs' ds' n' p' = Ok r)"
  by (induction segs arbitrary: ds n p) (auto simp: walk_Cons_Ok simp del: walk.simps(2))

lemma enter_leads:
  "enter (\<lambda>t. node_to_dir t (resolve_node_rec k fs t True [])) fs n ds p = Ok (ds', i) \<Longrightarrow> leads fs n i"
  by (auto simp: enter_def leads_def split: node.splits)

lemma resolve_dir_leads:
  assumes "resolve_node_rec (Suc k) fs p True v = Ok (ds, NodeDir j)"
  obtains ds' n p' where "walk_from_root k fs p = Ok (ds', n, p')" "leads fs n j"
  using assms unfolding resolve_Suc_Ok by (metis leads_simps(2) leads_symlinkI prod.inject)

text \<open>Under a busy-free entry, nothing that leads to a directory with children changes.\<close>

definition has_children :: "abstract_fs \<Rightarrow> dir_index \<Rightarrow> bool" where
  "has_children fs j \<longleftrightarrow> dir_ix j < length (dirs fs) \<and> children (dirs fs ! dir_ix j) \<noteq> []"

definition unused_entry :: "abstract_fs \<Rightarrow> dir_index \<Rightarrow> name \<Rightarrow> bool" where
  "unused_entry fs P nm \<longleftrightarrow>
     (\<forall>x j. child (dirs fs ! dir_ix P) nm = Some x \<longrightarrow> leads fs x j \<longrightarrow> \<not> has_children fs j)"

lemma child_has_children: "dir_ix i < length (dirs fs) \<Longrightarrow> child (dirs fs ! dir_ix i) seg = Some x \<Longrightarrow> has_children fs i"
  by (auto simp: has_children_def child_def)

lemma walk_leads:
  assumes "walk (\<lambda>t. node_to_dir t (resolve_node_rec k fs t True [])) fs segs ds n p = Ok (ds', n', p')"
    and "leads fs n' j" and "has_children fs j"
  shows "\<exists>j. leads fs n j \<and> has_children fs j"
proof (cases segs)
  case (Cons seg segs')
  then show ?thesis using assms(1) unfolding Cons walk_Cons_Ok
    by (blast dest: child_has_children enter_leads)
qed (use assms in auto)

definition with_entry :: "dir_index \<Rightarrow> name \<Rightarrow> node \<Rightarrow> abstract_fs \<Rightarrow> abstract_fs" where
  "with_entry P nm x fs = set_dir P (insert_child nm x (dirs fs ! dir_ix P)) fs"

lemma with_entry_simps [simp]:
  "length (dirs (with_entry P nm x fs)) = length (dirs fs)"
  "symlinks (with_entry P nm x fs) = symlinks fs"
  "files (with_entry P nm x fs) = files fs"
  "get_sym (with_entry P nm x fs) i = get_sym fs i"
  by (simp_all add: with_entry_def get_sym_def)

lemma child_with_entry:
  "dir_ix i < length (dirs fs) \<Longrightarrow>
   child (dirs (with_entry P nm x fs) ! dir_ix i) m
   = (if i = P \<and> m = nm then Some x else child (dirs fs ! dir_ix i) m)"
  by (cases "i = P") (auto simp: with_entry_def nth_list_update)

lemma walk_with_entry:
  assumes "unused_entry fs P nm"
    and rec: "\<And>t ds i. resolve_node_rec k fs t True [] = Ok (ds, NodeDir i) \<Longrightarrow> has_children fs i \<Longrightarrow>
               resolve_node_rec k (with_entry P nm x1 fs) t True [] = Ok (ds, NodeDir i)"
    and "walk (\<lambda>t. node_to_dir t (resolve_node_rec k fs t True [])) fs segs ds n p = Ok (ds', n', p')"
    and end_node: "leads fs n' j" "has_children fs j"
  shows "walk (\<lambda>t. node_to_dir t (resolve_node_rec k (with_entry P nm x1 fs) t True []))
           (with_entry P nm x1 fs) segs ds n p = Ok (ds', n', p')"
  using assms(3)
proof (induction segs arbitrary: ds n p)
  case (Cons seg segs)
  let ?p = "p @ ''/'' @ seg"
  obtain ds1 i x where step: "enter (\<lambda>t. node_to_dir t (resolve_node_rec k fs t True [])) fs n ds ?p = Ok (ds1, i)"
    "dir_ix i < length (dirs fs)" "child (dirs fs ! dir_ix i) seg = Some x"
    "walk (\<lambda>t. node_to_dir t (resolve_node_rec k fs t True [])) fs segs ds1 x ?p = Ok (ds', n', p')"
    using Cons.prems unfolding walk_Cons_Ok by blast
  have "has_children fs i" using step(2,3) by (rule child_has_children)
  then have "enter (\<lambda>t. node_to_dir t (resolve_node_rec k (with_entry P nm x1 fs) t True []))
               (with_entry P nm x1 fs) n ds ?p = Ok (ds1, i)"
    using step(1) rec by (auto simp: enter_def split: node.splits)
  moreover have "\<not> (i = P \<and> seg = nm)"
    using assms(1) walk_leads [OF step(4) end_node] step(3) by (auto simp: unused_entry_def)
  then have "child (dirs (with_entry P nm x1 fs) ! dir_ix i) seg = Some x"
    using step(2,3) by (auto simp: child_with_entry)
  ultimately show ?case using step(2) Cons.IH [OF step(4)] unfolding walk_Cons_Ok by auto
qed simp

lemma resolve_with_entry:
  assumes "unused_entry fs P nm"
    and "resolve_node_rec k fs p True v = Ok (ds, NodeDir j)" and "has_children fs j"
  shows "resolve_node_rec k (with_entry P nm x1 fs) p True v = Ok (ds, NodeDir j)"
  using assms(2,3)
proof (induction k arbitrary: p v ds j)
  case (Suc k)
  obtain ds' n p' where w: "walk_from_root k fs p = Ok (ds', n, p')" "leads fs n j"
    using resolve_dir_leads [OF Suc.prems(1)] .
  have "walk_from_root k (with_entry P nm x1 fs) p = Ok (ds', n, p')"
    using walk_with_entry [OF assms(1) Suc.IH w Suc.prems(2)] by blast
  then show ?case using Suc.prems w(1) Suc.IH unfolding resolve_Suc_Ok
    by auto
qed simp

subsection \<open>Lookup of a path through its parent\<close>

lemma walk_from_root_deeper:
  "walk_from_root k fs p = Ok r \<Longrightarrow> k \<le> k' \<Longrightarrow> walk_from_root k' fs p = Ok r"
  using walk_mono [of "\<lambda>t. node_to_dir t (resolve_node_rec k fs t True [])"
      "\<lambda>t. node_to_dir t (resolve_node_rec k' fs t True [])" fs "segments p" "[]" "NodeDir root_index" "[]"]
    node_to_dir_mono [OF resolve_mono [of k k' fs _ True "[]"]]
  by (simp add: upto_overflow_def)

lemma resolve_deeper:
  "resolve_node_rec k fs p follow v = Ok r \<Longrightarrow> k \<le> k' \<Longrightarrow> resolve_node_rec k' fs p follow v = Ok r"
  using resolve_mono [of k k' fs p follow v] by (simp add: upto_overflow_def)

lemma resolve_node_of_rec: "resolve_node_rec k fs p follow [] = Ok r \<Longrightarrow> resolve_node fs p follow = Ok r"
  using resolve_deeper [of k fs p follow "[]" r "max k (resolve_depth fs)"]
  by (simp add: resolve_depth_enough)

lemma resolve_node_to_rec:
  assumes "resolve_node fs p follow = Ok r"
  obtains k where "resolve_node_rec (Suc k) fs p follow [] = Ok r"
proof -
  have "resolve_depth fs = Suc (resolve_depth fs - 1)" by (simp add: resolve_depth_def)
  with assms show thesis using that [of "resolve_depth fs - 1"] by (simp add: resolve_node_def)
qed

text \<open>A walk whose last node leads to a directory.\<close>

lemma resolve_dir_of_walk:
  assumes "walk_from_root k fs p = Ok (ds, n, p')" and "is_valid p" and "leads fs n j"
  shows "\<exists>ds. resolve_dir fs p = Ok (ds, j)"
proof -
  consider (dir) "n = NodeDir j" | (sym) s where "n = NodeSymlink s"
    using assms(3) by (cases n) auto
  then have "\<exists>k ds. resolve_node_rec (Suc k) fs p True [] = Ok (ds, NodeDir j)"
  proof cases
    case dir
    then show ?thesis using assms resolve_Suc_dirI by blast
  next
    case sym
    let ?t = "target (symlinks fs ! symlink_ix s)"
    have s: "symlink_ix s < length (symlinks fs)"
      using assms(3) sym by (simp add: leads_def)
    obtain k1 ds1 where k1: "resolve_node_rec k1 fs ?t True [s] = Ok (ds1, NodeDir j)"
    proof -
      obtain k0 ds1 where "resolve_node_rec k0 fs ?t True [] = Ok (ds1, NodeDir j)"
        using assms(3) sym by (auto simp: leads_def)
      then show thesis using resolve_visited_self [OF _ refl] that by blast
    qed
    have "walk_from_root (max k k1) fs p = Ok (ds, n, p')"
      using assms(1) by (rule walk_from_root_deeper) simp
    moreover have "resolve_node_rec (max k k1) fs ?t True [s] = Ok (ds1, NodeDir j)"
      using k1 by (rule resolve_deeper) simp
    ultimately have "resolve_node_rec (Suc (max k k1)) fs p True [] = Ok (ds @ ds1, NodeDir j)"
      using assms(2) sym s by (intro resolve_Suc_symlinkI) simp_all
    then show ?thesis by blast
  qed
  then show ?thesis unfolding resolve_dir_def by (auto dest: resolve_node_of_rec)
qed

lemma resolve_dir_to_walk:
  assumes "resolve_dir fs p = Ok (ds, j)"
  obtains k ds n p' where "walk_from_root k fs p = Ok (ds, n, p')" "leads fs n j" "is_valid p"
proof -
  have "resolve_node fs p True = Ok (ds, NodeDir j)" using assms by (simp add: resolve_dir_def)
  then obtain k where k: "resolve_node_rec (Suc k) fs p True [] = Ok (ds, NodeDir j)"
    by (rule resolve_node_to_rec)
  obtain ds' n p' where "walk_from_root k fs p = Ok (ds', n, p')" "leads fs n j"
    using resolve_dir_leads [OF k] .
  then show thesis using resolve_Suc_valid [OF k] by (rule that)
qed

lemma enter_deeper:
  assumes "symlink_ix s < length (symlinks fs)"
    and "resolve_node_rec k fs (target (symlinks fs ! symlink_ix s)) True [] = Ok (ds', NodeDir j)" and "k \<le> k'"
  shows "enter (\<lambda>t. node_to_dir t (resolve_node_rec k' fs t True [])) fs (NodeSymlink s) ds p
         = Ok (ds @ ds' @ [j], j)"
proof -
  have "resolve_node_rec k' fs (target (symlinks fs ! symlink_ix s)) True [] = Ok (ds', NodeDir j)"
    using assms(2,3) by (rule resolve_deeper)
  then show ?thesis using assms(1) by (simp add: enter_def node_to_dir_def)
qed

lemma leads_enter:
  assumes "leads fs n j"
  shows "\<exists>K. \<forall>k \<ge> K. \<exists>ds'. enter (\<lambda>t. node_to_dir t (resolve_node_rec k fs t True [])) fs n ds p = Ok (ds', j)"
proof (cases n)
  case (NodeSymlink s)
  then have "symlink_ix s < length (symlinks fs) \<and> (\<exists>k ds'.
    resolve_node_rec k fs (target (symlinks fs ! symlink_ix s)) True [] = Ok (ds', NodeDir j))"
    using assms by (simp add: leads_def)
  then show ?thesis unfolding NodeSymlink using enter_deeper by meson
qed (use assms in \<open>auto simp: enter_def\<close>)

lemma walk_snoc_Ok:
  assumes "segments p = segments parent @ [nm]"
  shows "walk_from_root k fs p = Ok (ds, x, p') \<longleftrightarrow>
     (\<exists>ds1 n p1 P. walk_from_root k fs parent = Ok (ds1, n, p1)
        \<and> enter (\<lambda>t. node_to_dir t (resolve_node_rec k fs t True [])) fs n ds1 (p1 @ ''/'' @ nm) = Ok (ds, P)
        \<and> dir_ix P < length (dirs fs) \<and> child (dirs fs ! dir_ix P) nm = Some x \<and> p' = p1 @ ''/'' @ nm)"
  unfolding assms walk_append_Ok walk_Cons_Ok by fastforce

text \<open>Looking up a path without following it is looking up its name in the directory of its parent.\<close>

lemma lookup_by_parent:
  assumes "wf_fs fs" and "segments p = segments parent @ [nm]" and "is_valid p" and "is_valid parent"
  shows "(\<exists>ds. resolve_node fs p False = Ok (ds, x)) \<longleftrightarrow>
         (\<exists>ds P. resolve_dir fs parent = Ok (ds, P) \<and> child (dirs fs ! dir_ix P) nm = Some x)"
proof
  assume "\<exists>ds. resolve_node fs p False = Ok (ds, x)"
  then obtain ds where ds: "resolve_node fs p False = Ok (ds, x)" ..
  obtain k where "resolve_node_rec (Suc k) fs p False [] = Ok (ds, x)"
    using resolve_node_to_rec [OF ds] .
  then obtain p' where "walk_from_root k fs p = Ok (ds, x, p')"
    unfolding resolve_Suc_nofollow by blast
  then obtain ds1 n p1 P where "walk_from_root k fs parent = Ok (ds1, n, p1)"
    "enter (\<lambda>t. node_to_dir t (resolve_node_rec k fs t True [])) fs n ds1 (p1 @ ''/'' @ nm) = Ok (ds, P)"
    "child (dirs fs ! dir_ix P) nm = Some x"
    unfolding walk_snoc_Ok [OF assms(2)] by blast
  then show "\<exists>ds P. resolve_dir fs parent = Ok (ds, P) \<and> child (dirs fs ! dir_ix P) nm = Some x"
    using resolve_dir_of_walk [OF _ assms(4) enter_leads] by blast
next
  assume "\<exists>ds P. resolve_dir fs parent = Ok (ds, P) \<and> child (dirs fs ! dir_ix P) nm = Some x"
  then obtain ds P where P: "resolve_dir fs parent = Ok (ds, P)" "child (dirs fs ! dir_ix P) nm = Some x"
    by blast
  have range: "dir_ix P < length (dirs fs)"
    using sound_D [OF resolve_dir_sound [OF assms(1)] P(1)] by (simp add: dir_in_def)
  obtain k ds' n p' where w: "walk_from_root k fs parent = Ok (ds', n, p')" "leads fs n P"
    by (rule resolve_dir_to_walk [OF P(1)])
  obtain K where K: "\<forall>k \<ge> K. \<exists>ds1. enter (\<lambda>t. node_to_dir t (resolve_node_rec k fs t True [])) fs n ds'
      (p' @ ''/'' @ nm) = Ok (ds1, P)"
    using leads_enter [OF w(2)] by blast
  have "walk_from_root (max k K) fs parent = Ok (ds', n, p')"
    using w(1) by (rule walk_from_root_deeper) simp
  moreover obtain ds1 where "enter (\<lambda>t. node_to_dir t (resolve_node_rec (max k K) fs t True [])) fs n ds'
      (p' @ ''/'' @ nm) = Ok (ds1, P)"
    using K [rule_format, of "max k K"] by auto
  ultimately have "walk_from_root (max k K) fs p = Ok (ds1, x, p' @ ''/'' @ nm)"
    unfolding walk_snoc_Ok [OF assms(2)] using range P(2) by blast
  then have "resolve_node_rec (Suc (max k K)) fs p False [] = Ok (ds1, x)"
    using assms(3) unfolding resolve_Suc_nofollow by blast
  then show "\<exists>ds. resolve_node fs p False = Ok (ds, x)" by (blast dest: resolve_node_of_rec)
qed

lemma resolve_dir_by_parent:
  assumes "wf_fs fs" and "segments p = segments parent @ [nm]" and "is_valid p" and "is_valid parent"
    and "resolve_dir fs parent = Ok (ds, P)" and "child (dirs fs ! dir_ix P) nm = Some x" and "leads fs x j"
  shows "\<exists>ds. resolve_dir fs p = Ok (ds, j)"
proof -
  obtain ds' where "resolve_node fs p False = Ok (ds', x)"
    using lookup_by_parent [OF assms(1-4)] assms(5,6) by blast
  then obtain k where "resolve_node_rec (Suc k) fs p False [] = Ok (ds', x)"
    using resolve_node_to_rec by blast
  then obtain p' where "walk_from_root k fs p = Ok (ds', x, p')"
    unfolding resolve_Suc_nofollow by blast
  then show ?thesis using assms(3,7) by (rule resolve_dir_of_walk)
qed

subsection \<open>Rename is atomic\<close>

declare walk.simps(2) [simp del]

lemma walk_dirs_grow:
  "walk rd fs segs ds n p = Ok (ds', n', p') \<Longrightarrow> set ds \<subseteq> set ds'"
proof (induction segs arbitrary: ds n p)
  case (Cons seg segs)
  obtain ds1 i x where step: "enter rd fs n ds (p @ ''/'' @ seg) = Ok (ds1, i)"
    "walk rd fs segs ds1 x (p @ ''/'' @ seg) = Ok (ds', n', p')"
    using Cons.prems unfolding walk_Cons_Ok by blast
  have "set ds \<subseteq> set ds1" using step(1) by (auto simp: enter_def split: node.splits)
  then show ?case using Cons.IH [OF step(2)] by blast
qed simp

lemma resolve_passes_root:
  assumes "resolve_dir fs p = Ok (ds, i)"
  shows "root_index \<in> set ds \<or> i = root_index"
proof -
  have "resolve_node fs p True = Ok (ds, NodeDir i)" using assms by (simp add: resolve_dir_def)
  then obtain k where k: "resolve_node_rec (Suc k) fs p True [] = Ok (ds, NodeDir i)"
    by (rule resolve_node_to_rec)
  then obtain ds0 n p' where w: "walk_from_root k fs p = Ok (ds0, n, p')"
    and r: "n = NodeDir i \<or> (\<exists>s. n = NodeSymlink s)" "set ds0 \<subseteq> set ds"
    unfolding resolve_Suc_Ok by auto
  show ?thesis
  proof (cases "segments p")
    case (Cons seg segs)
    obtain ds1 x where "walk (\<lambda>t. node_to_dir t (resolve_node_rec k fs t True [])) fs segs ds1 x ([] @ ''/'' @ seg)
        = Ok (ds0, n, p')" "root_index \<in> set ds1"
      using w unfolding Cons walk_Cons_Ok by (auto simp: enter_def)
    then show ?thesis using walk_dirs_grow r(2) by blast
  qed (use w r in auto)
qed

definition without_entry :: "dir_index \<Rightarrow> name \<Rightarrow> abstract_fs \<Rightarrow> abstract_fs" where
  "without_entry P nm fs = set_dir P (remove_child nm (dirs fs ! dir_ix P)) fs"

lemma parent_entry_Ok:
  "parent_entry fs p = Ok (ds, P, d, nm) \<longleftrightarrow>
     (\<exists>parent. path_split p = (Ok (parent, nm) :: (fs_error, _) res) \<and> resolve_dir fs parent = Ok (ds, P)
        \<and> dir_ix P < length (dirs fs) \<and> d = dirs fs ! dir_ix P)"
  by (auto simp: parent_entry_def)

lemma canonical_child:
  assumes "canonical p" and "\<not> is_root p" and "path_split p = (Ok (parent, nm) :: (fs_error, _) res)"
  shows "segments p = segments parent @ [nm]" and "is_valid p" and "is_valid parent"
proof -
  have "segments p = segments parent @ [nm] \<and> is_valid p \<and> is_valid parent"
    using assms(2,3) by (cases rule: canonicalE [OF assms(1), where 'a = fs_error]) (auto simp: is_root_def)
  then show "segments p = segments parent @ [nm]" "is_valid p" "is_valid parent" by simp_all
qed

text \<open>The first guard of \<open>rename\<close> makes the entry at the new path unused.\<close>

lemma guard_unused:
  assumes "wf_fs fs" and "canonical p" and "\<not> is_root p" and "nonempty_dir_at fs p = Ok False"
    and "parent_entry fs p = Ok (ds, P, d, nm)"
  shows "unused_entry fs P nm"
proof -
  obtain parent where split: "path_split p = (Ok (parent, nm) :: (fs_error, _) res)" "resolve_dir fs parent = Ok (ds, P)"
    using assms(5) unfolding parent_entry_Ok by blast
  have p: "segments p = segments parent @ [nm]" "is_valid p" "is_valid parent"
    using assms(3) split(1) canonical_child [OF assms(2)] by simp_all
  have "\<not> has_children fs j" if x: "child (dirs fs ! dir_ix P) nm = Some x" "leads fs x j" for x j
  proof -
    obtain ds' where "resolve_dir fs p = Ok (ds', j)"
      using resolve_dir_by_parent [OF assms(1) p split(2) x] by blast
    then show ?thesis using assms(4) by (auto simp: nonempty_dir_at_def has_children_def)
  qed
  then show ?thesis by (simp add: unused_entry_def)
qed

lemma rename_succeeds:
  assumes "wf_fs fs" and "canonical old" and "canonical new" and "\<not> is_root new"
    and guard: "nonempty_dir_at fs new = Ok False"
    and old: "resolve_node fs old False = Ok (vd, n)"
    and new: "parent_entry fs new = Ok (ds, P, d, nm)"
    and below: "\<not> moves_below_itself n ds P"
  shows "\<exists>ds2 P2 nm2. parent_entry fs old = Ok (ds2, P2, dirs fs ! dir_ix P2, nm2)
           \<and> child (dirs fs ! dir_ix P2) nm2 = Some n
           \<and> rename old new fs
             = (Ok n, record_op (OpRename old new) (without_entry P2 nm2 (with_entry P nm n fs)))"
proof -
  have d: "d = dirs fs ! dir_ix P" using new unfolding parent_entry_Ok by blast
  show ?thesis
  proof (cases "is_root old")
    case True
    then have root: "segments old = []" by (simp add: is_root_def)
    obtain k where "resolve_node_rec (Suc k) fs old False [] = Ok (vd, n)"
      using resolve_node_to_rec [OF old] .
    then have "n = NodeDir root_index" unfolding resolve_Suc_nofollow root by auto
    then show ?thesis using below resolve_passes_root new unfolding parent_entry_Ok
      by (fastforce simp: moves_below_itself_def)
  next
    case False
    obtain parent2 nm2 where split: "path_split old = (Ok (parent2, nm2) :: (fs_error, _) res)"
      using False by (cases rule: canonicalE [OF assms(2), where 'a = fs_error]) (auto simp: is_root_def)
    note old_path = canonical_child [OF assms(2) False split]
    obtain ds2 P2 where P2: "resolve_dir fs parent2 = Ok (ds2, P2)" "child (dirs fs ! dir_ix P2) nm2 = Some n"
      using lookup_by_parent [OF assms(1) old_path, of n] old by blast
    have range: "dir_ix P2 < length (dirs fs)"
      using sound_D [OF resolve_dir_sound [OF assms(1)] P2(1)] by (simp add: dir_in_def)
    then have kids: "has_children fs P2" using P2(2) by (rule child_has_children)
    obtain k where k: "resolve_node_rec k fs parent2 True [] = Ok (ds2, NodeDir P2)"
      using P2(1) by (auto simp: resolve_dir_def resolve_node_def)
    have "resolve_node_rec k (with_entry P nm n fs) parent2 True [] = Ok (ds2, NodeDir P2)"
      by (rule resolve_with_entry [OF guard_unused [OF assms(1,3,4) guard new] k kids])
    then have "resolve_dir (with_entry P nm n fs) parent2 = Ok (ds2, P2)"
      by (simp add: resolve_dir_def resolve_node_of_rec)
    then have "parent_entry (with_entry P nm n fs) old
        = Ok (ds2, P2, dirs (with_entry P nm n fs) ! dir_ix P2, nm2)"
      using split range unfolding parent_entry_Ok by simp
    then have "rename old new fs
        = (Ok n, record_op (OpRename old new) (without_entry P2 nm2 (with_entry P nm n fs)))"
      using guard old new below unfolding rename_def d
      by (simp add: Let_def with_entry_def without_entry_def)
    moreover have "parent_entry fs old = Ok (ds2, P2, dirs fs ! dir_ix P2, nm2)"
      using split P2(1) range unfolding parent_entry_Ok by simp
    ultimately show ?thesis using P2(2) by blast
  qed
qed

text \<open>A rename either succeeds or changes nothing.\<close>

lemma rename_atomic:
  assumes "wf_fs fs" and "canonical old" and "canonical new" and "\<not> is_root new"
    and "rename old new fs = (r, fs')" and "\<not> is_ok r"
  shows "fs' = fs"
proof (rule ccontr)
  assume "fs' \<noteq> fs"
  then obtain vd n ds P d nm where run: "nonempty_dir_at fs new = Ok False"
    "resolve_node fs old False = Ok (vd, n)" "parent_entry fs new = Ok (ds, P, d, nm)"
    "\<not> moves_below_itself n ds P"
    using assms(5) unfolding rename_def Let_def
    by (cases "nonempty_dir_at fs new"; cases "resolve_node fs old False"; cases "parent_entry fs new")
      (auto split: if_splits)
  then show False using rename_succeeds [OF assms(1-4) run] assms(5,6) by auto
qed

end
