(* ===== verification/FS_Spec.thy ===== *)
theory FS_Spec
  imports Rename_Correct
begin

text \<open>
  The abstract file system as a finite map of directory entries, and what each operation does to it.

  \<^item> \<open>entry fs\<close> maps a directory and a name to a node. Every operation of \<open>fs.rs\<close> on the tree is one
    or two updates of this map, given by its \<open>_spec\<close> lemma.
  \<^item> \<open>tree_fs\<close>: no directory has two entries, the root has none, and no directory is below itself.
    Every operation keeps it; for \<open>rename\<close> because resolution lists all ancestors of the directory
    it ends in.
  \<^item> \<open>fs_reach\<close>: the states a sequence of operations can lead to from the empty file system, the
    failed ones included. Replaying the recording of such a state gives the state.
\<close>

subsection \<open>The map of entries\<close>

definition entry :: "abstract_fs \<Rightarrow> dir_index \<times> name \<Rightarrow> node option" where
  "entry fs e = (if dir_ix (fst e) < length (dirs fs) then child (dirs fs ! dir_ix (fst e)) (snd e) else None)"

lemma entry_with_entry:
  "dir_ix P < length (dirs fs) \<Longrightarrow> entry (with_entry P nm x fs) = (entry fs)((P, nm) \<mapsto> x)"
  by (auto simp: entry_def fun_eq_iff child_with_entry)

lemma without_entry_simps [simp]:
  "length (dirs (without_entry P nm fs)) = length (dirs fs)"
  "symlinks (without_entry P nm fs) = symlinks fs"
  "files (without_entry P nm fs) = files fs"
  "descriptors (without_entry P nm fs) = descriptors fs"
  "recording (without_entry P nm fs) = recording fs"
  by (simp_all add: without_entry_def)

lemma with_entry_more [simp]:
  "descriptors (with_entry P nm x fs) = descriptors fs"
  "recording (with_entry P nm x fs) = recording fs"
  by (simp_all add: with_entry_def)

lemma entry_without_entry:
  "dir_ix P < length (dirs fs) \<Longrightarrow> entry (without_entry P nm fs) = (entry fs)((P, nm) := None)"
  by (auto simp: entry_def without_entry_def fun_eq_iff nth_list_update)

lemma entry_same_dirs [simp]:
  "entry (record_op op fs) = entry fs"
  "entry (set_file i f fs) = entry fs"
  "entry (set_descriptor k d fs) = entry fs"
  "entry (fs\<lparr>files := fl\<rparr>) = entry fs"
  "entry (fs\<lparr>symlinks := sl\<rparr>) = entry fs"
  "entry (fs\<lparr>descriptors := dl\<rparr>) = entry fs"
  by (simp_all add: entry_def fun_eq_iff)

lemma entry_push_dir [simp]: "entry (fs\<lparr>dirs := dirs fs @ [\<lparr>children = []\<rparr>]\<rparr>) = entry fs"
  by (auto simp: entry_def fun_eq_iff nth_append not_less_less_Suc_eq)

lemma entry_in: "wf_fs fs \<Longrightarrow> entry fs e = Some x \<Longrightarrow> node_in fs x"
  by (auto simp: entry_def split: if_splits dest: wf_fs_dir wf_dir_child)

text \<open>A path names an entry: its parent resolves to the directory of the entry.\<close>

definition names :: "abstract_fs \<Rightarrow> pathname \<Rightarrow> dir_index \<times> name \<Rightarrow> bool" where
  "names fs p e \<longleftrightarrow> (\<exists>ds. parent_entry fs p = Ok (ds, fst e, dirs fs ! dir_ix (fst e), snd e))"

lemma names_in_range: "names fs p e \<Longrightarrow> dir_ix (fst e) < length (dirs fs)"
  by (auto simp: names_def parent_entry_def)

lemma parent_entry_names:
  "parent_entry fs p = Ok (ds, P, d, nm) \<Longrightarrow> names fs p (P, nm) \<and> d = dirs fs ! dir_ix P"
  by (auto simp: names_def parent_entry_def)

lemma names_entry:
  assumes "names fs p e"
  shows "entry fs e = child (dirs fs ! dir_ix (fst e)) (snd e)"
  using names_in_range [OF assms] by (simp add: entry_def)

lemma entry_pair: "dir_ix P < length (dirs fs) \<Longrightarrow> entry fs (P, nm) = child (dirs fs ! dir_ix P) nm"
  by (simp add: entry_def)

lemma names_parent_entry:
  "names fs p e \<Longrightarrow> \<exists>ds. parent_entry fs p = Ok (ds, fst e, dirs fs ! dir_ix (fst e), snd e)"
  by (simp add: names_def)

subsection \<open>What each operation does to the map\<close>

lemma with_entry_push_dir:
  "set_dir P (insert_child nm x (dirs fs ! dir_ix P)) (fs\<lparr>dirs := dirs fs @ ds\<rparr>)
   = with_entry P nm x (fs\<lparr>dirs := dirs fs @ ds\<rparr>)" if "dir_ix P < length (dirs fs)"
  using that by (simp add: with_entry_def nth_append)

lemma with_entry_push_node:
  "set_dir P (insert_child nm x (dirs fs ! dir_ix P)) (fs\<lparr>files := fl\<rparr>) = with_entry P nm x (fs\<lparr>files := fl\<rparr>)"
  "set_dir P (insert_child nm x (dirs fs ! dir_ix P)) (fs\<lparr>symlinks := sl\<rparr>)
   = with_entry P nm x (fs\<lparr>symlinks := sl\<rparr>)"
  by (simp_all add: with_entry_def)

lemma remove_spec:
  assumes "remove p fs = (Ok (), fs')"
  obtains e where "names fs p e" and "entry fs e \<noteq> None" and "entry fs' = (entry fs)(e := None)"
    and "fs' = record_op (OpRemove p) (without_entry (fst e) (snd e) fs)"
proof -
  obtain ds P d nm where pe: "parent_entry fs p = Ok (ds, P, d, nm)"
    and c: "child d nm \<noteq> None" "fs' = record_op (OpRemove p) (set_dir P (remove_child nm d) fs)"
    using assms by (auto simp: remove_def split: if_splits)
  note nms = parent_entry_names [OF pe]
  show thesis
    by (rule that [of "(P, nm)"])
      (use nms c names_in_range [of fs p "(P, nm)"] in \<open>auto simp: names_entry without_entry_def
        simp flip: without_entry_def intro!: entry_without_entry\<close>)
qed

lemma mkdir_spec:
  assumes "mkdir p m fs = (Ok idx, fs')"
  obtains e where "names fs p e" and "entry fs e = None" and "idx = DirIndex (length (dirs fs))"
    and "entry fs' = (entry fs)(e \<mapsto> NodeDir idx)"
    and "fs' = record_op (OpMkDir p m)
           (with_entry (fst e) (snd e) (NodeDir idx) (fs\<lparr>dirs := dirs fs @ [\<lparr>children = []\<rparr>]\<rparr>))"
proof -
  obtain ds P d nm where pe: "parent_entry fs p = Ok (ds, P, d, nm)"
    and c: "child d nm = None" "idx = DirIndex (length (dirs fs))"
      "fs' = record_op (OpMkDir p m) (set_dir P (insert_child nm (NodeDir idx) d)
               (fs\<lparr>dirs := dirs fs @ [\<lparr>children = []\<rparr>]\<rparr>))"
    using assms by (auto simp: mkdir_def Let_def split: if_splits)
  note nms = parent_entry_names [OF pe]
  have range: "dir_ix P < length (dirs fs)" using names_in_range nms by fastforce
  have fs': "fs' = record_op (OpMkDir p m)
      (with_entry P nm (NodeDir idx) (fs\<lparr>dirs := dirs fs @ [\<lparr>children = []\<rparr>]\<rparr>))"
    using c(3) nms with_entry_push_dir [OF range] by simp
  show thesis using that [of "(P, nm)"] nms c(1,2) range by (simp add: fs' entry_pair entry_with_entry)
qed

lemma create_spec:
  assumes "create p m fs = (Ok idx, fs')"
  obtains e where "names fs p e" and "entry fs e = None" and "idx = FileIndex (length (files fs))"
    and "entry fs' = (entry fs)(e \<mapsto> NodeFile idx)"
    and "fs' = record_op (OpCreate p m) (with_entry (fst e) (snd e) (NodeFile idx)
           (fs\<lparr>files := files fs @ [\<lparr>descriptor = None, cont = content_new\<rparr>]\<rparr>))"
proof -
  obtain ds P d nm where pe: "parent_entry fs p = Ok (ds, P, d, nm)"
    and c: "child d nm = None" "idx = FileIndex (length (files fs))"
      "fs' = record_op (OpCreate p m) (set_dir P (insert_child nm (NodeFile idx) d)
               (fs\<lparr>files := files fs @ [\<lparr>descriptor = None, cont = content_new\<rparr>]\<rparr>))"
    using assms by (auto simp: create_def Let_def split: if_splits)
  note nms = parent_entry_names [OF pe]
  have range: "dir_ix P < length (dirs fs)" using names_in_range nms by fastforce
  have fs': "fs' = record_op (OpCreate p m) (with_entry P nm (NodeFile idx)
      (fs\<lparr>files := files fs @ [\<lparr>descriptor = None, cont = content_new\<rparr>]\<rparr>))"
    using c(3) nms by (simp add: with_entry_push_node)
  show thesis using that [of "(P, nm)"] nms c(1,2) range by (simp add: fs' entry_pair entry_with_entry)
qed

lemma make_symlink_spec:
  assumes "make_symlink t p fs = (Ok idx, fs')"
  obtains e where "names fs p e" and "entry fs e = None" and "idx = SymlinkIndex (length (symlinks fs))"
    and "entry fs' = (entry fs)(e \<mapsto> NodeSymlink idx)"
    and "fs' = record_op (OpSymlink t p) (with_entry (fst e) (snd e) (NodeSymlink idx)
           (fs\<lparr>symlinks := symlinks fs @ [\<lparr>target = t\<rparr>]\<rparr>))"
proof -
  obtain ds P d nm where pe: "parent_entry fs p = Ok (ds, P, d, nm)"
    and c: "child d nm = None" "idx = SymlinkIndex (length (symlinks fs))"
      "fs' = record_op (OpSymlink t p) (set_dir P (insert_child nm (NodeSymlink idx) d)
               (fs\<lparr>symlinks := symlinks fs @ [\<lparr>target = t\<rparr>]\<rparr>))"
    using assms by (auto simp: make_symlink_def Let_def split: if_splits)
  note nms = parent_entry_names [OF pe]
  have range: "dir_ix P < length (dirs fs)" using names_in_range nms by fastforce
  have fs': "fs' = record_op (OpSymlink t p) (with_entry P nm (NodeSymlink idx)
      (fs\<lparr>symlinks := symlinks fs @ [\<lparr>target = t\<rparr>]\<rparr>))"
    using c(3) nms by (simp add: with_entry_push_node)
  show thesis using that [of "(P, nm)"] nms c(1,2) range by (simp add: fs' entry_pair entry_with_entry)
qed

lemma hardlink_run:
  assumes "hardlink p q fs = (Ok idx, fs')"
  shows "\<exists>ds P d nm. parent_entry fs q = Ok (ds, P, d, nm) \<and> child d nm = None
     \<and> (\<exists>ds. resolve_file fs p = Ok (ds, idx))
     \<and> fs' = record_op (OpHardlink p q) (set_dir P (insert_child nm (NodeFile idx) d) fs)"
proof -
  obtain ds0 P0 d0 nm0 where old: "parent_entry fs p = Ok (ds0, P0, d0, nm0)"
    using assms by (cases "parent_entry fs p") (auto simp: hardlink_def)
  show ?thesis using assms old
    by (cases "resolve_file fs p"; cases "parent_entry fs q")
      (auto simp: hardlink_def split: option.splits node.splits if_splits)
qed

lemma hardlink_spec:
  assumes "hardlink p q fs = (Ok idx, fs')"
  obtains e where "names fs q e" and "entry fs e = None"
    and "\<exists>ds. resolve_file fs p = Ok (ds, idx)"
    and "entry fs' = (entry fs)(e \<mapsto> NodeFile idx)"
    and "fs' = record_op (OpHardlink p q) (with_entry (fst e) (snd e) (NodeFile idx) fs)"
proof -
  obtain ds P d nm where pe: "parent_entry fs q = Ok (ds, P, d, nm)"
    and c: "child d nm = None" "\<exists>ds. resolve_file fs p = Ok (ds, idx)"
      "fs' = record_op (OpHardlink p q) (set_dir P (insert_child nm (NodeFile idx) d) fs)"
    using hardlink_run [OF assms] by blast
  note nms = parent_entry_names [OF pe]
  have range: "dir_ix P < length (dirs fs)" using names_in_range nms by fastforce
  have fs': "fs' = record_op (OpHardlink p q) (with_entry P nm (NodeFile idx) fs)"
    using c(3) nms by (simp add: with_entry_def)
  show thesis using that [of "(P, nm)"] nms c(1,2) range by (simp add: fs' entry_pair entry_with_entry)
qed

lemma rename_run:
  assumes "rename old new fs = (Ok n, fs')"
  obtains vd ds P d nm where "nonempty_dir_at fs new = Ok False"
    "resolve_node fs old False = Ok (vd, n)" "parent_entry fs new = Ok (ds, P, d, nm)"
    "\<not> moves_below_itself n ds P"
  using assms unfolding rename_def Let_def
  by (cases "nonempty_dir_at fs new"; cases "resolve_node fs old False"; cases "parent_entry fs new")
    (auto split: if_splits)

lemma rename_spec:
  assumes "wf_fs fs" and "canonical old" and "canonical new" and "\<not> is_root new"
    and "rename old new fs = (Ok n, fs')"
  obtains e e' ds where "names fs old e" and "entry fs e = Some n"
    and "parent_entry fs new = Ok (ds, fst e', dirs fs ! dir_ix (fst e'), snd e')"
    and "\<not> moves_below_itself n ds (fst e')"
    and "entry fs' = (entry fs)(e' \<mapsto> n, e := None)"
    and "fs' = record_op (OpRename old new)
           (without_entry (fst e) (snd e) (with_entry (fst e') (snd e') n fs))"
proof -
  obtain vd ds P d nm where run: "nonempty_dir_at fs new = Ok False"
    "resolve_node fs old False = Ok (vd, n)" "parent_entry fs new = Ok (ds, P, d, nm)"
    "\<not> moves_below_itself n ds P"
    using rename_run [OF assms(5)] .
  obtain ds2 P2 nm2 where old: "parent_entry fs old = Ok (ds2, P2, dirs fs ! dir_ix P2, nm2)"
    "child (dirs fs ! dir_ix P2) nm2 = Some n"
    "rename old new fs = (Ok n, record_op (OpRename old new) (without_entry P2 nm2 (with_entry P nm n fs)))"
    using rename_succeeds [OF assms(1-4) run] by blast
  note nms = parent_entry_names [OF run(3)]
  have range: "dir_ix P < length (dirs fs)" "dir_ix P2 < length (dirs fs)"
    using names_in_range nms parent_entry_names [OF old(1)] by fastforce+
  show thesis using that [of "(P2, nm2)" ds "(P, nm)"] parent_entry_names [OF old(1)] old nms run range assms(5)
    by (simp add: entry_pair entry_with_entry entry_without_entry)
qed

subsection \<open>A failed operation changes nothing\<close>

definition atomic :: "('e, 'a) res \<times> abstract_fs \<Rightarrow> abstract_fs \<Rightarrow> bool" where
  "atomic o' fs \<longleftrightarrow> is_ok (fst o') \<or> snd o' = fs"

lemma atomic_simps [simp]:
  "atomic (Ok a, s) fs" "atomic (Err e, s) fs \<longleftrightarrow> s = fs" "atomic (Crash c, s) fs \<longleftrightarrow> s = fs"
  by (simp_all add: atomic_def)

lemma atomic_or_return [intro!]: "(\<And>a. r = Ok a \<Longrightarrow> atomic (k a) fs) \<Longrightarrow> atomic (or_return r fs k) fs"
  by (cases r) auto

lemma atomic_forget [simp]: "atomic (forget o') fs \<longleftrightarrow> atomic o' fs"
proof -
  obtain r s where o': "o' = (r, s)" by (cases o')
  show ?thesis unfolding o' by (cases r) auto
qed

lemma entry_ops_atomic [simp]:
  "atomic (remove p fs) fs" "atomic (mkdir p m fs) fs" "atomic (create p m fs) fs"
  "atomic (make_symlink t p fs) fs" "atomic (open_file p fs) fs" "atomic (close_fd i fs) fs"
  "atomic (fsync_fd i fs) fs"
  unfolding remove_def mkdir_def create_def make_symlink_def open_file_def close_fd_def fsync_fd_def Let_def
  by auto

lemma atomic_unless_symlink [intro!]:
  "atomic o' fs \<Longrightarrow> atomic o'' fs \<Longrightarrow> atomic (case x of Some (NodeSymlink _) \<Rightarrow> o'' | _ \<Rightarrow> o') fs"
  by (simp split: option.split node.split)

lemma hardlink_atomic [simp]: "atomic (hardlink p q fs) fs"
  unfolding hardlink_def by auto

lemma read_fd_is_atomic:
  assumes "wf_fs fs"
  shows "atomic (read_fd i n fs) fs"
proof (cases "open_descriptor fs i")
  case (Ok e)
  obtain des f where "e = (des, f)" by (cases e)
  with Ok have op: "opened_as fs i (des, f)" by (simp add: open_descriptor_Ok)
  obtain c fs' where "read_fd i n fs = (Ok c, fs')"
    using read_fd_open [OF assms op, of n] by blast
  then show ?thesis by simp
qed (simp_all add: read_fd_def)

lemma write_fd_is_atomic:
  assumes "wf_fs fs" and "unat src + unat n \<le> 2 ^ 64"
    and "written (ops (recording fs)) + unat n < 2 ^ 64"
  shows "atomic (write_fd i src n fs) fs"
proof (cases "open_descriptor fs i")
  case (Ok e)
  obtain des f where "e = (des, f)" by (cases e)
  with Ok have op: "opened_as fs i (des, f)" by (simp add: open_descriptor_Ok)
  have "unat (offset des) + unat n < 2 ^ 64"
    using offset_in_file(2,3) [OF assms(1) op] assms(3) by linarith
  then obtain fs' where "write_fd i src n fs = (Ok (), fs')"
    using write_fd_open [OF assms(1) op assms(2)] by blast
  then show ?thesis by simp
qed (simp_all add: write_fd_def)

lemma rename_is_atomic:
  assumes "wf_fs fs" and "canonical old" and "canonical new" and "\<not> is_root new"
  shows "atomic (rename old new fs) fs"
  using rename_atomic [OF assms prod.collapse [symmetric]] by (auto simp: atomic_def)

lemma apply_op_atomic:
  "wf_fs fs \<Longrightarrow> wf_op op \<Longrightarrow> fits op fs \<Longrightarrow> atomic (apply_op op fs) fs"
  by (cases op) (auto simp: fits_def read_fd_is_atomic write_fd_is_atomic rename_is_atomic)

subsection \<open>Reachable states\<close>

text \<open>
  The states that running operations leads to, failed ones included; a crash ends the program.
\<close>

inductive fs_reach :: "abstract_fs \<Rightarrow> bool" where
  start: "fs_reach fs_new"
| step: "\<lbrakk>fs_reach fs; wf_op op; fits op fs; apply_op op fs = (r, fs'); \<not> is_crash r\<rbrakk> \<Longrightarrow> fs_reach fs'"

inductive_cases fs_reachE: "fs_reach fs"

lemma fs_reach_wf: "fs_reach fs \<Longrightarrow> wf_fs fs"
proof (induction rule: fs_reach.induct)
  case (step fs op r fs')
  then show ?case using apply_op_good [of fs op] by simp
qed simp

text \<open>A successful operation is appended to the recording, under the descriptor it returned.\<close>

fun same_effect :: "operation \<Rightarrow> operation \<Rightarrow> bool" where
  "same_effect (OpOpen p _) op = (\<exists>des. op = OpOpen p des)"
| "same_effect op op' = (op' = op)"

lemma same_effect_apply: "same_effect op op' \<Longrightarrow> apply_op op' = apply_op op"
  by (cases op) auto

lemma forget_Ok: "forget o' = (Ok u, s) \<longleftrightarrow> (\<exists>a. o' = (Ok a, s))"
  by (cases o'; cases "fst o'") auto

lemma or_return_snd_record:
  "or_return r s k = (Ok a, s') \<Longrightarrow> (\<And>x. r = Ok x \<Longrightarrow> k x = (Ok a, s') \<Longrightarrow> Q) \<Longrightarrow> Q"
  by (cases r) auto

lemma apply_op_records:
  assumes "apply_op op fs = (Ok (), fs')"
  shows "\<exists>op'. same_effect op op' \<and> ops (recording fs') = ops (recording fs) @ [op']"
proof (cases op)
  case (OpHardlink p q)
  then show ?thesis using assms hardlink_run [of p q fs] by (fastforce simp: forget_Ok)
next
  case (OpRename p q)
  then show ?thesis using assms
    by (auto simp: forget_Ok rename_def Let_def split: if_splits)
next
  case (OpRead i n)
  then show ?thesis using assms
    by (auto simp: forget_Ok read_fd_def Let_def split: if_splits)
next
  case (OpWrite i src n)
  then show ?thesis using assms
    by (auto simp: write_fd_def Let_def split: if_splits)
qed (use assms in \<open>auto simp: forget_Ok remove_def mkdir_def create_def make_symlink_def open_file_def
      close_fd_def fsync_fd_def Let_def split: if_splits\<close>)

lemma replay_ops_append:
  "replay_ops (xs @ ys) fs = (case replay_ops xs fs of (r, fs') \<Rightarrow> or_return r fs' (\<lambda>_. replay_ops ys fs'))"
proof (induction xs arbitrary: fs)
  case (Cons x xs)
  obtain r fs' where "apply_op x fs = (r, fs')" by (cases "apply_op x fs")
  then show ?case using Cons.IH [of fs'] by (cases r) auto
qed simp

text \<open>Replaying the recording of a state rebuilds the state.\<close>

lemma fs_reach_replay: "fs_reach fs \<Longrightarrow> replay (recording fs) fs_new = (Ok (), fs)"
proof (induction rule: fs_reach.induct)
  case start
  then show ?case by (simp add: replay_def fs_new_def)
next
  case (step fs op r fs')
  show ?case
  proof (cases r)
    case (Ok u)
    then have run: "apply_op op fs = (Ok (), fs')" using step.hyps by simp
    obtain op' where op': "same_effect op op'" "ops (recording fs') = ops (recording fs) @ [op']"
      using apply_op_records [OF run] by blast
    have "replay_ops [op'] fs = (Ok (), fs')"
      using run same_effect_apply [OF op'(1)] by simp
    then show ?thesis using step.IH op'(2) by (simp add: replay_def replay_ops_append)
  next
    case (Err e)
    then have "fs' = fs"
      using apply_op_atomic [OF fs_reach_wf [OF step.hyps(1)] step.hyps(2,3)] step.hyps(4) by simp
    then show ?thesis using step.IH by simp
  qed (use step.hyps in simp)
qed

subsection \<open>The directories are a tree\<close>

definition dir_edges :: "abstract_fs \<Rightarrow> (dir_index \<times> dir_index) set" where
  "dir_edges fs = {(P, j). \<exists>nm. entry fs (P, nm) = Some (NodeDir j)}"

definition tree_fs :: "abstract_fs \<Rightarrow> bool" where
  "tree_fs fs \<longleftrightarrow>
     (\<forall>e e' j. entry fs e = Some (NodeDir j) \<longrightarrow> entry fs e' = Some (NodeDir j) \<longrightarrow> e = e')
     \<and> (\<forall>e. entry fs e \<noteq> Some (NodeDir root_index))
     \<and> acyclic (dir_edges fs)"

lemma tree_fs_new: "tree_fs fs_new"
proof -
  have "entry fs_new = (\<lambda>_. None)" by (auto simp: entry_def fs_new_def fun_eq_iff)
  then show ?thesis by (simp add: tree_fs_def dir_edges_def acyclic_def)
qed

lemma tree_fs_fewer:
  assumes "tree_fs fs" and "\<And>e j. entry fs' e = Some (NodeDir j) \<Longrightarrow> entry fs e = Some (NodeDir j)"
  shows "tree_fs fs'"
proof -
  have "dir_edges fs' \<subseteq> dir_edges fs" using assms(2) by (auto simp: dir_edges_def)
  then have "acyclic (dir_edges fs')" using assms(1) acyclic_subset by (auto simp: tree_fs_def)
  moreover have "\<forall>e e' j. entry fs' e = Some (NodeDir j) \<longrightarrow> entry fs' e' = Some (NodeDir j) \<longrightarrow> e = e'"
    using assms unfolding tree_fs_def by metis
  moreover have "\<forall>e. entry fs' e \<noteq> Some (NodeDir root_index)"
    using assms unfolding tree_fs_def by metis
  ultimately show ?thesis unfolding tree_fs_def by blast
qed

lemma tree_fs_cong: "entry fs' = entry fs \<Longrightarrow> tree_fs fs \<Longrightarrow> tree_fs fs'"
  by (rule tree_fs_fewer) auto

text \<open>Moving or adding the only entry of a directory \<open>X\<close> that is not above the new place.\<close>

lemma tree_fs_move:
  assumes "tree_fs fs" and "X \<noteq> root_index"
    and "\<And>e j. entry fs' e = Some (NodeDir j) \<Longrightarrow> e = (P, nm) \<and> j = X \<or> j \<noteq> X \<and> entry fs e = Some (NodeDir j)"
    and "(X, P) \<notin> (dir_edges fs)\<^sup>*"
  shows "tree_fs fs'"
proof -
  have "dir_edges fs' \<subseteq> insert (P, X) (dir_edges fs)" using assms(3) by (auto simp: dir_edges_def)
  moreover have "acyclic (insert (P, X) (dir_edges fs))"
    using assms(1,4) by (simp add: tree_fs_def)
  ultimately have "acyclic (dir_edges fs')" using acyclic_subset by blast
  moreover have "\<forall>e e' j. entry fs' e = Some (NodeDir j) \<longrightarrow> entry fs' e' = Some (NodeDir j) \<longrightarrow> e = e'"
    using assms(1,3) unfolding tree_fs_def by metis
  moreover have "\<forall>e. entry fs' e \<noteq> Some (NodeDir root_index)"
    using assms(1,2,3) unfolding tree_fs_def by metis
  ultimately show ?thesis unfolding tree_fs_def by blast
qed

text \<open>Resolution lists every ancestor of the directory it ends in.\<close>

definition above :: "abstract_fs \<Rightarrow> dir_index \<Rightarrow> dir_index set" where
  "above fs i = {a. (a, i) \<in> (dir_edges fs)\<^sup>+}"

lemma above_root: "tree_fs fs \<Longrightarrow> above fs root_index = {}"
  by (auto simp: above_def tree_fs_def dir_edges_def elim: trancl.cases)

lemma above_child:
  assumes "tree_fs fs" and "entry fs (i, nm) = Some (NodeDir j)"
  shows "above fs j = insert i (above fs i)"
proof -
  have only: "k = i" if "(k, j) \<in> dir_edges fs" for k
    using assms that unfolding tree_fs_def dir_edges_def by blast
  have "(i, j) \<in> dir_edges fs" using assms(2) by (auto simp: dir_edges_def)
  then have "(a, j) \<in> (dir_edges fs)\<^sup>+ \<longleftrightarrow> (a, i) \<in> (dir_edges fs)\<^sup>*" for a
    using only by (metis rtrancl_into_trancl1 tranclD2)
  then show ?thesis by (auto simp: above_def rtrancl_eq_or_trancl)
qed

definition lists_above :: "abstract_fs \<Rightarrow> dir_index list \<Rightarrow> node \<Rightarrow> bool" where
  "lists_above fs ds n \<longleftrightarrow> (\<forall>i. n = NodeDir i \<longrightarrow> above fs i \<subseteq> set ds)"

lemma walk_lists_above:
  assumes "tree_fs fs"
    and "\<And>t ds i. resolve_node_rec k fs t True [] = Ok (ds, NodeDir i) \<Longrightarrow> above fs i \<subseteq> set ds"
    and "walk (\<lambda>t. node_to_dir t (resolve_node_rec k fs t True [])) fs segs ds n p = Ok (ds', n', p')"
    and "lists_above fs ds n"
  shows "lists_above fs ds' n'"
  using assms(3,4)
proof (induction segs arbitrary: ds n p)
  case (Cons seg segs)
  obtain ds1 i x where step: "enter (\<lambda>t. node_to_dir t (resolve_node_rec k fs t True [])) fs n ds (p @ ''/'' @ seg)
      = Ok (ds1, i)" "dir_ix i < length (dirs fs)" "child (dirs fs ! dir_ix i) seg = Some x"
    "walk (\<lambda>t. node_to_dir t (resolve_node_rec k fs t True [])) fs segs ds1 x (p @ ''/'' @ seg) = Ok (ds', n', p')"
    using Cons.prems(1) unfolding walk_Cons_Ok by blast
  have "insert i (above fs i) \<subseteq> set ds1"
  proof (cases n)
    case (NodeDir j)
    then show ?thesis using step(1) Cons.prems(2) by (auto simp: enter_def lists_above_def)
  next
    case (NodeSymlink s)
    then obtain rec_dirs where "resolve_node_rec k fs (target (symlinks fs ! symlink_ix s)) True [] = Ok (rec_dirs, NodeDir i)"
      "ds1 = ds @ rec_dirs @ [i]"
      using step(1) by (auto simp: enter_def)
    then show ?thesis using assms(2) by auto
  qed (use step(1) in \<open>simp add: enter_def\<close>)
  then have "lists_above fs ds1 x"
    using above_child [OF assms(1), of i seg] step(2,3) by (auto simp: lists_above_def entry_pair)
  then show ?case using Cons.IH step(4) by blast
qed simp

lemma resolve_rec_lists_above:
  assumes "tree_fs fs" and "resolve_node_rec k fs p True v = Ok (ds, NodeDir i)"
  shows "above fs i \<subseteq> set ds"
  using assms(2)
proof (induction k arbitrary: p v ds i)
  case (Suc k)
  have start: "lists_above fs [] (NodeDir root_index)"
    using assms(1) by (simp add: lists_above_def above_root)
  show ?case using Suc.prems unfolding resolve_Suc_Ok
  proof (elim conjE exE disjE)
    fix ds0 n p'
    assume w: "walk_from_root k fs p = Ok (ds0, n, p')" and r: "(ds, NodeDir i) = (ds0, n)"
    have "lists_above fs ds0 n" by (rule walk_lists_above [OF assms(1) Suc.IH w start])
    then show ?thesis using r by (auto simp: lists_above_def)
  next
    fix ds0 n p' s ds' x
    assume "resolve_node_rec k fs (target (symlinks fs ! symlink_ix s)) True (v @ [s]) = Ok (ds', x)"
      "(ds, NodeDir i) = (ds0 @ ds', x)"
    then have "above fs i \<subseteq> set ds'" "set ds' \<subseteq> set ds" using Suc.IH by auto
    then show ?thesis by blast
  qed
qed simp

lemma resolve_dir_lists_above:
  "tree_fs fs \<Longrightarrow> resolve_dir fs p = Ok (ds, i) \<Longrightarrow> above fs i \<subseteq> set ds"
  by (auto simp: resolve_dir_def resolve_node_def dest!: resolve_rec_lists_above)

lemma not_below_new_place:
  assumes "tree_fs fs" and "parent_entry fs p = Ok (ds, P, d, nm)"
    and "\<not> moves_below_itself (NodeDir X) ds P"
  shows "(X, P) \<notin> (dir_edges fs)\<^sup>*"
proof
  assume "(X, P) \<in> (dir_edges fs)\<^sup>*"
  then have "X = P \<or> X \<in> above fs P" by (auto simp: above_def rtrancl_eq_or_trancl)
  moreover have "above fs P \<subseteq> set ds"
    using assms(2) resolve_dir_lists_above [OF assms(1)] unfolding parent_entry_Ok by blast
  ultimately show False using assms(3) by (auto simp: moves_below_itself_def)
qed

lemma tree_fs_insert_leaf:
  assumes "tree_fs fs" and "entry fs' = (entry fs)(e \<mapsto> x)" and "\<And>j. x \<noteq> NodeDir j"
  shows "tree_fs fs'"
  using assms(1) by (rule tree_fs_fewer) (use assms(2,3) in \<open>auto split: if_splits\<close>)

lemma mkdir_tree:
  assumes "wf_fs fs" and "tree_fs fs" and "mkdir p m fs = (Ok idx, fs')"
  shows "tree_fs fs'"
proof -
  obtain e where e: "names fs p e" "idx = DirIndex (length (dirs fs))"
    "entry fs' = (entry fs)(e \<mapsto> NodeDir idx)"
    using mkdir_spec [OF assms(3)] by blast
  have fresh: "entry fs e' \<noteq> Some (NodeDir idx)" for e'
    using entry_in [OF assms(1), of e' "NodeDir idx"] e(2) by auto
  have out: "(idx, j) \<notin> dir_edges fs" for j
    using e(2) by (auto simp: dir_edges_def entry_def)
  have "fst e \<noteq> idx" using names_in_range [OF e(1)] e(2) by auto
  then have "(idx, fst e) \<notin> (dir_edges fs)\<^sup>*"
    using out by (auto elim: converse_rtranclE)
  moreover have "idx \<noteq> root_index" using assms(1) e(2) by (auto simp: wf_fs_def root_index_def)
  ultimately show ?thesis
    using e(3) fresh by (intro tree_fs_move [OF assms(2), of idx fs' "fst e" "snd e"]) (auto split: if_splits)
qed

lemma rename_tree:
  assumes "wf_fs fs" and "tree_fs fs" and "canonical old" and "canonical new" and "\<not> is_root new"
    and "rename old new fs = (Ok n, fs')"
  shows "tree_fs fs'"
proof -
  obtain e e' ds where e: "entry fs e = Some n"
    "parent_entry fs new = Ok (ds, fst e', dirs fs ! dir_ix (fst e'), snd e')"
    "\<not> moves_below_itself n ds (fst e')" "entry fs' = (entry fs)(e' \<mapsto> n, e := None)"
    using rename_spec [OF assms(1,3-6)] by blast
  show ?thesis
  proof (cases n)
    case (NodeDir X)
    have "(X, fst e') \<notin> (dir_edges fs)\<^sup>*"
      using not_below_new_place [OF assms(2) e(2)] e(3) NodeDir by simp
    moreover have "X \<noteq> root_index" using assms(2) e(1) NodeDir unfolding tree_fs_def by blast
    moreover have "a = e" if "entry fs a = Some (NodeDir X)" for a
      using assms(2) e(1) NodeDir that unfolding tree_fs_def by blast
    ultimately show ?thesis using e(4) NodeDir
      by (intro tree_fs_move [OF assms(2), of X fs' "fst e'" "snd e'"]) (auto split: if_splits)
  qed (use e(4) in \<open>auto intro!: tree_fs_fewer [OF assms(2)] split: if_splits\<close>)
qed

text \<open>The operations that leave the directories alone.\<close>

fun on_descriptor :: "operation \<Rightarrow> bool" where
  "on_descriptor (OpOpen _ _) = True"
| "on_descriptor (OpClose _) = True"
| "on_descriptor (OpRead _ _) = True"
| "on_descriptor (OpWrite _ _ _) = True"
| "on_descriptor (OpFSync _) = True"
| "on_descriptor _ = False"

lemma op_keeps_entries:
  assumes "on_descriptor op" and "apply_op op fs = (Ok (), fs')"
  shows "entry fs' = entry fs"
  using assms
  by (cases op)
    (auto simp: forget_Ok open_file_def close_fd_def read_fd_def write_fd_def fsync_fd_def Let_def
      split: if_splits)

lemma apply_op_tree:
  assumes "wf_fs fs" and "tree_fs fs" and "wf_op op" and "apply_op op fs = (Ok (), fs')"
  shows "tree_fs fs'"
proof (cases op)
  case (OpMkDir p m)
  then show ?thesis using assms mkdir_tree by (auto simp: forget_Ok)
next
  case (OpCreate p m)
  then show ?thesis using assms by (auto simp: forget_Ok elim!: create_spec intro: tree_fs_insert_leaf)
next
  case (OpRemove p)
  then show ?thesis using assms
    by (auto elim!: remove_spec intro!: tree_fs_fewer [OF assms(2)] split: if_splits)
next
  case (OpHardlink p q)
  then show ?thesis using assms by (auto simp: forget_Ok elim!: hardlink_spec intro: tree_fs_insert_leaf)
next
  case (OpSymlink t p)
  then show ?thesis using assms by (auto simp: forget_Ok elim!: make_symlink_spec intro: tree_fs_insert_leaf)
next
  case (OpRename p q)
  then show ?thesis using assms rename_tree by (auto simp: forget_Ok)
qed (use assms(2,4) op_keeps_entries [OF _ assms(4)] tree_fs_cong in auto)

lemma fs_reach_tree: "fs_reach fs \<Longrightarrow> tree_fs fs"
proof (induction rule: fs_reach.induct)
  case start
  then show ?case by (rule tree_fs_new)
next
  case (step fs op r fs')
  note wf = fs_reach_wf [OF step.hyps(1)]
  show ?case
  proof (cases r)
    case (Ok u)
    then show ?thesis using apply_op_tree [OF wf step.IH step.hyps(2)] step.hyps(4) by simp
  next
    case (Err e)
    then show ?thesis using apply_op_atomic [OF wf step.hyps(2,3)] step.hyps(4) step.IH by simp
  qed (use step.hyps in simp)
qed

end
