(* ===== verification/FS_Paths.thy ===== *)
theory FS_Paths
  imports FS_Spec
begin

text \<open>
  What the operations on the tree mean for paths: a created path is found and no path that was found
  changes, a removed path is gone and nothing new appears.
\<close>

subsection \<open>Resolution in a larger map of entries\<close>

definition extends :: "abstract_fs \<Rightarrow> abstract_fs \<Rightarrow> bool" where
  "extends fs fs' \<longleftrightarrow>
     (\<forall>e x. entry fs e = Some x \<longrightarrow> entry fs' e = Some x)
     \<and> (\<forall>i < length (symlinks fs). i < length (symlinks fs') \<and> symlinks fs' ! i = symlinks fs ! i)"

lemma extends_entry:
  assumes "extends fs fs'" and "dir_ix i < length (dirs fs)" and "child (dirs fs ! dir_ix i) seg = Some x"
  shows "dir_ix i < length (dirs fs')" and "child (dirs fs' ! dir_ix i) seg = Some x"
proof -
  have "entry fs (i, seg) = Some x" using assms(2,3) by (simp add: entry_pair)
  then have "entry fs' (i, seg) = Some x" using assms(1) by (simp add: extends_def)
  then show "dir_ix i < length (dirs fs')" "child (dirs fs' ! dir_ix i) seg = Some x"
    by (auto simp: entry_def split: if_splits)
qed

lemma extends_symlink:
  assumes "extends fs fs'" and "symlink_ix s < length (symlinks fs)"
  shows "symlink_ix s < length (symlinks fs')" and "symlinks fs' ! symlink_ix s = symlinks fs ! symlink_ix s"
  using assms by (auto simp: extends_def)

lemma walk_extends:
  assumes "extends fs fs'"
    and rec: "\<And>t r. resolve_node_rec k fs t True [] = Ok r \<Longrightarrow> resolve_node_rec k fs' t True [] = Ok r"
    and "walk (\<lambda>t. node_to_dir t (resolve_node_rec k fs t True [])) fs segs ds n p = Ok r"
  shows "walk (\<lambda>t. node_to_dir t (resolve_node_rec k fs' t True [])) fs' segs ds n p = Ok r"
  using assms(3)
proof (induction segs arbitrary: ds n p)
  case (Cons seg segs)
  obtain ds1 i x where step: "enter (\<lambda>t. node_to_dir t (resolve_node_rec k fs t True [])) fs n ds (p @ ''/'' @ seg)
      = Ok (ds1, i)" "dir_ix i < length (dirs fs)" "child (dirs fs ! dir_ix i) seg = Some x"
    "walk (\<lambda>t. node_to_dir t (resolve_node_rec k fs t True [])) fs segs ds1 x (p @ ''/'' @ seg) = Ok r"
    using Cons.prems unfolding walk_Cons_Ok by blast
  have "enter (\<lambda>t. node_to_dir t (resolve_node_rec k fs' t True [])) fs' n ds (p @ ''/'' @ seg) = Ok (ds1, i)"
  proof (cases n)
    case (NodeSymlink s)
    then obtain rec_dirs where "symlink_ix s < length (symlinks fs)" "ds1 = ds @ rec_dirs @ [i]"
      "resolve_node_rec k fs (target (symlinks fs ! symlink_ix s)) True [] = Ok (rec_dirs, NodeDir i)"
      using step(1) by (auto simp: enter_def)
    then show ?thesis using NodeSymlink extends_symlink [OF assms(1)] rec by (simp add: enter_def)
  qed (use step(1) in \<open>simp_all add: enter_def\<close>)
  then show ?case using extends_entry [OF assms(1) step(2,3)] Cons.IH [OF step(4)]
    unfolding walk_Cons_Ok by blast
qed simp

lemma resolve_extends:
  assumes "extends fs fs'" and "resolve_node_rec k fs p follow v = Ok r"
  shows "resolve_node_rec k fs' p follow v = Ok r"
  using assms(2)
proof (induction k arbitrary: p follow v r)
  case (Suc k)
  have w: "walk_from_root k fs p = Ok a \<Longrightarrow> walk_from_root k fs' p = Ok a" for a
    by (rule walk_extends [OF assms(1) Suc.IH])
  show ?case using Suc.prems unfolding resolve_Suc_Ok [of k fs]
  proof (elim conjE exE disjE)
    fix ds n p'
    assume "is_valid p" "walk_from_root k fs p = Ok (ds, n, p')"
      "\<forall>s. follow \<longrightarrow> n \<noteq> NodeSymlink s" "r = (ds, n)"
    then show ?thesis using w unfolding resolve_Suc_Ok by blast
  next
    fix ds n p' s ds' x
    assume a: "is_valid p" "walk_from_root k fs p = Ok (ds, n, p')" "follow" "n = NodeSymlink s" "s \<notin> set v"
      "symlink_ix s < length (symlinks fs)" "r = (ds @ ds', x)"
      "resolve_node_rec k fs (target (symlinks fs ! symlink_ix s)) True (v @ [s]) = Ok (ds', x)"
    have "resolve_node_rec (Suc k) fs' p True v = Ok (ds @ ds', x)"
      using a w extends_symlink [OF assms(1) a(6)] Suc.IH [OF a(8)]
      by (intro resolve_Suc_symlinkI) auto
    then show ?thesis using a by simp
  qed
qed simp

lemma resolve_node_extends:
  "extends fs fs' \<Longrightarrow> resolve_node fs p follow = Ok r \<Longrightarrow> resolve_node fs' p follow = Ok r"
  by (metis resolve_node_def resolve_extends resolve_node_of_rec)

lemma resolve_dir_extends:
  "extends fs fs' \<Longrightarrow> resolve_dir fs p = Ok r \<Longrightarrow> resolve_dir fs' p = Ok r"
  by (cases r) (auto simp: resolve_dir_def intro: resolve_node_extends)

text \<open>The new entry of an operation is found at its path.\<close>

lemma names_found:
  assumes "wf_fs fs'" and "extends fs fs'" and "names fs p e" and "canonical p" and "\<not> is_root p"
    and "entry fs' e = Some x"
  shows "\<exists>ds. resolve_node fs' p False = Ok (ds, x)"
proof -
  obtain ds parent where e: "path_split p = (Ok (parent, snd e) :: (fs_error, _) res)"
    "resolve_dir fs parent = Ok (ds, fst e)"
    using assms(3) by (auto simp: names_def parent_entry_Ok)
  have "resolve_dir fs' parent = Ok (ds, fst e)" using assms(2) e(2) by (rule resolve_dir_extends)
  moreover have "child (dirs fs' ! dir_ix (fst e)) (snd e) = Some x"
    using assms(6) by (auto simp: entry_def split: if_splits)
  ultimately show ?thesis
    using lookup_by_parent [OF assms(1) canonical_child [OF assms(4,5) e(1)]] by blast
qed

lemma extends_insert:
  "\<lbrakk>entry fs e = None; entry fs' = (entry fs)(e \<mapsto> x); \<exists>sl. symlinks fs' = symlinks fs @ sl\<rbrakk> \<Longrightarrow> extends fs fs'"
  by (auto simp: extends_def nth_append)

lemma resolve_file_Ok: "resolve_file fs p = Ok (ds, i) \<longleftrightarrow> resolve_node fs p True = Ok (ds, NodeFile i)"
  by (cases "resolve_node fs p True") (auto simp: resolve_file_def node_to_file_def split: node.splits)

lemma resolve_nofollow_file:
  assumes "resolve_node fs p False = Ok (ds, NodeFile i)"
  shows "resolve_file fs p = Ok (ds, i)"
proof -
  obtain k where k: "resolve_node_rec (Suc k) fs p False [] = Ok (ds, NodeFile i)"
    using resolve_node_to_rec [OF assms] .
  have "resolve_node_rec (Suc k) fs p True [] = Ok (ds, NodeFile i)"
    using k unfolding resolve_Suc_nofollow resolve_Suc_Ok by blast
  then show ?thesis by (simp add: resolve_file_def node_to_file_def resolve_node_of_rec)
qed

lemma resolve_nofollow_dir:
  assumes "resolve_node fs p False = Ok (ds, NodeDir i)"
  shows "resolve_dir fs p = Ok (ds, i)"
proof -
  obtain k where k: "resolve_node_rec (Suc k) fs p False [] = Ok (ds, NodeDir i)"
    using resolve_node_to_rec [OF assms] .
  have "resolve_node_rec (Suc k) fs p True [] = Ok (ds, NodeDir i)"
    using k unfolding resolve_Suc_nofollow by (blast intro: resolve_Suc_dirI)
  then show ?thesis by (simp add: resolve_dir_def resolve_node_of_rec)
qed

subsection \<open>Created and removed paths\<close>

lemma create_found:
  assumes "wf_fs fs" and "canonical p" and "\<not> is_root p" and "create p m fs = (Ok i, fs')"
  shows "extends fs fs'" and "\<exists>ds. resolve_file fs' p = Ok (ds, i)" and "file_bytes fs' i = []"
proof -
  obtain e where e: "names fs p e" "entry fs e = None" "i = FileIndex (length (files fs))"
    "entry fs' = (entry fs)(e \<mapsto> NodeFile i)"
    "fs' = record_op (OpCreate p m) (with_entry (fst e) (snd e) (NodeFile i)
           (fs\<lparr>files := files fs @ [\<lparr>descriptor = None, cont = content_new\<rparr>]\<rparr>))"
    using create_spec [OF assms(4)] by blast
  show ext: "extends fs fs'" using e(2,4) by (rule extends_insert) (simp add: e(5))
  have "wf_fs fs'" using create_good [OF assms(1) canonical_slash [OF assms(2)], of m] assms(4) by simp
  then show "\<exists>ds. resolve_file fs' p = Ok (ds, i)"
    using names_found [OF _ ext e(1) assms(2,3)] e(4) resolve_nofollow_file by fastforce
  show "file_bytes fs' i = []" by (simp add: e(3,5) file_bytes_def)
qed

lemma mkdir_found:
  assumes "wf_fs fs" and "canonical p" and "\<not> is_root p" and "mkdir p m fs = (Ok i, fs')"
  shows "extends fs fs'" and "\<exists>ds. resolve_dir fs' p = Ok (ds, i)" and "\<forall>nm. entry fs' (i, nm) = None"
proof -
  obtain e where e: "names fs p e" "entry fs e = None" "i = DirIndex (length (dirs fs))"
    "entry fs' = (entry fs)(e \<mapsto> NodeDir i)"
    "fs' = record_op (OpMkDir p m)
           (with_entry (fst e) (snd e) (NodeDir i) (fs\<lparr>dirs := dirs fs @ [\<lparr>children = []\<rparr>]\<rparr>))"
    using mkdir_spec [OF assms(4)] by blast
  show ext: "extends fs fs'" using e(2,4) by (rule extends_insert) (simp add: e(5))
  have "wf_fs fs'" using mkdir_good [OF assms(1) canonical_slash [OF assms(2)], of m] assms(4) by simp
  then show "\<exists>ds. resolve_dir fs' p = Ok (ds, i)"
    using names_found [OF _ ext e(1) assms(2,3)] e(4) resolve_nofollow_dir by fastforce
  show "\<forall>nm. entry fs' (i, nm) = None"
    using names_in_range [OF e(1)] by (auto simp: e(3,4) entry_def)
qed

lemma remove_gone:
  assumes "wf_fs fs" and "canonical p" and "remove p fs = (Ok (), fs')"
  shows "extends fs' fs" and "\<forall>r. resolve_node fs' p False \<noteq> Ok r"
proof -
  obtain e where e: "names fs p e" "entry fs' = (entry fs)(e := None)"
    "fs' = record_op (OpRemove p) (without_entry (fst e) (snd e) fs)"
    using remove_spec [OF assms(3)] by blast
  have "symlinks fs' = symlinks fs" by (simp add: e(3))
  then show ext: "extends fs' fs" by (simp add: extends_def e(2))
  have nonroot: "\<not> is_root p" using assms(3) by (auto simp: remove_def)
  have wf': "wf_fs fs'" using remove_good [OF assms(1) canonical_slash [OF assms(2)]] assms(3) by simp
  obtain ds parent where p: "path_split p = (Ok (parent, snd e) :: (fs_error, _) res)"
    "resolve_dir fs parent = Ok (ds, fst e)"
    using e(1) by (auto simp: names_def parent_entry_Ok)
  show "\<forall>r. resolve_node fs' p False \<noteq> Ok r"
  proof (intro allI notI)
    fix r
    assume r: "resolve_node fs' p False = Ok r"
    obtain ds' x where "r = (ds', x)" by (cases r)
    with r obtain ds2 P where P: "resolve_dir fs' parent = Ok (ds2, P)"
      "child (dirs fs' ! dir_ix P) (snd e) = Some x"
      using lookup_by_parent [OF wf' canonical_child [OF assms(2) nonroot p(1)], of x] by blast
    have "P = fst e" using resolve_dir_extends [OF ext P(1)] p(2) by simp
    moreover have "dir_ix P < length (dirs fs')"
      using sound_D [OF resolve_dir_sound [OF wf'] P(1)] by (simp add: dir_in_def)
    ultimately have "entry fs' e = Some x" using P(2) by (simp add: entry_def)
    then show False by (simp add: e(2))
  qed
qed

end
