(* ===== verification/Alive.thy ===== *)
theory Alive
  imports FS_Paths
begin

text \<open>
  \<open>AbstractFS::alive\<close> of \<open>abstract_fs/fs.rs\<close>: the nodes accessible from the root, by a breadth-first
  search that collects the directories behind symlinks in a second queue and searches them next.

  The loop \<open>while let Some(..) = queue.pop_front()\<close> is \<open>alive_bfs\<close> with fuel; \<open>None\<close> is a loop that has
  not ended. For a tree of directories the search below one directory takes one step per directory
  below it, so \<open>length queue * length (dirs fs)\<close> steps are enough (\<open>alive_bfs_ends\<close>).
\<close>

subsection \<open>The search\<close>

record alive_nodes =
  al_dirs :: "(dir_index \<times> pathname) list"
  al_files :: "(file_index \<times> pathname) list"
  al_files_symlinked :: "(file_index \<times> pathname) list"
  al_symlinks :: "pathname list"

type_synonym dir_queue = "(pathname \<times> dir_index) list"

definition MAX_SYMLINK_FOLLOW :: nat where
  "MAX_SYMLINK_FOLLOW = 2"

text \<open>One child of the directory at \<open>dir_path\<close>: the state is the nodes, the queue and the next queue.\<close>

fun visit_child ::
    "abstract_fs \<Rightarrow> pathname \<Rightarrow> name \<times> node \<Rightarrow> alive_nodes \<times> dir_queue \<times> dir_queue \<Rightarrow>
     (fs_error, alive_nodes \<times> dir_queue \<times> dir_queue) res" where
  "visit_child fs dir_path (child_name, NodeDir idx) (al, queue, follow_next) =
     (let path = path_join dir_path child_name
      in Ok (al\<lparr>al_dirs := al_dirs al @ [(idx, path)]\<rparr>, queue @ [(path, idx)], follow_next))"
| "visit_child fs dir_path (child_name, NodeFile idx) (al, queue, follow_next) =
     Ok (al\<lparr>al_files := al_files al @ [(idx, path_join dir_path child_name)]\<rparr>, queue, follow_next)"
| "visit_child fs dir_path (child_name, NodeSymlink idx) (al, queue, follow_next) =
     (let path = path_join dir_path child_name;
          al' = al\<lparr>al_symlinks := al_symlinks al @ [path]\<rparr>
      in and_then (get_sym fs idx) (\<lambda>s.
           case resolve_node fs (target s) True of
             Ok (_, NodeFile i) \<Rightarrow>
               Ok (al'\<lparr>al_files_symlinked := al_files_symlinked al' @ [(i, path)]\<rparr>, queue, follow_next)
           | Ok (_, NodeDir i) \<Rightarrow>
               Ok (al'\<lparr>al_dirs := al_dirs al' @ [(i, path)]\<rparr>, queue, follow_next @ [(path, i)])
           | Ok (_, NodeSymlink _) \<Rightarrow> Ok (al', queue, follow_next)
           | Err _ \<Rightarrow> Ok (al', queue, follow_next)
           | Crash c \<Rightarrow> Crash c))"

fun visit_children ::
    "abstract_fs \<Rightarrow> pathname \<Rightarrow> (name \<times> node) list \<Rightarrow> alive_nodes \<times> dir_queue \<times> dir_queue \<Rightarrow>
     (fs_error, alive_nodes \<times> dir_queue \<times> dir_queue) res" where
  "visit_children fs dir_path [] st = Ok st"
| "visit_children fs dir_path (c # cs) st =
     and_then (visit_child fs dir_path c st) (visit_children fs dir_path cs)"

fun alive_bfs ::
    "nat \<Rightarrow> abstract_fs \<Rightarrow> alive_nodes \<times> dir_queue \<times> dir_queue \<Rightarrow>
     (fs_error, alive_nodes \<times> dir_queue) res option" where
  "alive_bfs fuel fs (al, [], follow_next) = Some (Ok (al, follow_next))"
| "alive_bfs 0 fs (al, q # queue, follow_next) = None"
| "alive_bfs (Suc fuel) fs (al, (dir_path, idx) # queue, follow_next) =
     (case and_then (get_dir fs idx) (\<lambda>d.
             visit_children fs dir_path (children d) (al, queue, follow_next)) of
        Ok st \<Rightarrow> alive_bfs fuel fs st
      | Err e \<Rightarrow> Some (Err e)
      | Crash c \<Rightarrow> Some (Crash c))"

definition alive_follow_once ::
    "abstract_fs \<Rightarrow> alive_nodes \<Rightarrow> dir_queue \<Rightarrow> (fs_error, alive_nodes \<times> dir_queue) res option" where
  "alive_follow_once fs al queue = alive_bfs (length queue * length (dirs fs)) fs (al, queue, [])"

primrec alive_rounds ::
    "nat \<Rightarrow> abstract_fs \<Rightarrow> alive_nodes \<Rightarrow> dir_queue \<Rightarrow> (fs_error, alive_nodes) res option" where
  "alive_rounds 0 fs al queue = Some (Ok al)"
| "alive_rounds (Suc n) fs al queue =
     (case alive_follow_once fs al queue of
        None \<Rightarrow> None
      | Some (Ok (al', queue')) \<Rightarrow> alive_rounds n fs al' queue'
      | Some (Err e) \<Rightarrow> Some (Err e)
      | Some (Crash c) \<Rightarrow> Some (Crash c))"

definition sort_alive :: "alive_nodes \<Rightarrow> alive_nodes" where
  "sort_alive al =
     \<lparr>al_dirs = sort (al_dirs al), al_files = sort (al_files al),
      al_files_symlinked = sort (al_files_symlinked al), al_symlinks = sort (al_symlinks al)\<rparr>"

definition alive :: "abstract_fs \<Rightarrow> (fs_error, alive_nodes) res option" where
  "alive fs =
     map_option (\<lambda>r. and_then r (\<lambda>al. Ok (sort_alive al)))
       (alive_rounds MAX_SYMLINK_FOLLOW fs
          \<lparr>al_dirs = [(root_index, ''/'')], al_files = [], al_files_symlinked = [], al_symlinks = []\<rparr>
          [(''/'', root_index)])"

subsection \<open>The search ends\<close>

definition below :: "abstract_fs \<Rightarrow> dir_index \<Rightarrow> dir_index set" where
  "below fs i = {j. (i, j) \<in> (dir_edges fs)\<^sup>*}"

lemma dir_index_image: "{i. dir_ix i < n} = DirIndex ` {..<n}"
proof -
  have "i \<in> DirIndex ` {..<n}" if "dir_ix i < n" for i
    using that by (cases i) simp
  then show ?thesis by auto
qed

lemma below_in_range:
  assumes "wf_fs fs" and "dir_ix i < length (dirs fs)"
  shows "below fs i \<subseteq> {j. dir_ix j < length (dirs fs)}"
proof
  fix j
  assume "j \<in> below fs i"
  then have "(i, j) \<in> (dir_edges fs)\<^sup>*" by (simp add: below_def)
  then show "j \<in> {j. dir_ix j < length (dirs fs)}"
    using assms by induction (auto simp: dir_edges_def dest: entry_in)
qed

lemma below_card:
  assumes "wf_fs fs" and "dir_ix i < length (dirs fs)"
  shows "finite (below fs i)" and "card (below fs i) \<le> length (dirs fs)"
proof -
  have f: "finite {j. dir_ix j < length (dirs fs)}" by (simp add: dir_index_image)
  show "finite (below fs i)" using below_in_range [OF assms] f by (rule finite_subset)
  have "card (below fs i) \<le> card {j. dir_ix j < length (dirs fs)}"
    by (rule card_mono [OF f below_in_range [OF assms]])
  also have "\<dots> = length (dirs fs)" by (simp add: dir_index_image card_image inj_on_def)
  finally show "card (below fs i) \<le> length (dirs fs)" .
qed

fun only_dirs :: "(name \<times> node) list \<Rightarrow> dir_index list" where
  "only_dirs [] = []"
| "only_dirs ((n, NodeDir j) # cs) = j # only_dirs cs"
| "only_dirs (c # cs) = only_dirs cs"

definition child_dirs :: "dir_node \<Rightarrow> dir_index list" where
  "child_dirs d = only_dirs (children d)"

lemma only_dirs_set: "j \<in> set (only_dirs cs) \<longleftrightarrow> (\<exists>n. (n, NodeDir j) \<in> set cs)"
  by (induction cs rule: only_dirs.induct) auto

lemma child_dirs_set:
  assumes "wf_fs fs" and "dir_ix i < length (dirs fs)"
  shows "set (child_dirs (dirs fs ! dir_ix i)) = {j. (i, j) \<in> dir_edges fs}"
proof -
  have "keys_distinct (children (dirs fs ! dir_ix i))"
    using wf_fs_dir [OF assms] by (simp add: wf_dir_def)
  then have "(n, x) \<in> set (children (dirs fs ! dir_ix i)) \<longleftrightarrow> entry fs (i, n) = Some x" for n x
    using assms(2) by (simp add: entry_pair child_def)
  then show ?thesis by (auto simp: child_dirs_def dir_edges_def only_dirs_set)
qed

lemma child_dirs_distinct:
  assumes "wf_fs fs" and "tree_fs fs" and "dir_ix i < length (dirs fs)"
  shows "distinct (child_dirs (dirs fs ! dir_ix i))"
proof -
  let ?cs = "children (dirs fs ! dir_ix i)"
  have keys: "keys_distinct ?cs" using wf_fs_dir [OF assms(1,3)] by (simp add: wf_dir_def)
  have entries: "entry fs (i, n) = Some x" if "(n, x) \<in> set ?cs" for n x
    using keys that assms(3) by (simp add: entry_pair child_def)
  have "distinct (only_dirs cs)" if "set cs \<subseteq> set ?cs" "keys_distinct cs" for cs
    using that
  proof (induction cs rule: only_dirs.induct)
    case (2 n j cs)
    have "(m, NodeDir j) \<notin> set cs" for m
    proof
      assume m: "(m, NodeDir j) \<in> set cs"
      then have "entry fs (i, m) = Some (NodeDir j)" "entry fs (i, n) = Some (NodeDir j)"
        using "2.prems"(1) entries by auto
      then have "m = n" using assms(2) unfolding tree_fs_def by blast
      then show False using m "2.prems"(2) by force
    qed
    then show ?case using "2.IH" "2.prems" by (simp add: only_dirs_set)
  qed simp_all
  from this [of ?cs] keys show ?thesis by (simp add: child_dirs_def)
qed

lemma tree_single_valued: "tree_fs fs \<Longrightarrow> single_valued ((dir_edges fs)\<inverse>)"
  unfolding single_valued_def dir_edges_def tree_fs_def by blast

lemma below_disjoint:
  assumes "tree_fs fs" and "(i, j) \<in> dir_edges fs" and "(i, j') \<in> dir_edges fs" and "j \<noteq> j'"
  shows "below fs j \<inter> below fs j' = {}"
proof (rule ccontr)
  let ?E = "dir_edges fs"
  assume "below fs j \<inter> below fs j' \<noteq> {}"
  then obtain k where "(j, k) \<in> ?E\<^sup>*" "(j', k) \<in> ?E\<^sup>*" by (auto simp: below_def)
  then have "(j, j') \<in> ?E\<^sup>* \<or> (j', j) \<in> ?E\<^sup>*"
    using single_valued_confluent [OF tree_single_valued [OF assms(1)], of k j j']
    by (auto simp: rtrancl_converse)
  moreover have "(i, i) \<in> ?E\<^sup>+" if up: "(a, b) \<in> ?E\<^sup>*" "a \<noteq> b" and down: "(i, a) \<in> ?E" "(i, b) \<in> ?E" for a b
  proof -
    obtain c where c: "(a, c) \<in> ?E\<^sup>*" "(c, b) \<in> ?E" using up by (blast elim: rtranclE)
    then have "c = i" using tree_single_valued [OF assms(1)] down(2) by (auto simp: single_valued_def)
    then show ?thesis using c(1) down(1) by (simp add: rtrancl_into_trancl2)
  qed
  ultimately have "(i, i) \<in> ?E\<^sup>+" using assms(2-4) by metis
  then show False using assms(1) by (simp add: tree_fs_def acyclic_def)
qed

lemma below_unfold: "below fs i = insert i (\<Union>j \<in> {j. (i, j) \<in> dir_edges fs}. below fs j)"
  by (auto simp: below_def elim: converse_rtranclE intro: converse_rtrancl_into_rtrancl)

lemma below_children:
  assumes "wf_fs fs" and "tree_fs fs" and "dir_ix i < length (dirs fs)"
  shows "Suc (sum_list (map (\<lambda>j. card (below fs j)) (child_dirs (dirs fs ! dir_ix i)))) = card (below fs i)"
proof -
  let ?cs = "child_dirs (dirs fs ! dir_ix i)"
  note cs = child_dirs_set [OF assms(1,3)]
  have kid_range: "dir_ix j < length (dirs fs)" if "j \<in> set ?cs" for j
    using that entry_in [OF assms(1)] unfolding cs by (fastforce simp: dir_edges_def)
  have "i \<notin> below fs j" if "j \<in> set ?cs" for j
  proof
    assume "i \<in> below fs j"
    then have "(i, i) \<in> (dir_edges fs)\<^sup>+" using that unfolding cs below_def
      by (auto intro: rtrancl_into_trancl2)
    then show False using assms(2) by (simp add: tree_fs_def acyclic_def)
  qed
  moreover have fin: "finite (below fs j)" if "j \<in> set ?cs" for j
    using below_card(1) [OF assms(1) kid_range [OF that]] .
  ultimately have "card (below fs i) = Suc (card (\<Union>j \<in> set ?cs. below fs j))"
    using below_unfold [of fs i] unfolding cs [symmetric] by simp
  also have "card (\<Union>j \<in> set ?cs. below fs j) = (\<Sum>j \<in> set ?cs. card (below fs j))"
  proof (rule card_UN_disjoint)
    show "\<forall>j \<in> set ?cs. \<forall>j' \<in> set ?cs. j \<noteq> j' \<longrightarrow> below fs j \<inter> below fs j' = {}"
      using below_disjoint [OF assms(2)] unfolding cs by blast
  qed (use fin in simp_all)
  also have "\<dots> = sum_list (map (\<lambda>j. card (below fs j)) ?cs)"
    by (rule sum_list_distinct_conv_sum_set [symmetric, OF child_dirs_distinct [OF assms]])
  finally show ?thesis by simp
qed

subsection \<open>Valid names\<close>

definition names_valid :: "abstract_fs \<Rightarrow> bool" where
  "names_valid fs \<longleftrightarrow> (\<forall>e x. entry fs e = Some x \<longrightarrow> valid_name (snd e))"

lemma names_valid_new: "names_valid fs_new"
  by (simp add: names_valid_def entry_def fs_new_def)

lemma canonical_child_name:
  assumes "canonical p" and "\<not> is_root p" and "path_split p = (Ok (parent, nm) :: (fs_error, _) res)"
  shows "valid_name nm" and "canonical parent" and "p = path_join parent nm"
proof -
  have "valid_name nm \<and> canonical parent \<and> p = path_join parent nm"
    using assms(2,3) by (cases rule: canonicalE [OF assms(1), where 'a = fs_error]) (auto simp: is_root_def)
  then show "valid_name nm" "canonical parent" "p = path_join parent nm" by simp_all
qed

text \<open>The name of the entry that an operation may add.\<close>

definition last_name :: "pathname \<Rightarrow> name" where
  "last_name p = (case (path_split p :: (fs_error, pathname \<times> name) res) of Ok (_, nm) \<Rightarrow> nm | _ \<Rightarrow> [])"

fun new_entry_name :: "operation \<Rightarrow> name option" where
  "new_entry_name (OpMkDir p _) = Some (last_name p)"
| "new_entry_name (OpCreate p _) = Some (last_name p)"
| "new_entry_name (OpHardlink _ p) = Some (last_name p)"
| "new_entry_name (OpRename _ p) = Some (last_name p)"
| "new_entry_name (OpSymlink _ p) = Some (last_name p)"
| "new_entry_name _ = None"

lemma names_last_name: "names fs p e \<Longrightarrow> last_name p = snd e"
  by (auto simp: names_def parent_entry_Ok last_name_def)

lemma last_name_valid: "canonical p \<Longrightarrow> \<not> is_root p \<Longrightarrow> valid_name (last_name p)"
  by (cases rule: canonicalE [where 'a = fs_error]) (auto simp: last_name_def is_root_def)

lemma apply_op_entry_names:
  assumes "wf_fs fs" and "wf_op op" and "apply_op op fs = (Ok (), fs')" and "entry fs' e = Some x"
  shows "entry fs e \<noteq> None \<or> new_entry_name op = Some (snd e)"
proof (cases op)
  case (OpMkDir p m)
  then show ?thesis using assms(3,4)
    by (auto simp: forget_Ok elim!: mkdir_spec dest: names_last_name split: if_splits)
next
  case (OpCreate p m)
  then show ?thesis using assms(3,4)
    by (auto simp: forget_Ok elim!: create_spec dest: names_last_name split: if_splits)
next
  case (OpRemove p)
  then show ?thesis using assms(3,4) by (auto elim!: remove_spec split: if_splits)
next
  case (OpHardlink p q)
  then show ?thesis using assms(3,4)
    by (auto simp: forget_Ok elim!: hardlink_spec dest: names_last_name split: if_splits)
next
  case (OpSymlink t p)
  then show ?thesis using assms(3,4)
    by (auto simp: forget_Ok elim!: make_symlink_spec dest: names_last_name split: if_splits)
next
  case (OpRename p q)
  then obtain n where run: "rename p q fs = (Ok n, fs')" and paths: "canonical p" "canonical q" "\<not> is_root q"
    using assms by (auto simp: forget_Ok)
  obtain a a' ds where a: "parent_entry fs q = Ok (ds, fst a', dirs fs ! dir_ix (fst a'), snd a')"
    "entry fs' = (entry fs)(a' \<mapsto> n, a := None)"
    using rename_spec [OF assms(1) paths run] by blast
  have "last_name q = snd a'" using a(1) names_last_name unfolding names_def by blast
  then show ?thesis using OpRename a(2) assms(4) by (auto split: if_splits)
qed (use assms(3,4) op_keeps_entries [OF _ assms(3)] in simp_all)

lemma wf_op_new_name: "wf_op op \<Longrightarrow> new_entry_name op = Some nm \<Longrightarrow> valid_name nm"
  by (cases op) (auto intro: last_name_valid)

lemma apply_op_names:
  assumes "wf_fs fs" and "names_valid fs" and "wf_op op" and "apply_op op fs = (Ok (), fs')"
  shows "names_valid fs'"
  unfolding names_valid_def
proof (intro allI impI)
  fix e x
  assume "entry fs' e = Some x"
  then have "entry fs e \<noteq> None \<or> new_entry_name op = Some (snd e)"
    by (rule apply_op_entry_names [OF assms(1,3,4)])
  then show "valid_name (snd e)"
    using assms(2) wf_op_new_name [OF assms(3)] by (cases e) (fastforce simp: names_valid_def)
qed

lemma fs_reach_names: "fs_reach fs \<Longrightarrow> names_valid fs"
proof (induction rule: fs_reach.induct)
  case start
  then show ?case by (rule names_valid_new)
next
  case (step fs op r fs')
  note wf = fs_reach_wf [OF step.hyps(1)]
  show ?case
  proof (cases r)
    case (Ok u)
    then show ?thesis using apply_op_names [OF wf step.IH step.hyps(2)] step.hyps(4) by simp
  next
    case (Err e)
    then show ?thesis using apply_op_atomic [OF wf step.hyps(2,3)] step.hyps(4) step.IH by simp
  qed (use step.hyps in simp)
qed

text \<open>The three invariants together.\<close>

definition inv_fs :: "abstract_fs \<Rightarrow> bool" where
  "inv_fs fs \<longleftrightarrow> wf_fs fs \<and> tree_fs fs \<and> names_valid fs"

lemma inv_fsD: "inv_fs fs \<Longrightarrow> wf_fs fs" "inv_fs fs \<Longrightarrow> tree_fs fs" "inv_fs fs \<Longrightarrow> names_valid fs"
  by (simp_all add: inv_fs_def)

lemma fs_reach_inv: "fs_reach fs \<Longrightarrow> inv_fs fs"
  by (simp add: inv_fs_def fs_reach_wf fs_reach_tree fs_reach_names)

subsection \<open>What is listed is there\<close>

definition leads_to_dir :: "abstract_fs \<Rightarrow> pathname \<Rightarrow> dir_index \<Rightarrow> bool" where
  "leads_to_dir fs p i \<longleftrightarrow> canonical p \<and> (\<exists>ds. resolve_dir fs p = Ok (ds, i))"

definition entry_at :: "abstract_fs \<Rightarrow> pathname \<Rightarrow> node \<Rightarrow> bool" where
  "entry_at fs p x \<longleftrightarrow> canonical p \<and> \<not> is_root p \<and> (\<exists>ds. resolve_node fs p False = Ok (ds, x))"

definition leads_to_file :: "abstract_fs \<Rightarrow> pathname \<Rightarrow> file_index \<Rightarrow> bool" where
  "leads_to_file fs p i \<longleftrightarrow> canonical p \<and> (\<exists>ds. resolve_file fs p = Ok (ds, i))"

definition alive_sound :: "abstract_fs \<Rightarrow> alive_nodes \<Rightarrow> bool" where
  "alive_sound fs al \<longleftrightarrow>
     (root_index, ''/'') \<in> set (al_dirs al)
     \<and> (\<forall>(i, p) \<in> set (al_dirs al). leads_to_dir fs p i \<and> (is_root p \<or> (\<exists>x. entry_at fs p x)))
     \<and> (\<forall>(i, p) \<in> set (al_files al). entry_at fs p (NodeFile i))
     \<and> (\<forall>(i, p) \<in> set (al_files_symlinked al). leads_to_file fs p i \<and> (\<exists>s. entry_at fs p (NodeSymlink s)))
     \<and> (\<forall>p \<in> set (al_symlinks al). \<exists>s. entry_at fs p (NodeSymlink s))"

definition queue_sound :: "abstract_fs \<Rightarrow> dir_queue \<Rightarrow> bool" where
  "queue_sound fs q \<longleftrightarrow> (\<forall>(p, i) \<in> set q. leads_to_dir fs p i)"

lemma canonical_join_parts:
  assumes "canonical p" and "valid_name n"
  shows "segments (path_join p n) = segments p @ [n]" "is_valid (path_join p n)" "is_valid p"
    "\<not> is_root (path_join p n)" "canonical (path_join p n)"
    "path_split (path_join p n) = (Ok (p, n) :: (fs_error, _) res)"
proof -
  show c: "canonical (path_join p n)" using assms by (rule canonical_join)
  show v: "is_valid p" using assms(1) by (rule canonical_valid)
  show s: "path_split (path_join p n) = (Ok (p, n) :: (fs_error, _) res)"
    using assms(2) v by (intro path_split_join) (auto simp: valid_name_def is_valid_def)
  show r: "\<not> is_root (path_join p n)"
    using assms v by (cases p) (auto simp: path_join_def is_root_def valid_name_def is_valid_def)
  show "segments (path_join p n) = segments p @ [n]" "is_valid (path_join p n)"
    using canonical_child [OF c r s] by simp_all
qed

lemma entry_at_child:
  assumes "inv_fs fs" and "leads_to_dir fs p i" and "entry fs (i, n) = Some x"
  shows "entry_at fs (path_join p n) x"
proof -
  have n: "valid_name n" using inv_fsD(3) [OF assms(1)] assms(3) by (fastforce simp: names_valid_def)
  have p: "canonical p" using assms(2) by (simp add: leads_to_dir_def)
  have "child (dirs fs ! dir_ix i) n = Some x" using assms(3) by (auto simp: entry_def split: if_splits)
  then have "\<exists>ds. resolve_node fs (path_join p n) False = Ok (ds, x)"
    using assms(2) lookup_by_parent [OF inv_fsD(1) [OF assms(1)] canonical_join_parts(1-3) [OF p n], of x]
    by (auto simp: leads_to_dir_def)
  then show ?thesis using canonical_join_parts [OF p n] by (simp add: entry_at_def)
qed

lemma entry_at_dir: "entry_at fs p (NodeDir j) \<Longrightarrow> leads_to_dir fs p j"
  by (auto simp: entry_at_def leads_to_dir_def dest: resolve_nofollow_dir)

lemma entry_at_symlink_dir:
  assumes "entry_at fs p (NodeSymlink s)" and "symlink_ix s < length (symlinks fs)"
    and "resolve_node fs (target (symlinks fs ! symlink_ix s)) True = Ok (ds, NodeDir j)"
  shows "leads_to_dir fs p j"
proof -
  obtain ds' where "resolve_node fs p False = Ok (ds', NodeSymlink s)" and p: "canonical p"
    using assms(1) by (auto simp: entry_at_def)
  then obtain k where "resolve_node_rec (Suc k) fs p False [] = Ok (ds', NodeSymlink s)"
    using resolve_node_to_rec by blast
  then obtain p' where "walk_from_root k fs p = Ok (ds', NodeSymlink s, p')"
    unfolding resolve_Suc_nofollow by blast
  moreover have "leads fs (NodeSymlink s) j"
    using assms(2,3) unfolding resolve_node_def by (rule leads_symlinkI)
  ultimately show ?thesis using p resolve_dir_of_walk canonical_valid by (auto simp: leads_to_dir_def)
qed

lemma entry_at_symlink_file:
  assumes "entry_at fs p (NodeSymlink s)" and "symlink_ix s < length (symlinks fs)"
    and "resolve_node fs (target (symlinks fs ! symlink_ix s)) True = Ok (ds, NodeFile j)"
  shows "leads_to_file fs p j"
proof -
  let ?t = "target (symlinks fs ! symlink_ix s)"
  obtain ds' where r: "resolve_node fs p False = Ok (ds', NodeSymlink s)" and p: "canonical p"
    using assms(1) by (auto simp: entry_at_def)
  obtain k where k: "resolve_node_rec (Suc k) fs p False [] = Ok (ds', NodeSymlink s)"
    using resolve_node_to_rec [OF r] .
  then obtain p' where w: "walk_from_root k fs p = Ok (ds', NodeSymlink s, p')"
    unfolding resolve_Suc_nofollow by blast
  have "resolve_node_rec (resolve_depth fs) fs ?t True [] = Ok (ds, NodeFile j)"
    using assms(3) by (simp add: resolve_node_def)
  then obtain k1 where k1: "resolve_node_rec k1 fs ?t True [s] = Ok (ds, NodeFile j)"
    using resolve_visited_self [OF _ refl] by blast
  have "walk_from_root (max k k1) fs p = Ok (ds', NodeSymlink s, p')"
    using w by (rule walk_from_root_deeper) simp
  moreover have "resolve_node_rec (max k k1) fs ?t True ([] @ [s]) = Ok (ds, NodeFile j)"
    using resolve_deeper [OF k1] by simp
  ultimately have "resolve_node_rec (Suc (max k k1)) fs p True [] = Ok (ds' @ ds, NodeFile j)"
    using canonical_valid [OF p] assms(2) by (intro resolve_Suc_symlinkI) simp_all
  then show ?thesis using p resolve_node_of_rec
    by (fastforce simp: leads_to_file_def resolve_file_def node_to_file_def)
qed

subsection \<open>The search is sound and ends\<close>

text \<open>An outcome that satisfies \<open>P\<close>, unless a symlink overflows the stack; never an error or a panic.\<close>

definition safe :: "('a \<Rightarrow> bool) \<Rightarrow> ('e, 'a) res \<Rightarrow> bool" where
  "safe P r \<longleftrightarrow> (case r of Ok a \<Rightarrow> P a | Err _ \<Rightarrow> False | Crash c \<Rightarrow> c = StackOverflow)"

lemma safe_simps [simp]:
  "safe P (Ok a) \<longleftrightarrow> P a" "\<not> safe P (Err e)" "safe P (Crash c) \<longleftrightarrow> c = StackOverflow"
  by (simp_all add: safe_def)

lemma safe_and_then: "safe P r \<Longrightarrow> (\<And>a. P a \<Longrightarrow> r = Ok a \<Longrightarrow> safe Q (f a)) \<Longrightarrow> safe Q (and_then r f)"
  by (cases r) auto

definition search_sound ::
    "abstract_fs \<Rightarrow> dir_index list \<Rightarrow> alive_nodes \<times> dir_queue \<times> dir_queue \<Rightarrow> bool" where
  "search_sound fs js st \<longleftrightarrow>
     (case st of (al, queue, follow_next) \<Rightarrow>
        alive_sound fs al \<and> queue_sound fs queue \<and> queue_sound fs follow_next \<and> map snd queue = js)"

lemma visit_child_sound:
  assumes "inv_fs fs" and "leads_to_dir fs dir_path i" and "entry fs (i, n) = Some x"
    and "search_sound fs js (al, queue, follow_next)"
  shows "safe (search_sound fs (js @ only_dirs [(n, x)])) (visit_child fs dir_path (n, x) (al, queue, follow_next))"
proof -
  let ?p = "path_join dir_path n"
  have at: "entry_at fs ?p x" using assms(1-3) by (rule entry_at_child)
  show ?thesis
  proof (cases x)
    case (NodeFile f)
    then show ?thesis using assms(4) at
      by (auto simp: search_sound_def alive_sound_def)
  next
    case (NodeDir j)
    then show ?thesis using assms(4) at entry_at_dir [of fs ?p j]
      by (auto simp: search_sound_def alive_sound_def queue_sound_def Let_def)
  next
    case (NodeSymlink s)
    have s: "symlink_ix s < length (symlinks fs)"
      using entry_in [OF inv_fsD(1) [OF assms(1)] assms(3)] NodeSymlink by simp
    let ?r = "resolve_node fs (target (symlinks fs ! symlink_ix s)) True"
    have no_panic: "?r \<noteq> Crash Panicked"
      using resolve_node_sound [OF inv_fsD(1) [OF assms(1)], of "target (symlinks fs ! symlink_ix s)" True] by auto
    show ?thesis
    proof (cases ?r)
      case (Ok a)
      obtain ds m where a: "a = (ds, m)" by (cases a)
      show ?thesis
      proof (cases m)
        case (NodeFile f)
        then show ?thesis using \<open>x = _\<close> assms(4) at entry_at_symlink_file [of fs ?p s ds f] s Ok a
          by (auto simp: search_sound_def alive_sound_def Let_def)
      next
        case (NodeDir j)
        then show ?thesis using \<open>x = _\<close> assms(4) at entry_at_symlink_dir [of fs ?p s ds j] s Ok a
          by (auto simp: search_sound_def alive_sound_def queue_sound_def Let_def)
      next
        case inner: (NodeSymlink s')
        then show ?thesis using \<open>x = _\<close> assms(4) at s Ok a
          by (auto simp: search_sound_def alive_sound_def Let_def)
      qed
    next
      case (Err e)
      then show ?thesis using NodeSymlink assms(4) at s
        by (auto simp: search_sound_def alive_sound_def Let_def)
    next
      case (Crash c)
      then show ?thesis using NodeSymlink s no_panic by (cases c) (simp_all add: Let_def)
    qed
  qed
qed

lemma only_dirs_Cons: "only_dirs (c # cs) = only_dirs [c] @ only_dirs cs"
  by (cases c; cases "snd c") auto

lemma visit_children_sound:
  assumes "inv_fs fs" and "leads_to_dir fs dir_path i"
    and "\<And>n x. (n, x) \<in> set cs \<Longrightarrow> entry fs (i, n) = Some x"
    and "search_sound fs js st"
  shows "safe (search_sound fs (js @ only_dirs cs)) (visit_children fs dir_path cs st)"
  using assms(3,4)
proof (induction cs arbitrary: js st)
  case (Cons c cs)
  obtain n x where c: "c = (n, x)" by (cases c)
  obtain al queue follow_next where st: "st = (al, queue, follow_next)" by (cases st)
  have "entry fs (i, n) = Some x" using Cons.prems(1) c by simp
  then have "safe (search_sound fs (js @ only_dirs [c])) (visit_child fs dir_path c st)"
    using visit_child_sound [OF assms(1,2)] Cons.prems(2) unfolding c st by blast
  moreover have "safe (search_sound fs (js @ only_dirs (c # cs))) (visit_children fs dir_path cs st')"
    if "search_sound fs (js @ only_dirs [c]) st'" for st'
    using Cons.IH [OF _ that] Cons.prems(1) unfolding only_dirs_Cons [of c cs] by simp
  ultimately show ?case unfolding visit_children.simps by (rule safe_and_then)
qed simp

definition queue_work :: "abstract_fs \<Rightarrow> dir_index list \<Rightarrow> nat" where
  "queue_work fs js = sum_list (map (\<lambda>j. card (below fs j)) js)"

lemma leads_to_dir_range: "wf_fs fs \<Longrightarrow> leads_to_dir fs p i \<Longrightarrow> dir_ix i < length (dirs fs)"
  by (auto simp: leads_to_dir_def dir_in_def dest: sound_D [OF resolve_dir_sound])

lemma alive_bfs_ends:
  assumes "inv_fs fs" and "search_sound fs js st" and "queue_work fs js \<le> fuel"
  shows "\<exists>r. alive_bfs fuel fs st = Some r \<and> safe (\<lambda>(al, q). alive_sound fs al \<and> queue_sound fs q) r"
  using assms(2,3)
proof (induction fuel arbitrary: js st)
  case 0
  obtain al queue follow_next where st: "st = (al, queue, follow_next)" by (cases st)
  show ?case
  proof (cases queue)
    case (Cons q qs)
    obtain p i where q: "q = (p, i)" by (cases q)
    have "i \<in> below fs i" by (simp add: below_def)
    moreover have "finite (below fs i)"
      using "0.prems"(1) below_card(1) [OF inv_fsD(1) [OF assms(1)]] leads_to_dir_range [OF inv_fsD(1) [OF assms(1)]]
      by (auto simp: st Cons q search_sound_def queue_sound_def)
    ultimately have "card (below fs i) > 0" by (auto simp: card_gt_0_iff)
    then show ?thesis using "0.prems" by (auto simp: st Cons q search_sound_def queue_work_def)
  qed (use "0.prems" st in \<open>auto simp: search_sound_def\<close>)
next
  case (Suc fuel)
  obtain al queue follow_next where st: "st = (al, queue, follow_next)" by (cases st)
  show ?case
  proof (cases queue)
    case Nil
    then show ?thesis using Suc.prems(1) st by (simp add: search_sound_def)
  next
    case (Cons q qs)
    obtain p i where q: "q = (p, i)" by (cases q)
    have p: "leads_to_dir fs p i" and rest: "search_sound fs (tl js) (al, qs, follow_next)"
      and js: "js = i # tl js"
      using Suc.prems(1) by (auto simp: st Cons q search_sound_def queue_sound_def)
    note i = leads_to_dir_range [OF inv_fsD(1) [OF assms(1)] p]
    let ?cs = "children (dirs fs ! dir_ix i)"
    have "keys_distinct ?cs" using wf_fs_dir [OF inv_fsD(1) [OF assms(1)] i] by (simp add: wf_dir_def)
    then have cs: "entry fs (i, n) = Some x" if "(n, x) \<in> set ?cs" for n x
      using that i by (simp add: entry_pair child_def)
    have visit: "safe (search_sound fs (tl js @ only_dirs ?cs)) (visit_children fs p ?cs (al, qs, follow_next))"
      using visit_children_sound [OF assms(1) p cs rest] by blast
    have "Suc (queue_work fs (only_dirs ?cs)) = card (below fs i)"
      using below_children [OF inv_fsD(1,2) [OF assms(1)] i] by (simp add: queue_work_def child_dirs_def assms(1))
    then have "queue_work fs (tl js @ only_dirs ?cs) \<le> fuel"
      using Suc.prems(2) by (subst (asm) js) (simp add: queue_work_def)
    then show ?thesis using visit Suc.IH i
      by (cases "visit_children fs p ?cs (al, qs, follow_next)") (auto simp: st Cons q)
  qed
qed

lemma queue_work_bound:
  assumes "inv_fs fs" and "queue_sound fs q"
  shows "queue_work fs (map snd q) \<le> length q * length (dirs fs)"
  using assms(2)
proof (induction q)
  case (Cons e q)
  have "card (below fs (snd e)) \<le> length (dirs fs)"
    using Cons.prems leads_to_dir_range [OF inv_fsD(1) [OF assms(1)]] below_card(2) [OF inv_fsD(1) [OF assms(1)]]
    by (auto simp: queue_sound_def split: prod.splits)
  then show ?case using Cons by (auto simp: queue_work_def queue_sound_def)
qed (simp add: queue_work_def)

lemma alive_follow_once_ends:
  assumes "inv_fs fs" and "alive_sound fs al" and "queue_sound fs q"
  shows "\<exists>r. alive_follow_once fs al q = Some r \<and> safe (\<lambda>(al, q). alive_sound fs al \<and> queue_sound fs q) r"
  unfolding alive_follow_once_def using assms
  by (intro alive_bfs_ends [OF assms(1), of "map snd q"] queue_work_bound)
    (simp_all add: search_sound_def queue_sound_def)

lemma alive_rounds_ends:
  assumes "inv_fs fs" and "alive_sound fs al" and "queue_sound fs q"
  shows "\<exists>r. alive_rounds n fs al q = Some r \<and> safe (alive_sound fs) r"
  using assms(2,3)
proof (induction n arbitrary: al q)
  case (Suc n)
  obtain r where r: "alive_follow_once fs al q = Some r"
    "safe (\<lambda>(al, q). alive_sound fs al \<and> queue_sound fs q) r"
    using alive_follow_once_ends [OF assms(1) Suc.prems] by blast
  then show ?case using Suc.IH by (cases r) auto
qed simp

lemma alive_sound_sort: "alive_sound fs al \<Longrightarrow> alive_sound fs (sort_alive al)"
  by (simp add: alive_sound_def sort_alive_def)

lemma root_leads: "leads_to_dir fs ''/'' root_index"
proof -
  have "resolve_node_rec (Suc 0) fs ''/'' True [] = Ok ([], NodeDir root_index)"
    by (rule resolve_Suc_dirI) (simp_all add: is_valid_def is_root_def starts_with_def)
  then show ?thesis by (simp add: leads_to_dir_def resolve_dir_def resolve_node_of_rec)
qed

lemma alive_ends:
  assumes "inv_fs fs"
  shows "\<exists>r. alive fs = Some r \<and> safe (alive_sound fs) r"
proof -
  let ?al = "\<lparr>al_dirs = [(root_index, ''/'')], al_files = [], al_files_symlinked = [], al_symlinks = []\<rparr>"
  have "alive_sound fs ?al" "queue_sound fs [(''/'', root_index)]"
    using root_leads by (simp_all add: alive_sound_def queue_sound_def is_root_def)
  from alive_rounds_ends [OF assms this] obtain r where
    "alive_rounds MAX_SYMLINK_FOLLOW fs ?al [(''/'', root_index)] = Some r" "safe (alive_sound fs) r"
    by blast
  then show ?thesis unfolding alive_def
    by (cases r) (auto intro: alive_sound_sort)
qed

end
