(* ===== verification/Generator.thy ===== *)
theory Generator
  imports Alive
begin

text \<open>
  \<open>abstract_fs/generator.rs\<close>: random workloads.

  The crate \<open>rand\<close> is the parameter \<open>rng\<close>: \<open>choose_index n g\<close> is the position that \<open>choose\<close> draws
  from a slice of length \<open>n\<close>, \<open>choose_weight ws g\<close> the one that \<open>choose_weighted\<close> draws, \<open>None\<close> for
  its error; \<open>g\<close> is the state of the generator. \<open>good_rng\<close> is what its documentation promises.

  The closure \<open>gen_name\<close> is a function on the state it captures; \<open>name_supply\<close> is its contract. The
  loop of \<open>Rename\<close>, which draws directories until one is not below the renamed one, has fuel.
\<close>

record 'g rng =
  choose_index :: "nat \<Rightarrow> 'g \<Rightarrow> nat \<times> 'g"
  choose_weight :: "u32 list \<Rightarrow> 'g \<Rightarrow> nat option \<times> 'g"

definition good_rng :: "'g rng \<Rightarrow> bool" where
  "good_rng rng \<longleftrightarrow>
     (\<forall>n g. 0 < n \<longrightarrow> fst (choose_index rng n g) < n)
     \<and> (\<forall>ws g. (\<exists>w \<in> set ws. 0 < w) \<longrightarrow> sum_list (map unat ws) < 2 ^ 32 \<longrightarrow>
          (\<exists>i < length ws. fst (choose_weight rng ws g) = Some i \<and> 0 < ws ! i))"

text \<open>What the generator mutates: the file system, the random source and the names.\<close>

record ('g, 'n) gen_state =
  gs_fs :: abstract_fs
  gs_rng :: 'g
  gs_names :: 'n

type_synonym ('g, 'n, 'a) gen = "('g, 'n) gen_state \<Rightarrow> (fs_error, 'a) res \<times> ('g, 'n) gen_state"

definition and_do :: "('g, 'n, 'a) gen \<Rightarrow> ('a \<Rightarrow> ('g, 'n, 'b) gen) \<Rightarrow> ('g, 'n, 'b) gen" where
  "and_do m f = (\<lambda>st. case m st of (r, st') \<Rightarrow> or_return r st' (\<lambda>a. f a st'))"

text \<open>\<open>xs.choose(rng).unwrap()\<close>, \<open>gen_name()\<close> and \<open>fs.op(..).unwrap()\<close>.\<close>

definition pick :: "'g rng \<Rightarrow> 'a list \<Rightarrow> ('g, 'n, 'a) gen" where
  "pick rng xs = (\<lambda>st.
     if xs = [] then (Crash Panicked, st)
     else case choose_index rng (length xs) (gs_rng st) of (i, g) \<Rightarrow>
       (unwrap (vec_get xs i), st\<lparr>gs_rng := g\<rparr>))"

definition new_name :: "('n \<Rightarrow> name \<times> 'n) \<Rightarrow> ('g, 'n, name) gen" where
  "new_name gen_name = (\<lambda>st.
     case gen_name (gs_names st) of (nm, n') \<Rightarrow> (Ok nm, st\<lparr>gs_names := n'\<rparr>))"

fun unwrap_res :: "('e, 'a) res \<Rightarrow> ('f, unit) res" where
  "unwrap_res (Ok _) = Ok ()"
| "unwrap_res (Err _) = Crash Panicked"
| "unwrap_res (Crash c) = Crash c"

definition run_unwrap :: "(abstract_fs \<Rightarrow> (fs_error, 'a) res \<times> abstract_fs) \<Rightarrow> ('g, 'n, unit) gen" where
  "run_unwrap f = (\<lambda>st. case f (gs_fs st) of (r, fs') \<Rightarrow> (unwrap_res r, st\<lparr>gs_fs := fs'\<rparr>))"

subsection \<open>Interesting numbers\<close>

definition INTERESTING_UNSIGNED :: "u64 list" where
  "INTERESTING_UNSIGNED =
     [0, 1, 16, 32, 64, 100, 127, 128, 255, 256, 512, 1000, 1024, 4096, 32767, 32768, 65535, 65536,
      100000]"

definition random_interesting_unsigned :: "'g rng \<Rightarrow> ('g, 'n, u64) gen" where
  "random_interesting_unsigned rng = pick rng INTERESTING_UNSIGNED"

subsection \<open>One random operation\<close>

definition generator_mode :: mode where
  "generator_mode = [S_IRWXU, S_IRWXG, S_IROTH, S_IXOTH]"

definition retain_not :: "operation_kind \<Rightarrow> operation_weights \<Rightarrow> operation_weights" where
  "retain_not k ws = filter (\<lambda>(op, _). op \<noteq> k) ws"

text \<open>The weights of the operations that have something to work on.\<close>

definition applicable ::
    "alive_nodes \<Rightarrow> pathname list \<Rightarrow> pathname list \<Rightarrow> fd_index list \<Rightarrow> operation_weights \<Rightarrow> operation_weights" where
  "applicable al dirs_except_root closed opened ws =
     (let ws1 = (if dirs_except_root = [] \<and> al_files al = [] then retain_not KRemove ws else ws);
          ws2 = (if al_files al = [] then retain_not KHardlink ws1 else ws1);
          ws3 = (if dirs_except_root = [] \<and> al_files al = [] then retain_not KRename ws2 else ws2);
          ws4 = (if closed = [] then retain_not KOpen ws3 else ws3)
      in if opened = []
         then retain_not KFSync (retain_not KWrite (retain_not KRead (retain_not KClose ws4)))
         else ws4)"

text \<open>The loop of \<open>Rename\<close>; any other error of \<open>rename\<close> leaves the loop as well.\<close>

primrec rename_loop ::
    "nat \<Rightarrow> 'g rng \<Rightarrow> (dir_index \<times> pathname) list \<Rightarrow> pathname \<Rightarrow> name \<Rightarrow> ('g, 'n) gen_state \<Rightarrow>
     ((fs_error, unit) res \<times> ('g, 'n) gen_state) option" where
  "rename_loop 0 rng ds old_path nm st = None"
| "rename_loop (Suc fuel) rng ds old_path nm st =
     (case pick rng ds st of
        (Ok (_, new_path), st1) \<Rightarrow>
          (case rename old_path (path_join new_path nm) (gs_fs st1) of
             (r, fs') \<Rightarrow>
               (let st2 = st1\<lparr>gs_fs := fs'\<rparr>
                in case r of
                     Err (RenameToSubdirectoryError _ _) \<Rightarrow> rename_loop fuel rng ds old_path nm st2
                   | Crash c \<Rightarrow> Some (Crash c, st2)
                   | _ \<Rightarrow> Some (Ok (), st2)))
      | (Err e, st1) \<Rightarrow> Some (Err e, st1)
      | (Crash c, st1) \<Rightarrow> Some (Crash c, st1))"

text \<open>The branches of the \<open>match\<close> on the drawn operation.\<close>

definition append_kind ::
    "nat \<Rightarrow> 'g rng \<Rightarrow> ('n \<Rightarrow> name \<times> 'n) \<Rightarrow> alive_nodes \<Rightarrow> pathname list \<Rightarrow> pathname list \<Rightarrow> fd_index list \<Rightarrow>
     operation_kind \<Rightarrow> ('g, 'n) gen_state \<Rightarrow> ((fs_error, unit) res \<times> ('g, 'n) gen_state) option" where
  "append_kind fuel rng gen_name al dirs_except_root closed opened kind st =
     (case kind of
        KMkDir \<Rightarrow> Some (and_do (pick rng (al_dirs al)) (\<lambda>(_, path).
          and_do (new_name gen_name) (\<lambda>nm.
          run_unwrap (mkdir (path_join path nm) generator_mode))) st)
      | KCreate \<Rightarrow> Some (and_do (pick rng (al_dirs al)) (\<lambda>(_, path).
          and_do (new_name gen_name) (\<lambda>nm.
          run_unwrap (create (path_join path nm) generator_mode))) st)
      | KRemove \<Rightarrow> Some (and_do (pick rng (dirs_except_root @ map snd (al_files al) @ al_symlinks al)) (\<lambda>path.
          run_unwrap (remove path)) st)
      | KHardlink \<Rightarrow> Some (and_do (pick rng (al_files al)) (\<lambda>(_, file_path).
          and_do (pick rng (al_dirs al)) (\<lambda>(_, dir_path).
          and_do (new_name gen_name) (\<lambda>nm.
          run_unwrap (hardlink file_path (path_join dir_path nm))))) st)
      | KRename \<Rightarrow>
          (case and_do (pick rng (dirs_except_root @ map snd (al_files al) @ al_symlinks al)) (\<lambda>old_path.
                  and_do (new_name gen_name) (\<lambda>nm st. (Ok (old_path, nm), st))) st of
             (Ok (old_path, nm), st1) \<Rightarrow> rename_loop fuel rng (al_dirs al) old_path nm st1
           | (Err e, st1) \<Rightarrow> Some (Err e, st1)
           | (Crash c, st1) \<Rightarrow> Some (Crash c, st1))
      | KOpen \<Rightarrow> Some (and_do (pick rng closed) (\<lambda>path. run_unwrap (open_file path)) st)
      | KClose \<Rightarrow> Some (and_do (pick rng opened) (\<lambda>des. run_unwrap (close_fd des)) st)
      | KWrite \<Rightarrow> Some (and_do (pick rng opened) (\<lambda>des.
          and_do (random_interesting_unsigned rng) (\<lambda>sz. run_unwrap (read_fd des sz))) st)
      | KRead \<Rightarrow> Some (and_do (pick rng opened) (\<lambda>des.
          and_do (random_interesting_unsigned rng) (\<lambda>src_offset.
          and_do (random_interesting_unsigned rng) (\<lambda>sz.
          run_unwrap (write_fd des src_offset sz)))) st)
      | KFSync \<Rightarrow> Some (and_do (pick rng opened) (\<lambda>des. run_unwrap (fsync_fd des)) st)
      | KSymlink \<Rightarrow> Some (and_do (pick rng (map snd (al_dirs al) @ map snd (al_files al) @ al_symlinks al)) (\<lambda>tgt.
          and_do (pick rng (al_dirs al)) (\<lambda>(_, linkpath).
          and_do (new_name gen_name) (\<lambda>nm.
          run_unwrap (make_symlink tgt (path_join linkpath nm))))) st))"

text \<open>\<open>fs.file(idx).descriptor\<close> for each listed file; the access panics on a dangling index.\<close>

fun file_descriptors ::
    "abstract_fs \<Rightarrow> (file_index \<times> pathname) list \<Rightarrow> (fs_error, (fd_index option \<times> pathname) list) res" where
  "file_descriptors fs [] = Ok []"
| "file_descriptors fs ((idx, path) # rest) =
     and_then (get_file fs idx) (\<lambda>f.
     and_then (file_descriptors fs rest) (\<lambda>xs. Ok ((descriptor f, path) # xs)))"

definition append_one ::
    "nat \<Rightarrow> 'g rng \<Rightarrow> operation_weights \<Rightarrow> ('n \<Rightarrow> name \<times> 'n) \<Rightarrow> ('g, 'n) gen_state \<Rightarrow>
     ((fs_error, unit) res \<times> ('g, 'n) gen_state) option" where
  "append_one fuel rng weights gen_name st =
     (case alive (gs_fs st) of
        None \<Rightarrow> None
      | Some (Err e) \<Rightarrow> Some (Err e, st)
      | Some (Crash c) \<Rightarrow> Some (Crash c, st)
      | Some (Ok al) \<Rightarrow>
          (let dirs_except_root = map snd (filter (\<lambda>(idx, _). idx \<noteq> root_index) (al_dirs al))
           in case and_then (file_descriptors (gs_fs st) (al_files al @ al_files_symlinked al)) (\<lambda>fl.
                   and_then (file_descriptors (gs_fs st) (al_files al)) (\<lambda>fl'. Ok (fl, fl'))) of
                Err e \<Rightarrow> Some (Err e, st)
              | Crash c \<Rightarrow> Some (Crash c, st)
              | Ok (fl, fl') \<Rightarrow>
                  (let closed = map snd (filter (\<lambda>(d, _). d = None) fl);
                       opened = List.map_filter fst fl';
                       ws = applicable al dirs_except_root closed opened weights
                   in case choose_weight rng (map snd ws) (gs_rng st) of
                        (None, g) \<Rightarrow> Some (Crash Panicked, st\<lparr>gs_rng := g\<rparr>)
                      | (Some i, g) \<Rightarrow>
                          (case vec_get ws i of
                             None \<Rightarrow> Some (Crash Panicked, st\<lparr>gs_rng := g\<rparr>)
                           | Some (kind, _) \<Rightarrow>
                               append_kind fuel rng gen_name al dirs_except_root closed opened kind
                                 (st\<lparr>gs_rng := g\<rparr>)))))"

subsection \<open>A random workload\<close>

definition numbered_name :: "nat \<Rightarrow> name \<times> nat" where
  "numbered_name name_idx = (show_nat name_idx, name_idx + 1)"

primrec append_many ::
    "nat \<Rightarrow> nat \<Rightarrow> 'g rng \<Rightarrow> operation_weights \<Rightarrow> ('n \<Rightarrow> name \<times> 'n) \<Rightarrow> ('g, 'n) gen_state \<Rightarrow>
     ((fs_error, unit) res \<times> ('g, 'n) gen_state) option" where
  "append_many 0 fuel rng weights gen_name st = Some (Ok (), st)"
| "append_many (Suc sz) fuel rng weights gen_name st =
     (case append_one fuel rng weights gen_name st of
        None \<Rightarrow> None
      | Some (Ok _, st') \<Rightarrow> append_many sz fuel rng weights gen_name st'
      | Some (Err e, st') \<Rightarrow> Some (Err e, st')
      | Some (Crash c, st') \<Rightarrow> Some (Crash c, st'))"

definition generate_new ::
    "nat \<Rightarrow> 'g rng \<Rightarrow> 'g \<Rightarrow> nat \<Rightarrow> operation_weights \<Rightarrow> ((fs_error, workload) res \<times> 'g) option" where
  "generate_new fuel rng g sz weights =
     map_option (\<lambda>(r, st). (and_then r (\<lambda>_. Ok (recording (gs_fs st))), gs_rng st))
       (append_many sz fuel rng weights numbered_name
          \<lparr>gs_fs = fs_new, gs_rng = g, gs_names = 0\<rparr>)"

end
