(* ===== verification/Ranked.thy ===== *)
theory Ranked
  imports Alive
begin

text \<open>
  Why resolution does not overflow in the workloads of the fuzzer. A rank of names orders a file system
  when every symbolic link has a greater rank than all names of its target; then each nested
  resolution works on smaller names. An operation respects a rank when it creates links and renames
  entries upwards, and a workload is \<open>ordered\<close> when some rank is respected by all its operations.
\<close>

definition ranked :: "(name \<Rightarrow> nat) \<Rightarrow> abstract_fs \<Rightarrow> bool" where
  "ranked rk fs \<longleftrightarrow>
     (\<forall>e s. entry fs e = Some (NodeSymlink s) \<longrightarrow>
        (\<forall>n \<in> set (segments (target (symlinks fs ! symlink_ix s))). rk n < rk (snd e)))"

definition rankable :: "abstract_fs \<Rightarrow> bool" where
  "rankable fs \<longleftrightarrow> (\<exists>rk. ranked rk fs)"

fun op_ranked :: "(name \<Rightarrow> nat) \<Rightarrow> operation \<Rightarrow> bool" where
  "op_ranked rk (OpSymlink t p) = (\<forall>n \<in> set (segments t). rk n < rk (last_name p))"
| "op_ranked rk (OpRename p q) = (\<not> is_root p \<longrightarrow> rk (last_name p) < rk (last_name q))"
| "op_ranked rk _ = True"

definition ordered :: "operation list \<Rightarrow> bool" where
  "ordered os \<longleftrightarrow> (\<exists>rk. \<forall>op \<in> set os. op_ranked rk op)"

lemma ranked_new: "ranked rk fs_new"
  by (simp add: ranked_def entry_def fs_new_def child_def nth_Cons split: nat.splits)

lemma rankable_new [simp]: "rankable fs_new"
  using ranked_new by (auto simp: rankable_def)

lemma ordered_mono: "ordered os \<Longrightarrow> set os' \<subseteq> set os \<Longrightarrow> ordered os'"
  unfolding ordered_def by blast

subsection \<open>Results that are no crash\<close>

definition fine :: "('a \<Rightarrow> bool) \<Rightarrow> ('e, 'a) res \<Rightarrow> bool" where
  "fine P r \<longleftrightarrow> (case r of Ok a \<Rightarrow> P a | Err _ \<Rightarrow> True | Crash _ \<Rightarrow> False)"

lemma fine_simps [simp]: "fine P (Ok a) \<longleftrightarrow> P a" "fine P (Err e)" "\<not> fine P (Crash c)"
  by (simp_all add: fine_def)

lemma fine_and_then: "fine P r \<Longrightarrow> (\<And>a. r = Ok a \<Longrightarrow> P a \<Longrightarrow> fine Q (f a)) \<Longrightarrow> fine Q (and_then r f)"
  by (cases r) auto

lemma fine_mono: "fine P r \<Longrightarrow> (\<And>a. P a \<Longrightarrow> Q a) \<Longrightarrow> fine Q r"
  by (cases r) auto

text \<open>The nodes a walk meets: a link among them has an entry of small rank.\<close>

definition seen :: "abstract_fs \<Rightarrow> (name \<Rightarrow> nat) \<Rightarrow> nat \<Rightarrow> node \<Rightarrow> bool" where
  "seen fs rk k n \<longleftrightarrow>
     node_in fs n \<and> (\<forall>s. n = NodeSymlink s \<longrightarrow> (\<exists>e. entry fs e = Some n \<and> rk (snd e) < k))"

lemma walk_fine:
  assumes wf: "wf_fs fs"
    and rd: "\<And>e s. entry fs e = Some (NodeSymlink s) \<Longrightarrow> rk (snd e) < k \<Longrightarrow>
               fine (\<lambda>(ds, i). dir_in fs i) (rd (target (symlinks fs ! symlink_ix s)))"
    and "\<forall>seg \<in> set segs. rk seg < k" and "seen fs rk k n"
  shows "fine (\<lambda>(ds, n, p). seen fs rk k n) (walk rd fs segs ds n p)"
  using assms(3,4)
proof (induction segs arbitrary: ds n p)
  case (Cons seg segs)
  have dir: "fine (\<lambda>(ds, i). dir_in fs i) (case n of
      NodeDir idx \<Rightarrow> Ok (ds @ [idx], idx)
    | NodeSymlink idx \<Rightarrow>
        and_then (get_sym fs idx) (\<lambda>s. and_then (rd (target s)) (\<lambda>(rec_dirs, i). Ok (ds @ rec_dirs @ [i], i)))
    | NodeFile _ \<Rightarrow> Err (NotADir (p @ ''/'' @ seg)))"
  proof (cases n)
    case (NodeSymlink s)
    then obtain e where e: "entry fs e = Some (NodeSymlink s)" "rk (snd e) < k"
      using Cons.prems(2) by (auto simp: seen_def)
    have "fine (\<lambda>(ds, i). dir_in fs i)
        (and_then (rd (target (symlinks fs ! symlink_ix s))) (\<lambda>(rec_dirs, i). Ok (ds @ rec_dirs @ [i], i)))"
      by (rule fine_and_then [OF rd [OF e]]) auto
    then show ?thesis using NodeSymlink Cons.prems(2) by (simp add: seen_def)
  qed (use Cons.prems(2) in \<open>auto simp: seen_def dir_in_def\<close>)
  show ?case
    unfolding walk.simps Let_def
  proof (rule fine_and_then [OF dir], clarsimp)
    fix ds' i
    assume i: "dir_in fs i"
    then have wd: "wf_dir fs (dirs fs ! dir_ix i)" using wf_fs_dir [OF wf] by (simp add: dir_in_def)
    show "fine (\<lambda>(ds, n, p). seen fs rk k n)
        (and_then (get_dir fs i) (\<lambda>d. and_then (ok_or (NotFound (p @ slash # seg)) (child d seg))
           (\<lambda>next. walk rd fs segs ds' next (p @ slash # seg))))"
    proof (cases "child (dirs fs ! dir_ix i) seg")
      case None
      then show ?thesis using i by (simp add: dir_in_def)
    next
      case (Some x)
      have "entry fs (i, seg) = Some x" using i Some by (simp add: entry_def dir_in_def)
      then have "seen fs rk k x"
        using wf_dir_child [OF wd Some] Cons.prems(1) by (fastforce simp: seen_def)
      then show ?thesis using Cons i Some by (simp add: dir_in_def)
    qed
  qed
qed simp

lemma resolve_rec_fine:
  assumes "wf_fs fs" and "ranked rk fs" and "\<forall>seg \<in> set (segments p). rk seg < k"
  shows "fine (node_in fs \<circ> snd) (resolve_node_rec (Suc k) fs p follow v)"
  using assms(3)
proof (induction k arbitrary: p follow v)
  case 0
  then have "segments p = []" by (cases "segments p") auto
  then show ?case by (simp add: resolve_node_rec.simps(2) wf_fs_root [OF assms(1)])
next
  case (Suc k)
  have target: "fine (node_in fs \<circ> snd)
      (resolve_node_rec (Suc k) fs (target (symlinks fs ! symlink_ix s)) follow v)"
    if "entry fs e = Some (NodeSymlink s)" "rk (snd e) < Suc k" for e s follow v
  proof (intro Suc.IH ballI)
    fix seg
    assume "seg \<in> set (segments (target (symlinks fs ! symlink_ix s)))"
    then have "rk seg < rk (snd e)" using that(1) assms(2) unfolding ranked_def by blast
    then show "rk seg < k" using that(2) by simp
  qed
  have "fine (\<lambda>(ds, n, p). seen fs rk (Suc k) n)
      (walk (\<lambda>t. node_to_dir t (resolve_node_rec (Suc k) fs t True [])) fs (segments p) [] (NodeDir root_index) [])"
  proof (rule walk_fine [OF assms(1) _ Suc.prems])
    fix e s
    assume "entry fs e = Some (NodeSymlink s)" "rk (snd e) < Suc k"
    note t = target [OF this, of True "[]"]
    show "fine (\<lambda>(ds, i). dir_in fs i) (node_to_dir (target (symlinks fs ! symlink_ix s))
        (resolve_node_rec (Suc k) fs (target (symlinks fs ! symlink_ix s)) True []))"
      unfolding node_to_dir_def by (rule fine_and_then [OF t]) (auto simp: dir_in_def split: node.splits)
  qed (simp add: seen_def wf_fs_root [OF assms(1)])
  then show ?case
    unfolding resolve_node_rec.simps(2) [of "Suc k"]
  proof (split if_split, intro conjI impI)
    assume w: "fine (\<lambda>(ds, n, p). seen fs rk (Suc k) n)
      (walk (\<lambda>t. node_to_dir t (resolve_node_rec (Suc k) fs t True [])) fs (segments p) [] (NodeDir root_index) [])"
    show "fine (node_in fs \<circ> snd) (and_then
        (walk (\<lambda>t. node_to_dir t (resolve_node_rec (Suc k) fs t True [])) fs (segments p) [] (NodeDir root_index) [])
        (\<lambda>(ds, lst, path'). case lst of
           NodeSymlink idx \<Rightarrow>
             if follow then
               if idx \<in> set v then Err (LoopExists path')
               else and_then (get_sym fs idx) (\<lambda>s.
                    and_then (resolve_node_rec (Suc k) fs (target s) follow (v @ [idx]))
                      (\<lambda>(rec_dirs, lst'). Ok (ds @ rec_dirs, lst')))
             else Ok (ds, lst)
         | _ \<Rightarrow> Ok (ds, lst)))"
    proof (rule fine_and_then [OF w], clarsimp)
      fix ds n p'
      assume n: "seen fs rk (Suc k) n"
      show "fine (node_in fs \<circ> snd) (case n of
           NodeSymlink idx \<Rightarrow>
             if follow then
               if idx \<in> set v then Err (LoopExists p')
               else and_then (get_sym fs idx) (\<lambda>s.
                    and_then (resolve_node_rec (Suc k) fs (target s) follow (v @ [idx]))
                      (\<lambda>(rec_dirs, lst'). Ok (ds @ rec_dirs, lst')))
             else Ok (ds, n)
         | _ \<Rightarrow> Ok (ds, n))"
      proof (cases n)
        case (NodeSymlink s)
        then obtain e where "entry fs e = Some (NodeSymlink s)" "rk (snd e) < Suc k"
          using n by (auto simp: seen_def)
        note t = target [OF this, of follow "v @ [s]"]
        have "fine (node_in fs \<circ> snd) (and_then
            (resolve_node_rec (Suc k) fs (target (symlinks fs ! symlink_ix s)) follow (v @ [s]))
            (\<lambda>(rec_dirs, lst'). Ok (ds @ rec_dirs, lst')))"
          by (rule fine_and_then [OF t]) auto
        then show ?thesis using NodeSymlink n by (cases follow) (auto simp: seen_def)
      qed (use n in \<open>auto simp: seen_def\<close>)
    qed
  qed simp
qed

lemma resolve_node_fine:
  assumes "wf_fs fs" and "ranked rk fs"
  shows "fine (node_in fs \<circ> snd) (resolve_node fs p follow)"
proof -
  define k where "k = Suc (Max (insert 0 (rk ` set (segments p))))"
  have "rk seg < k" if "seg \<in> set (segments p)" for seg
    unfolding k_def less_Suc_eq_le using that by (intro Max_ge) auto
  then have "fine (node_in fs \<circ> snd) (resolve_node_rec (Suc k) fs p follow [])"
    using resolve_rec_fine [OF assms] by blast
  then have "resolve_node fs p follow \<noteq> Crash StackOverflow"
    unfolding resolve_overflow_iff by (metis fine_simps(3))
  then show ?thesis
    using resolve_node_sound [OF assms(1), of p follow]
    by (cases "resolve_node fs p follow") (auto, metis crash.exhaust)
qed

subsection \<open>Operations on a ranked file system do not overflow\<close>

definition no_overflow :: "('e, 'a) res \<times> abstract_fs \<Rightarrow> bool" where
  "no_overflow o' \<longleftrightarrow> fst o' \<noteq> Crash StackOverflow"

lemma no_overflow_pair [simp]: "no_overflow (r, s) \<longleftrightarrow> r \<noteq> Crash StackOverflow"
  by (simp add: no_overflow_def)

lemma no_overflow_or_return [intro!]:
  "r \<noteq> Crash StackOverflow \<Longrightarrow> (\<And>a. r = Ok a \<Longrightarrow> no_overflow (k a)) \<Longrightarrow> no_overflow (or_return r s k)"
  by (cases r) (auto simp: no_overflow_def)

lemma no_overflow_forget [simp]: "no_overflow (forget o') \<longleftrightarrow> no_overflow o'"
  by (cases o'; cases "fst o'") (auto simp: no_overflow_def)

lemma unwrap_no_overflow [simp]: "unwrap x \<noteq> Crash StackOverflow"
  by (cases x) auto

lemma ok_or_no_overflow [simp]: "ok_or e x \<noteq> Crash c"
  by (cases x) auto

lemma map_err_no_overflow [simp]: "map_err f r = Crash StackOverflow \<longleftrightarrow> r = Crash StackOverflow"
  by (cases r) auto

lemma and_then_eq_Crash [simp]:
  "and_then r f = Crash c \<longleftrightarrow> r = Crash c \<or> (\<exists>a. r = Ok a \<and> f a = Crash c)"
  by (cases r) auto

lemma basic_no_overflow [simp]:
  "get_dir fs i \<noteq> Crash StackOverflow" "get_file fs j \<noteq> Crash StackOverflow" "get_sym fs s \<noteq> Crash StackOverflow"
  "get_descriptor fs l \<noteq> Crash StackOverflow"
  by (simp_all add: get_dir_def get_file_def get_sym_def get_descriptor_def)

lemma path_split_no_overflow [simp]: "path_split p \<noteq> Crash StackOverflow"
  unfolding path_split_def Let_def by (auto split: if_splits)

lemma open_descriptor_no_overflow [simp]: "open_descriptor fs l \<noteq> Crash StackOverflow"
  unfolding open_descriptor_def by auto

lemma resolve_no_overflow:
  assumes "wf_fs fs" and "ranked rk fs"
  shows "resolve_node fs p follow \<noteq> Crash StackOverflow" and "resolve_file fs p \<noteq> Crash StackOverflow"
    and "resolve_dir fs p \<noteq> Crash StackOverflow" and "parent_entry fs p \<noteq> Crash StackOverflow"
    and "nonempty_dir_at fs p \<noteq> Crash StackOverflow"
proof -
  have r: "resolve_node fs p follow \<noteq> Crash StackOverflow" for p follow
    using resolve_node_fine [OF assms, of p follow] by auto
  then show "resolve_node fs p follow \<noteq> Crash StackOverflow" .
  show "resolve_file fs p \<noteq> Crash StackOverflow"
    unfolding resolve_file_def node_to_file_def using r by (auto split: node.splits)
  have d: "resolve_dir fs p \<noteq> Crash StackOverflow" for p
    unfolding resolve_dir_def node_to_dir_def using r by (auto split: node.splits)
  then show "resolve_dir fs p \<noteq> Crash StackOverflow" .
  show "parent_entry fs p \<noteq> Crash StackOverflow"
    unfolding parent_entry_def using d by auto
  show "nonempty_dir_at fs p \<noteq> Crash StackOverflow"
    unfolding nonempty_dir_at_def using d [of p] by (auto split: res.splits)
qed

lemma write_locate_no_overflow: "write_locate off i cur ss \<noteq> Crash StackOverflow"
  by (induction off i cur ss rule: write_locate.induct)
    (subst write_locate.simps, auto simp: Let_def split: if_splits)

lemma write_middle_no_overflow [simp]: "write_middle src off n ss \<noteq> Crash StackOverflow"
  unfolding write_middle_def by (auto simp: write_locate_no_overflow)

lemma rename_no_overflow:
  assumes "wf_fs fs" and "ranked rk fs" and "canonical old" and "canonical new" and "\<not> is_root new"
  shows "no_overflow (rename old new fs)"
proof (cases "rename old new fs")
  case (Pair r fs')
  have "r \<noteq> Crash StackOverflow"
  proof
    assume r: "r = Crash StackOverflow"
    note basic = resolve_no_overflow [OF assms(1,2)]
    obtain vd n ds P d nm where run: "nonempty_dir_at fs new = Ok False"
      "resolve_node fs old False = Ok (vd, n)" "parent_entry fs new = Ok (ds, P, d, nm)"
      "\<not> moves_below_itself n ds P"
      using Pair r basic unfolding rename_def Let_def
      by (cases "nonempty_dir_at fs new"; cases "resolve_node fs old False"; cases "parent_entry fs new")
        (auto split: if_splits)
    show False using rename_succeeds [OF assms(1,3-5) run] Pair r by auto
  qed
  then show ?thesis using Pair by simp
qed

lemma apply_op_no_overflow:
  assumes "wf_fs fs" and "ranked rk fs" and "wf_op op"
  shows "fst (apply_op op fs) \<noteq> Crash StackOverflow"
proof -
  note basic [simp] = resolve_no_overflow [OF assms(1,2)]
  have "no_overflow (apply_op op fs)"
  proof (cases op)
    case (OpRename p q)
    then show ?thesis using rename_no_overflow [OF assms(1,2)] assms(3) by simp
  next
    case (OpRead i n)
    show ?thesis unfolding OpRead apply_op.simps no_overflow_forget read_fd_def Let_def content_read_def
      by (auto split: prod.splits if_splits)
  next
    case (OpWrite i src n)
    show ?thesis unfolding OpWrite apply_op.simps write_fd_def Let_def content_write_def
      by (auto split: prod.splits if_splits)
  next
    case (OpHardlink p q)
    show ?thesis unfolding OpHardlink apply_op.simps no_overflow_forget hardlink_def
      by (auto split: option.splits node.splits)
  qed (auto simp: remove_def mkdir_def create_def make_symlink_def open_file_def close_fd_def fsync_fd_def Let_def)
  then show ?thesis by (simp add: no_overflow_def)
qed

subsection \<open>The links after an operation\<close>

lemma op_keeps_symlinks:
  assumes "on_descriptor op" and "apply_op op fs = (Ok (), fs')"
  shows "symlinks fs' = symlinks fs"
  using assms
  by (cases op)
    (auto simp: forget_Ok open_file_def close_fd_def read_fd_def write_fd_def fsync_fd_def Let_def
      split: if_splits)

abbreviation link_target :: "abstract_fs \<Rightarrow> symlink_index \<Rightarrow> pathname" where
  "link_target fs s \<equiv> target (symlinks fs ! symlink_ix s)"

lemma rename_not_root:
  assumes "rename p q fs = (Ok n, fs')"
  shows "\<not> is_root p"
proof
  assume "is_root p"
  then have root: "segments p = []" by (simp add: is_root_def)
  obtain vd ds P d nm where run: "resolve_node fs p False = Ok (vd, n)" "parent_entry fs q = Ok (ds, P, d, nm)"
    "\<not> moves_below_itself n ds P"
    using rename_run [OF assms] by metis
  obtain k where "resolve_node_rec (Suc k) fs p False [] = Ok (vd, n)" using resolve_node_to_rec [OF run(1)] .
  then have "n = NodeDir root_index" unfolding resolve_Suc_nofollow root by auto
  then show False using run(2,3) resolve_passes_root unfolding parent_entry_Ok
    by (fastforce simp: moves_below_itself_def)
qed

text \<open>Every link was there before under the same name, was moved there by the operation, or is the new one.\<close>

lemma other_link:
  "f' = f(a := x) \<Longrightarrow> (\<And>s. x \<noteq> Some (NodeSymlink s)) \<Longrightarrow> f' e = Some (NodeSymlink s) \<Longrightarrow> f e = Some (NodeSymlink s)"
  by (auto split: if_splits)

lemma apply_op_links:
  assumes "wf_fs fs" and "wf_op op" and "apply_op op fs = (Ok (), fs')"
    and "entry fs' e = Some (NodeSymlink s)"
  shows "(\<exists>p. op = OpSymlink (link_target fs' s) p \<and> snd e = last_name p)
    \<or> (\<exists>e0. entry fs e0 = Some (NodeSymlink s) \<and> link_target fs' s = link_target fs s
         \<and> (e0 = e \<or> (\<exists>p q. op = OpRename p q \<and> \<not> is_root p \<and> snd e0 = last_name p \<and> snd e = last_name q)))"
proof -
  have same: ?thesis if "entry fs e = Some (NodeSymlink s)" "symlinks fs' = symlinks fs"
    using that by (intro disjI2 exI [of _ e]) simp
  show ?thesis
  proof (cases op)
    case (OpMkDir p m)
    then obtain idx where run: "mkdir p m fs = (Ok idx, fs')" using assms(3) by (auto simp: forget_Ok)
    obtain a where a: "entry fs' = (entry fs)(a \<mapsto> NodeDir idx)" "symlinks fs' = symlinks fs"
      using run by (rule mkdir_spec) auto
    then have "entry fs e = Some (NodeSymlink s)" using other_link [OF a(1) _ assms(4)] by simp
    then show ?thesis using a(2) by (rule same)
  next
    case (OpCreate p m)
    then obtain idx where run: "create p m fs = (Ok idx, fs')" using assms(3) by (auto simp: forget_Ok)
    obtain a where a: "entry fs' = (entry fs)(a \<mapsto> NodeFile idx)" "symlinks fs' = symlinks fs"
      using run by (rule create_spec) auto
    then have "entry fs e = Some (NodeSymlink s)" using other_link [OF a(1) _ assms(4)] by simp
    then show ?thesis using a(2) by (rule same)
  next
    case (OpRemove p)
    then have run: "remove p fs = (Ok (), fs')" using assms(3) by simp
    obtain a where a: "entry fs' = (entry fs)(a := None)" "symlinks fs' = symlinks fs"
      using run by (rule remove_spec) auto
    then have "entry fs e = Some (NodeSymlink s)" using other_link [OF a(1) _ assms(4)] by simp
    then show ?thesis using a(2) by (rule same)
  next
    case (OpHardlink p q)
    then obtain idx where run: "hardlink p q fs = (Ok idx, fs')" using assms(3) by (auto simp: forget_Ok)
    obtain a where a: "entry fs' = (entry fs)(a \<mapsto> NodeFile idx)" "symlinks fs' = symlinks fs"
      using run by (rule hardlink_spec) auto
    then have "entry fs e = Some (NodeSymlink s)" using other_link [OF a(1) _ assms(4)] by simp
    then show ?thesis using a(2) by (rule same)
  next
    case (OpSymlink t p)
    then obtain idx where run: "make_symlink t p fs = (Ok idx, fs')" using assms(3) by (auto simp: forget_Ok)
    obtain a where a: "names fs p a" "idx = SymlinkIndex (length (symlinks fs))"
      "entry fs' = (entry fs)(a \<mapsto> NodeSymlink idx)" "symlinks fs' = symlinks fs @ [\<lparr>target = t\<rparr>]"
      using run by (rule make_symlink_spec) simp
    show ?thesis
    proof (cases "e = a")
      case True
      then have "s = idx" using a(3) assms(4) by simp
      then have "link_target fs' s = t" using a(2,4) by simp
      then show ?thesis using OpSymlink True names_last_name [OF a(1)] by (intro disjI1 exI [of _ p]) simp
    next
      case False
      then have e: "entry fs e = Some (NodeSymlink s)" using a(3) assms(4) by simp
      then have "symlink_ix s < length (symlinks fs)" using entry_in [OF assms(1) e] by simp
      then have "link_target fs' s = link_target fs s" using a(4) by (simp add: nth_append)
      then show ?thesis using e by (intro disjI2 exI [of _ e]) simp
    qed
  next
    case (OpRename p q)
    then obtain n where run: "rename p q fs = (Ok n, fs')" and paths: "canonical p" "canonical q" "\<not> is_root q"
      using assms(2,3) by (auto simp: forget_Ok)
    obtain a a' ds where a: "names fs p a" "entry fs a = Some n"
      "parent_entry fs q = Ok (ds, fst a', dirs fs ! dir_ix (fst a'), snd a')"
      "entry fs' = (entry fs)(a' \<mapsto> n, a := None)" "symlinks fs' = symlinks fs"
      using assms(1) paths run by (rule rename_spec) simp
    have p: "\<not> is_root p" using rename_not_root [OF run] .
    have q: "last_name q = snd a'" using a(3) names_last_name unfolding names_def by blast
    show ?thesis
    proof (cases "e = a'")
      case True
      then have "n = NodeSymlink s" using a(4) assms(4) by (simp split: if_splits)
      then show ?thesis using OpRename True p q a(2,5) names_last_name [OF a(1)]
        by (intro disjI2 exI [of _ a]) simp
    next
      case False
      then have "entry fs e = Some (NodeSymlink s)" using a(4) assms(4) by (simp split: if_splits)
      then show ?thesis using a(5) by (rule same)
    qed
  qed (use assms(4) op_keeps_entries [OF _ assms(3)] op_keeps_symlinks [OF _ assms(3)] same in simp_all)
qed

lemma apply_op_ranked:
  assumes "wf_fs fs" and "wf_op op" and "apply_op op fs = (Ok (), fs')" and "ranked rk fs" and "op_ranked rk op"
  shows "ranked rk fs'"
  unfolding ranked_def
proof (intro allI impI ballI)
  fix e s nm
  assume e: "entry fs' e = Some (NodeSymlink s)" and nm: "nm \<in> set (segments (link_target fs' s))"
  from apply_op_links [OF assms(1-3) e] show "rk nm < rk (snd e)"
  proof (elim disjE exE conjE)
    fix p
    assume "op = OpSymlink (link_target fs' s) p" "snd e = last_name p"
    then show ?thesis using assms(5) nm by simp
  next
    fix e0
    assume "entry fs e0 = Some (NodeSymlink s)" "link_target fs' s = link_target fs s" "e0 = e"
    then show ?thesis using assms(4) nm unfolding ranked_def by metis
  next
    fix e0 p q
    assume e0: "entry fs e0 = Some (NodeSymlink s)" "link_target fs' s = link_target fs s"
      and r: "op = OpRename p q" "\<not> is_root p" "snd e0 = last_name p" "snd e = last_name q"
    have "rk nm < rk (snd e0)" using assms(4) e0 nm unfolding ranked_def by metis
    then show ?thesis using assms(5) r by simp
  qed
qed

lemma same_effect_ranked: "same_effect op op' \<Longrightarrow> op_ranked rk op' \<longleftrightarrow> op_ranked rk op"
  by (cases op) auto

text \<open>A workload that a rank orders does not overflow.\<close>

lemma replay_ops_ranked:
  assumes "inv_fs fs" and "ranked rk fs" and "\<forall>op \<in> set os. wf_op op \<and> op_ranked rk op"
    and "written (ops (recording fs)) + written os < 2 ^ 64"
    and "replay_ops os fs = (r, fs')"
  shows "r \<noteq> Crash StackOverflow \<and> (is_ok r \<longrightarrow> ranked rk fs')"
  using assms
proof (induction os arbitrary: fs)
  case (Cons op os)
  obtain r1 fs1 where run: "apply_op op fs = (r1, fs1)" by (cases "apply_op op fs")
  note inv = inv_fsD [OF Cons.prems(1)]
  have fits: "fits op fs" using Cons.prems(4) by (simp add: fits_def written_def)
  have op: "wf_op op" "op_ranked rk op" using Cons.prems(3) by simp_all
  have over: "r1 \<noteq> Crash StackOverflow" using apply_op_no_overflow [OF inv(1) Cons.prems(2) op(1)] run by simp
  show ?case
  proof (cases r1)
    case (Ok u)
    have run': "apply_op op fs = (Ok (), fs1)" using run Ok by simp
    have "inv_fs fs1"
      using apply_op_good [OF inv(1) op(1) fits] run' apply_op_tree [OF inv(1,2) op(1) run']
        apply_op_names [OF inv(1,3) op(1) run']
      by (simp add: inv_fs_def)
    moreover have "ranked rk fs1" using apply_op_ranked [OF inv(1) op(1) run' Cons.prems(2) op(2)] .
    moreover obtain op' where "same_effect op op'" "ops (recording fs1) = ops (recording fs) @ [op']"
      using apply_op_records [OF run'] by blast
    then have "written (ops (recording fs1)) + written os < 2 ^ 64"
      using Cons.prems(4) by (cases op) (auto simp: written_def)
    moreover have "replay_ops os fs1 = (r, fs')" using Cons.prems(5) run' by simp
    ultimately show ?thesis using Cons.IH [of fs1] Cons.prems(3) by simp
  qed (use Cons.prems(5) run over in auto)
qed auto

subsection \<open>The search for live nodes does not overflow\<close>

lemma visit_child_no_overflow:
  assumes "wf_fs fs" and "ranked rk fs"
  shows "visit_child fs p c st \<noteq> Crash StackOverflow"
  using resolve_no_overflow(1) [OF assms]
  by (cases "(fs, p, c, st)" rule: visit_child.cases)
    (auto simp: Let_def split: res.splits node.splits prod.splits)

lemma visit_children_no_overflow:
  assumes "wf_fs fs" and "ranked rk fs"
  shows "visit_children fs p cs st \<noteq> Crash StackOverflow"
  using visit_child_no_overflow [OF assms] by (induction cs arbitrary: st) auto

lemma alive_bfs_no_overflow:
  assumes "wf_fs fs" and "ranked rk fs"
  shows "alive_bfs fuel fs st \<noteq> Some (Crash StackOverflow)"
proof (induction fuel arbitrary: st)
  case 0
  show ?case by (cases "(0 :: nat, fs, st)" rule: alive_bfs.cases) auto
next
  case (Suc fuel)
  obtain al queue follow_next where st: "st = (al, queue, follow_next)" by (cases st)
  show ?case
  proof (cases queue)
    case (Cons q qs)
    obtain p i where q: "q = (p, i)" by (cases q)
    define r where "r = and_then (get_dir fs i) (\<lambda>d. visit_children fs p (children d) (al, qs, follow_next))"
    have "r \<noteq> Crash StackOverflow" unfolding r_def using visit_children_no_overflow [OF assms] by simp
    moreover have "alive_bfs (Suc fuel) fs st = (case r of
        Ok st \<Rightarrow> alive_bfs fuel fs st | Err e \<Rightarrow> Some (Err e) | Crash c \<Rightarrow> Some (Crash c))"
      by (simp add: st Cons q r_def)
    ultimately show ?thesis using Suc.IH by (cases r) simp_all
  qed (simp add: st)
qed

lemma alive_rounds_no_overflow:
  assumes "wf_fs fs" and "ranked rk fs"
  shows "alive_rounds n fs al q \<noteq> Some (Crash StackOverflow)"
proof (induction n arbitrary: al q)
  case (Suc n)
  show ?case
    using Suc alive_bfs_no_overflow [OF assms, of "length q * length (dirs fs)" "(al, q, [])"]
    by (auto simp: alive_follow_once_def split: option.splits res.splits)
qed simp

lemma alive_no_overflow:
  assumes "wf_fs fs" and "ranked rk fs"
  shows "alive fs \<noteq> Some (Crash StackOverflow)"
  using alive_rounds_no_overflow [OF assms] by (auto simp: alive_def)

subsection \<open>Names on a path and fresh names\<close>

definition entry_names :: "abstract_fs \<Rightarrow> name set" where
  "entry_names fs = {nm. \<exists>P x. entry fs (P, nm) = Some x}"

text \<open>The names of the entries and of the targets of the links.\<close>

definition fs_names :: "abstract_fs \<Rightarrow> name set" where
  "fs_names fs = entry_names fs
     \<union> \<Union>{set (segments (link_target fs s)) |s. \<exists>e. entry fs e = Some (NodeSymlink s)}"

lemma fs_namesI:
  "entry fs e = Some x \<Longrightarrow> snd e \<in> fs_names fs"
  "entry fs e = Some (NodeSymlink s) \<Longrightarrow> nm \<in> set (segments (link_target fs s)) \<Longrightarrow> nm \<in> fs_names fs"
  unfolding fs_names_def entry_names_def by (cases e; simp; blast) blast

lemma walk_names:
  "walk rd fs segs ds n p = Ok r \<Longrightarrow> set segs \<subseteq> entry_names fs"
proof (induction segs arbitrary: ds n p)
  case (Cons seg segs)
  obtain ds' i x p' where step: "dir_ix i < length (dirs fs)" "child (dirs fs ! dir_ix i) seg = Some x"
    "walk rd fs segs ds' x p' = Ok r"
    using Cons.prems unfolding walk.simps Let_def by simp blast
  then have "entry fs (i, seg) = Some x" by (simp add: entry_def)
  then show ?case using Cons.IH [OF step(3)] by (auto simp: entry_names_def)
qed simp

lemma resolve_names:
  assumes "resolve_node fs p follow = Ok r"
  shows "set (segments p) \<subseteq> entry_names fs"
proof -
  obtain k where "resolve_node_rec (Suc k) fs p follow [] = Ok r" using resolve_node_to_rec [OF assms] .
  then show ?thesis unfolding resolve_Suc_Ok using walk_names by blast
qed

lemma entry_at_names: "entry_at fs p x \<Longrightarrow> set (segments p) \<subseteq> entry_names fs"
  using resolve_names unfolding entry_at_def by blast

lemma leads_to_dir_names: "leads_to_dir fs p i \<Longrightarrow> set (segments p) \<subseteq> entry_names fs"
  using resolve_names unfolding leads_to_dir_def resolve_dir_def node_to_dir_def by fastforce

lemma canonical_last_name: "canonical q \<Longrightarrow> \<not> is_root q \<Longrightarrow> last_name q \<in> set (segments q)"
  by (cases rule: canonicalE [where 'a = fs_error]) (auto simp: last_name_def is_root_def)

text \<open>
  An operation with a fresh name: the link it creates or moves gets a name that is not in use, and the
  other names are in use. A rank of the names in use extends to the operation.
\<close>

fun fresh_op :: "name set \<Rightarrow> operation \<Rightarrow> bool" where
  "fresh_op used (OpSymlink t p) \<longleftrightarrow> set (segments t) \<subseteq> used \<and> last_name p \<notin> used"
| "fresh_op used (OpRename p q) \<longleftrightarrow> (\<not> is_root p \<longrightarrow> last_name p \<in> used) \<and> last_name q \<notin> used"
| "fresh_op used _ \<longleftrightarrow> True"

text \<open>The names that \<open>op_ranked\<close> compares.\<close>

fun link_names :: "operation \<Rightarrow> name set" where
  "link_names (OpSymlink t p) = insert (last_name p) (set (segments t))"
| "link_names (OpRename p q) = insert (last_name q) (if is_root p then {} else {last_name p})"
| "link_names _ = {}"

definition agree :: "name set \<Rightarrow> (name \<Rightarrow> nat) \<Rightarrow> (name \<Rightarrow> nat) \<Rightarrow> bool" where
  "agree A rk rk' \<longleftrightarrow> (\<forall>nm \<in> A. rk' nm = rk nm)"

lemma agree_mono: "agree B rk rk' \<Longrightarrow> A \<subseteq> B \<Longrightarrow> agree A rk rk'"
  by (auto simp: agree_def)

lemma agree_trans: "agree A rk rk' \<Longrightarrow> agree A rk' rk'' \<Longrightarrow> agree A rk rk''"
  by (simp add: agree_def)

lemma op_ranked_agree: "agree (link_names op) rk rk' \<Longrightarrow> op_ranked rk' op \<longleftrightarrow> op_ranked rk op"
  by (cases op) (auto simp: agree_def)

lemma ranked_agree: "agree (fs_names fs) rk rk' \<Longrightarrow> ranked rk fs \<Longrightarrow> ranked rk' fs"
  unfolding ranked_def agree_def using fs_namesI by (metis (no_types, lifting))

lemma fresh_op_rank:
  assumes "fresh_op used op"
  shows "\<exists>rk'. agree used rk rk' \<and> op_ranked rk' op"
proof -
  have new: "\<exists>rk'. agree used rk rk' \<and> (\<forall>nm \<in> A. rk' nm < rk' x)"
    if "finite A" "A \<subseteq> used" "x \<notin> used" for A x
  proof (intro exI conjI ballI)
    let ?rk' = "rk(x := Suc (Max (rk ` A)))"
    show "agree used rk ?rk'" using that(3) by (auto simp: agree_def)
    fix nm
    assume "nm \<in> A"
    then have "rk nm \<le> Max (rk ` A)" "nm \<noteq> x" using that by auto
    then show "?rk' nm < ?rk' x" by simp
  qed
  show ?thesis
  proof (cases op)
    case (OpSymlink t p)
    then show ?thesis using new [of "set (segments t)" "last_name p"] assms by simp
  next
    case (OpRename p q)
    then show ?thesis using new [of "if is_root p then {} else {last_name p}" "last_name q"] assms
      by (cases "is_root p") auto
  qed (auto simp: agree_def)
qed

lemma apply_op_fs_names:
  assumes "wf_fs fs" and "wf_op op" and "apply_op op fs = (Ok (), fs')"
  shows "fs_names fs' \<subseteq> fs_names fs \<union> set_option (new_entry_name op) \<union> link_names op"
proof
  fix nm
  assume "nm \<in> fs_names fs'"
  then consider P x where "entry fs' (P, nm) = Some x"
    | e s where "entry fs' e = Some (NodeSymlink s)" "nm \<in> set (segments (link_target fs' s))"
    by (auto simp: fs_names_def entry_names_def)
  then show "nm \<in> fs_names fs \<union> set_option (new_entry_name op) \<union> link_names op"
  proof cases
    case 1
    then show ?thesis using apply_op_entry_names [OF assms] fs_namesI(1) by fastforce
  next
    case 2
    from apply_op_links [OF assms 2(1)] show ?thesis
    proof (elim disjE exE conjE)
      fix p
      assume "op = OpSymlink (link_target fs' s) p"
      then show ?thesis using 2(2) by simp
    qed (use 2(2) fs_namesI(2) in auto)
  qed
qed

lemma fs_names_new: "fs_names fs_new = {}"
  by (auto simp: fs_names_def entry_names_def entry_def fs_new_def child_def nth_Cons split: if_splits)

end
