(* ===== verification/Generator_Correct.thy ===== *)
theory Generator_Correct
  imports Generator Ranked
begin

text \<open>
  The generator keeps the invariant of the file system, does not panic and appends exactly one
  operation per call. A new link or a renamed entry has a fresh name, so a rank of the names in use
  extends to it, and no resolution in a generated workload overflows the stack.

  The names come from a supply of fresh names, the interface \<open>name_supply\<close>; its two providers are the
  counter of \<open>generate_new\<close>, here, and the counter that skips used names, in the theory \<open>Mutator\<close>.
\<close>

subsection \<open>Operations on listed nodes succeed\<close>

lemma parent_entry_join:
  assumes "wf_fs fs" and "leads_to_dir fs p i" and "valid_name nm"
  shows "\<exists>ds. parent_entry fs (path_join p nm) = Ok (ds, i, dirs fs ! dir_ix i, nm)"
proof -
  obtain ds where ds: "resolve_dir fs p = Ok (ds, i)" and p: "canonical p"
    using assms(2) by (auto simp: leads_to_dir_def)
  then have "dir_ix i < length (dirs fs)"
    using assms leads_to_dir_range by blast
  then show ?thesis using ds canonical_join_parts(6) [OF p assms(3)] unfolding parent_entry_Ok by blast
qed

lemma fresh_entry:
  "wf_fs fs \<Longrightarrow> leads_to_dir fs p i \<Longrightarrow> entry fs (i, nm) = None \<Longrightarrow> child (dirs fs ! dir_ix i) nm = None"
  using leads_to_dir_range by (auto simp: entry_pair)

lemma mkdir_listed:
  assumes "wf_fs fs" and "leads_to_dir fs p i" and "valid_name nm" and "entry fs (i, nm) = None"
  shows "is_ok (fst (mkdir (path_join p nm) m fs))"
  using parent_entry_join [OF assms(1-3)] fresh_entry [OF assms(1,2,4)] by (auto simp: mkdir_def Let_def)

lemma create_listed:
  assumes "wf_fs fs" and "leads_to_dir fs p i" and "valid_name nm" and "entry fs (i, nm) = None"
  shows "is_ok (fst (create (path_join p nm) m fs))"
  using parent_entry_join [OF assms(1-3)] fresh_entry [OF assms(1,2,4)] by (auto simp: create_def Let_def)

lemma make_symlink_listed:
  assumes "wf_fs fs" and "leads_to_dir fs p i" and "valid_name nm" and "entry fs (i, nm) = None"
  shows "is_ok (fst (make_symlink t (path_join p nm) fs))"
  using parent_entry_join [OF assms(1-3)] fresh_entry [OF assms(1,2,4)] by (auto simp: make_symlink_def Let_def)

lemma entry_at_parent:
  assumes "wf_fs fs" and "entry_at fs p x"
  shows "\<exists>ds i nm. parent_entry fs p = Ok (ds, i, dirs fs ! dir_ix i, nm) \<and> entry fs (i, nm) = Some x"
proof -
  have p: "canonical p" "\<not> is_root p" using assms(2) by (auto simp: entry_at_def)
  obtain parent nm where split: "path_split p = (Ok (parent, nm) :: (fs_error, _) res)"
    using p by (cases rule: canonicalE [OF p(1), where 'a = fs_error]) (auto simp: is_root_def)
  obtain ds i where i: "resolve_dir fs parent = Ok (ds, i)" "child (dirs fs ! dir_ix i) nm = Some x"
    using assms(2) lookup_by_parent [OF assms(1) canonical_child [OF p split], of x]
    by (auto simp: entry_at_def)
  have "dir_ix i < length (dirs fs)"
    using sound_D [OF resolve_dir_sound [OF assms(1)] i(1)] by (simp add: dir_in_def)
  then show ?thesis using i split unfolding parent_entry_Ok by (auto simp: entry_pair)
qed

lemma remove_listed: "wf_fs fs \<Longrightarrow> entry_at fs p x \<Longrightarrow> is_ok (fst (remove p fs))"
  using entry_at_parent [of fs p x] by (auto simp: remove_def entry_at_def entry_def split: if_splits)

lemma hardlink_listed:
  assumes "wf_fs fs" and "entry_at fs q (NodeFile f)" and "leads_to_dir fs p i" and "valid_name nm"
    and "entry fs (i, nm) = None"
  shows "is_ok (fst (hardlink q (path_join p nm) fs))"
proof -
  obtain ds j nm' where old: "parent_entry fs q = Ok (ds, j, dirs fs ! dir_ix j, nm')" "entry fs (j, nm') = Some (NodeFile f)"
    using entry_at_parent [OF assms(1,2)] by blast
  obtain ds' where "resolve_file fs q = Ok (ds', f)"
    using assms(2) resolve_nofollow_file by (auto simp: entry_at_def)
  moreover have "child (dirs fs ! dir_ix j) nm' = Some (NodeFile f)"
    using old(2) by (auto simp: entry_def split: if_splits)
  ultimately show ?thesis using old(1) parent_entry_join [OF assms(1,3,4)] fresh_entry [OF assms(1,3,5)]
    by (auto simp: hardlink_def)
qed

lemma open_listed:
  assumes "wf_fs fs" and "leads_to_file fs p i" and "descriptor (files fs ! file_ix i) = None"
  shows "is_ok (fst (open_file p fs))"
proof -
  obtain ds where i: "resolve_file fs p = Ok (ds, i)" using assms(2) by (auto simp: leads_to_file_def)
  have "file_ix i < length (files fs)" using sound_D [OF resolve_file_sound [OF assms(1)] i] by simp
  then show ?thesis using i assms(3) by (simp add: open_file_def Let_def)
qed

text \<open>A file that lists a descriptor is open under it.\<close>

lemma opened_listed:
  assumes "wf_fs fs" and "file_ix i < length (files fs)" and "descriptor (files fs ! file_ix i) = Some des"
  shows "opened_as fs des (descriptors fs ! fd_ix des, files fs ! file_ix i)"
proof -
  have "wf_file fs (file_ix i)" using assms(1,2) by (rule wf_fs_file)
  then have d: "fd_ix des < length (descriptors fs)" "fd_file (descriptors fs ! fd_ix des) = FileIndex (file_ix i)"
    using assms(3) by (auto simp: wf_file_def)
  then show ?thesis using assms by (simp add: opened_as_def)
qed

subsection \<open>A missing path\<close>

lemma walk_append:
  "walk rd fs (segs @ segs') ds n p =
     and_then (walk rd fs segs ds n p) (\<lambda>(ds', n', p'). walk rd fs segs' ds' n' p')"
proof (induction segs arbitrary: ds n p)
  case (Cons seg segs)
  show ?case
    by (simp add: walk.simps(2) Let_def and_then_assoc split_def Cons.IH)
qed simp

lemma missing_child:
  assumes "wf_fs fs" and "leads_to_dir fs p i" and "valid_name nm" and "entry fs (i, nm) = None"
  shows "\<exists>e. resolve_node fs (path_join p nm) follow = Err e"
proof -
  let ?q = "path_join p nm"
  have p: "canonical p" using assms(2) by (simp add: leads_to_dir_def)
  note q = canonical_join_parts [OF p assms(3)]
  obtain ds where "resolve_dir fs p = Ok (ds, i)" using assms(2) by (auto simp: leads_to_dir_def)
  then obtain k ds' n p' where w: "walk_from_root k fs p = Ok (ds', n, p')" "leads fs n i"
    by (rule resolve_dir_to_walk)
  obtain K where K: "\<forall>k \<ge> K. \<exists>ds1. enter (\<lambda>t. node_to_dir t (resolve_node_rec k fs t True [])) fs n ds'
      (p' @ ''/'' @ nm) = Ok (ds1, i)"
    using leads_enter [OF w(2)] by blast
  define m where "m = max (max k K) (resolve_depth fs)"
  have "walk_from_root m fs p = Ok (ds', n, p')"
    using w(1) by (rule walk_from_root_deeper) (simp add: m_def)
  moreover have "K \<le> m" by (simp add: m_def)
  then obtain ds1 where "enter (\<lambda>t. node_to_dir t (resolve_node_rec m fs t True [])) fs n ds'
      (p' @ ''/'' @ nm) = Ok (ds1, i)"
    using K by blast
  moreover have "dir_ix i < length (dirs fs)" "child (dirs fs ! dir_ix i) nm = None"
    using leads_to_dir_range fresh_entry assms by blast+
  ultimately have "walk_from_root m fs ?q = Err (NotFound (p' @ ''/'' @ nm))"
    unfolding q(1) walk_append by (simp add: walk.simps(2) Let_def enter_def del: append.simps append_Cons)
  then have "resolve_node_rec (Suc m) fs ?q follow [] = Err (NotFound (p' @ ''/'' @ nm))"
    using q(2) by (simp add: resolve_node_rec.simps(2))
  moreover have "resolve_depth fs \<le> Suc m" by (simp add: m_def)
  ultimately show ?thesis using resolve_depth_enough [of fs "Suc m" ?q follow] by auto
qed

text \<open>A rename of a listed node to a fresh name fails only below itself.\<close>

lemma rename_listed:
  assumes "wf_fs fs" and "entry_at fs old x" and "leads_to_dir fs p i" and "valid_name nm"
    and "entry fs (i, nm) = None"
  shows "is_ok (fst (rename old (path_join p nm) fs))
    \<or> (\<exists>ds. parent_entry fs (path_join p nm) = Ok (ds, i, dirs fs ! dir_ix i, nm) \<and> moves_below_itself x ds i
          \<and> rename old (path_join p nm) fs = (Err (RenameToSubdirectoryError old (path_join p nm)), fs))"
proof -
  let ?q = "path_join p nm"
  have p: "canonical p" using assms(3) by (simp add: leads_to_dir_def)
  note q = canonical_join_parts [OF p assms(4)]
  obtain e where "resolve_node fs ?q True = Err e" using missing_child [OF assms(1,3-5)] by blast
  then have guard: "nonempty_dir_at fs ?q = Ok False"
    by (simp add: nonempty_dir_at_def resolve_dir_def node_to_dir_def)
  obtain vd where old: "resolve_node fs old False = Ok (vd, x)" "canonical old"
    using assms(2) by (auto simp: entry_at_def)
  obtain ds where new: "parent_entry fs ?q = Ok (ds, i, dirs fs ! dir_ix i, nm)"
    using parent_entry_join [OF assms(1,3,4)] by blast
  show ?thesis
  proof (cases "moves_below_itself x ds i")
    case True
    then show ?thesis using guard old new by (simp add: rename_def)
  next
    case False
    then show ?thesis
      using rename_succeeds [OF assms(1) old(2) q(5,4) guard old(1) new] by auto
  qed
qed

subsection \<open>The state of the generator\<close>

text \<open>Names that may occur in the file system, and room for a few more writes.\<close>

definition max_write :: nat where
  "max_write = 100000"

definition gen_ok :: "('n \<Rightarrow> name set) \<Rightarrow> ('g, 'n) gen_state \<Rightarrow> bool" where
  "gen_ok taken st \<longleftrightarrow>
     inv_fs (gs_fs st) \<and> fs_names (gs_fs st) \<subseteq> taken (gs_names st)"

definition fs_written :: "('g, 'n) gen_state \<Rightarrow> nat" where
  "fs_written st = written (ops (recording (gs_fs st)))"

text \<open>The kind of the operation that is appended when a kind is drawn: reads and writes are swapped.\<close>

fun emitted :: "operation_kind \<Rightarrow> operation_kind" where
  "emitted KRead = KWrite"
| "emitted KWrite = KRead"
| "emitted k = k"

definition appended ::
    "('n \<Rightarrow> name set) \<Rightarrow> operation_kind \<Rightarrow> ('g, 'n) gen_state \<Rightarrow> (fs_error, unit) res \<times> ('g, 'n) gen_state \<Rightarrow> bool" where
  "appended taken kind st o' \<longleftrightarrow>
     fst o' = Ok () \<and> gen_ok taken (snd o') \<and> taken (gs_names st) \<subseteq> taken (gs_names (snd o'))
     \<and> (\<exists>op. ops (recording (gs_fs (snd o'))) = ops (recording (gs_fs st)) @ [op]
            \<and> kind_of op = emitted kind \<and> wf_op op \<and> op_written op \<le> max_write
            \<and> fresh_op (taken (gs_names st)) op \<and> link_names op \<subseteq> taken (gs_names (snd o'))
            \<and> apply_op op (gs_fs st) = (Ok (), gs_fs (snd o')))"

text \<open>The state after draws and new names, before the operation runs.\<close>

definition advanced :: "('n \<Rightarrow> name set) \<Rightarrow> ('g, 'n) gen_state \<Rightarrow> ('g, 'n) gen_state \<Rightarrow> bool" where
  "advanced taken st st' \<longleftrightarrow>
     gen_ok taken st \<and> gs_fs st' = gs_fs st \<and> taken (gs_names st) \<subseteq> taken (gs_names st')"

lemma forget_unit [simp]: "forget (o' :: ('e, unit) res \<times> 's) = o'"
  by (cases o'; cases "fst o'") auto

lemma same_kind: "same_effect op op' \<Longrightarrow> kind_of op' = kind_of op \<and> op_written op' = op_written op"
  by (cases op) auto

lemma same_effect_wf: "same_effect op op' \<Longrightarrow> wf_op op' \<longleftrightarrow> wf_op op"
  by (cases op) auto

lemma same_effect_links: "same_effect op op' \<Longrightarrow> link_names op' = link_names op \<and> fresh_op T op' = fresh_op T op"
  by (cases op) auto

lemma gen_ok_rng [simp]: "gen_ok taken (st\<lparr>gs_rng := g\<rparr>) \<longleftrightarrow> gen_ok taken st"
  by (simp add: gen_ok_def)

lemma fs_written_simps [simp]:
  "fs_written (st\<lparr>gs_rng := g\<rparr>) = fs_written st"
  "fs_written (st\<lparr>gs_names := n\<rparr>) = fs_written st"
  by (simp_all add: fs_written_def)

lemma gen_ok_inv: "gen_ok taken st \<Longrightarrow> inv_fs (gs_fs st)"
  by (simp add: gen_ok_def)

lemma appended_rng [simp]: "appended taken kind (st\<lparr>gs_rng := g\<rparr>) o' \<longleftrightarrow> appended taken kind st o'"
  by (simp add: appended_def)

lemma advanced_simps [simp]:
  "advanced taken st (st'\<lparr>gs_rng := g\<rparr>) \<longleftrightarrow> advanced taken st st'"
  "advanced taken st st \<longleftrightarrow> gen_ok taken st"
  by (simp_all add: advanced_def)

lemma advanced_ok: "advanced taken st st' \<Longrightarrow> gen_ok taken st'"
  by (auto simp: advanced_def gen_ok_def)

text \<open>One successful operation on the state of the generator.\<close>

lemma appended_op:
  assumes "advanced taken st0 st" and "wf_op op" and "op_written op \<le> max_write"
    and "fs_written st + max_write < 2 ^ 64"
    and "apply_op op (gs_fs st) = (Ok (), fs')" and "kind_of op = emitted kind"
    and "fresh_op (taken (gs_names st0)) op"
    and names: "link_names op \<subseteq> taken (gs_names st)"
      "\<And>nm. new_entry_name op = Some nm \<Longrightarrow> nm \<in> taken (gs_names st)"
  shows "appended taken kind st0 (Ok (), st\<lparr>gs_fs := fs'\<rparr>)"
proof -
  let ?fs = "gs_fs st"
  have ok: "gen_ok taken st0" "gs_fs st0 = ?fs" "taken (gs_names st0) \<subseteq> taken (gs_names st)"
    using assms(1) by (auto simp: advanced_def)
  note inv = inv_fsD [OF gen_ok_inv [OF advanced_ok [OF assms(1)]]]
  have fits: "fits op ?fs" using assms(3,4) by (simp add: fits_def fs_written_def)
  have "wf_fs fs'" using apply_op_good [OF inv(1) assms(2) fits] assms(5) by simp
  then have inv': "inv_fs fs'"
    using apply_op_tree [OF inv(1,2) assms(2,5)] apply_op_names [OF inv(1,3) assms(2,5)]
    by (simp add: inv_fs_def)
  have old: "fs_names ?fs \<subseteq> taken (gs_names st0)" using ok(1,2) by (simp add: gen_ok_def)
  have "fs_names fs' \<subseteq> taken (gs_names st)"
  proof -
    have "set_option (new_entry_name op) \<subseteq> taken (gs_names st)" using names(2) by auto
    then show ?thesis using apply_op_fs_names [OF inv(1) assms(2,5)] old ok(3) names(1) by blast
  qed
  moreover obtain op' where op': "same_effect op op'" "ops (recording fs') = ops (recording ?fs) @ [op']"
    using apply_op_records [OF assms(5)] by blast
  ultimately have "gen_ok taken (st\<lparr>gs_fs := fs'\<rparr>)" using inv' by (simp add: gen_ok_def)
  then show ?thesis unfolding appended_def
    using op'(2) ok(2,3) same_kind [OF op'(1)] same_effect_wf [OF op'(1)] same_effect_apply [OF op'(1)]
      same_effect_links [OF op'(1)] assms(2,3,5,6,7) names(1)
    by (intro conjI exI [of _ op']) simp_all
qed

text \<open>A rank of the file system extends to the state after the operation, so that no link loops.\<close>

lemma appended_rankable:
  assumes "gen_ok taken st" and "appended taken kind st o'" and "rankable (gs_fs st)"
  shows "rankable (gs_fs (snd o'))"
proof -
  obtain rk where rk: "ranked rk (gs_fs st)" using assms(3) by (auto simp: rankable_def)
  obtain op where op: "wf_op op" "fresh_op (taken (gs_names st)) op" "apply_op op (gs_fs st) = (Ok (), gs_fs (snd o'))"
    using assms(2) by (auto simp: appended_def)
  obtain rk' where rk': "agree (taken (gs_names st)) rk rk'" "op_ranked rk' op"
    using fresh_op_rank [OF op(2)] by blast
  have "ranked rk' (gs_fs st)"
    using ranked_agree [OF agree_mono [OF rk'(1)] rk] assms(1) by (simp add: gen_ok_def)
  then have "ranked rk' (gs_fs (snd o'))"
    using apply_op_ranked [OF inv_fsD(1) [OF gen_ok_inv [OF assms(1)]] op(1,3) _ rk'(2)] by blast
  then show ?thesis by (auto simp: rankable_def)
qed

lemma run_unwrap_appended:
  assumes "advanced taken st0 st" and "fs_written st + max_write < 2 ^ 64"
    and "is_ok (fst (f (gs_fs st)))" and "apply_op op (gs_fs st) = forget (f (gs_fs st))"
    and "wf_op op" and "op_written op \<le> max_write" and "kind_of op = emitted kind"
    and "fresh_op (taken (gs_names st0)) op" and "link_names op \<subseteq> taken (gs_names st)"
    and "\<And>nm. new_entry_name op = Some nm \<Longrightarrow> nm \<in> taken (gs_names st)"
  shows "appended taken kind st0 (run_unwrap f st)"
proof -
  obtain a fs' where f: "f (gs_fs st) = (Ok a, fs')"
    using assms(3) by (cases "f (gs_fs st)"; cases "fst (f (gs_fs st))") auto
  then have "apply_op op (gs_fs st) = (Ok (), fs')" using assms(4) by simp
  then show ?thesis
    using appended_op [OF assms(1,5,6,2) _ assms(7-10)] by (simp add: run_unwrap_def f)
qed

text \<open>A draw from a non-empty list.\<close>

lemma pick_elem:
  assumes "good_rng rng" and "xs \<noteq> []"
  shows "\<exists>x \<in> set xs. \<exists>g. pick rng xs st = (Ok x, st\<lparr>gs_rng := g\<rparr>)"
proof -
  obtain i g where ig: "choose_index rng (length xs) (gs_rng st) = (i, g)"
    by (cases "choose_index rng (length xs) (gs_rng st)")
  have "0 < length xs" using assms(2) by simp
  then have "i < length xs" using assms(1) ig unfolding good_rng_def by (metis fst_conv)
  then show ?thesis using assms(2) ig by (auto simp: pick_def vec_get_def)
qed

lemma and_do_pickI:
  assumes "good_rng rng" and "xs \<noteq> []" and "\<And>x g. x \<in> set xs \<Longrightarrow> P (f x (st\<lparr>gs_rng := g\<rparr>))"
  shows "P (and_do (pick rng xs) f st)"
  using pick_elem [OF assms(1,2), of st] assms(3) by (auto simp: and_do_def)

text \<open>A drawn interesting number is small.\<close>

lemma interesting_small: "w \<in> set INTERESTING_UNSIGNED \<Longrightarrow> unat w \<le> max_write"
  by (auto simp: INTERESTING_UNSIGNED_def max_write_def)

lemma interesting_nonempty: "INTERESTING_UNSIGNED \<noteq> []"
  by (simp add: INTERESTING_UNSIGNED_def)

text \<open>What the lists given to the branches hold, and when a kind has something to draw from.\<close>

definition pools_sound ::
    "abstract_fs \<Rightarrow> alive_nodes \<Rightarrow> pathname list \<Rightarrow> pathname list \<Rightarrow> fd_index list \<Rightarrow> bool" where
  "pools_sound fs al dirs_except_root closed opened \<longleftrightarrow>
     alive_sound fs al
     \<and> (\<forall>p \<in> set dirs_except_root. \<exists>x. entry_at fs p x)
     \<and> (\<forall>p \<in> set closed. \<exists>i. leads_to_file fs p i \<and> descriptor (files fs ! file_ix i) = None)
     \<and> (\<forall>d \<in> set opened. \<exists>e. opened_as fs d e)"

fun has_pool ::
    "alive_nodes \<Rightarrow> pathname list \<Rightarrow> pathname list \<Rightarrow> fd_index list \<Rightarrow> operation_kind \<Rightarrow> bool" where
  "has_pool al ds closed opened KRemove \<longleftrightarrow> ds \<noteq> [] \<or> al_files al \<noteq> []"
| "has_pool al ds closed opened KRename \<longleftrightarrow> ds \<noteq> [] \<or> al_files al \<noteq> []"
| "has_pool al ds closed opened KHardlink \<longleftrightarrow> al_files al \<noteq> []"
| "has_pool al ds closed opened KOpen \<longleftrightarrow> closed \<noteq> []"
| "has_pool al ds closed opened KClose \<longleftrightarrow> opened \<noteq> []"
| "has_pool al ds closed opened KRead \<longleftrightarrow> opened \<noteq> []"
| "has_pool al ds closed opened KWrite \<longleftrightarrow> opened \<noteq> []"
| "has_pool al ds closed opened KFSync \<longleftrightarrow> opened \<noteq> []"
| "has_pool al ds closed opened _ \<longleftrightarrow> True"

lemma alive_soundD:
  assumes "alive_sound fs al"
  shows "al_dirs al \<noteq> []"
    and "(i, p) \<in> set (al_dirs al) \<Longrightarrow> leads_to_dir fs p i"
    and "(j, p) \<in> set (al_files al) \<Longrightarrow> entry_at fs p (NodeFile j)"
    and "q \<in> set (al_symlinks al) \<Longrightarrow> \<exists>x. entry_at fs q x"
  using assms by (auto simp: alive_sound_def)

lemma removable_entry:
  assumes "pools_sound fs al ds closed opened" and "p \<in> set (ds @ map snd (al_files al) @ al_symlinks al)"
  shows "\<exists>x. entry_at fs p x"
proof -
  have al: "alive_sound fs al" using assms(1) by (simp add: pools_sound_def)
  consider "p \<in> set ds" | j where "(j, p) \<in> set (al_files al)" | "p \<in> set (al_symlinks al)"
    using assms(2) by auto
  then show ?thesis
  proof cases
    case 1
    then show ?thesis using assms(1) by (simp add: pools_sound_def)
  qed (use alive_soundD [OF al] in blast)+
qed

lemma opened_success:
  assumes "wf_fs fs" and "opened_as fs i e"
  shows "is_ok (fst (close_fd i fs))" and "is_ok (fst (fsync_fd i fs))" and "is_ok (fst (read_fd i n fs))"
    and "unat src \<le> max_write \<Longrightarrow> unat n \<le> max_write \<Longrightarrow>
         written (ops (recording fs)) + max_write < 2 ^ 64 \<Longrightarrow> is_ok (fst (write_fd i src n fs))"
proof -
  obtain des f where e: "e = (des, f)" by (cases e)
  note op = assms(2) [unfolded e]
  show "is_ok (fst (close_fd i fs))" "is_ok (fst (fsync_fd i fs))"
    by (simp_all add: close_fd_def fsync_fd_def opened_asD [OF op])
  show "is_ok (fst (read_fd i n fs))" using read_fd_open [OF assms(1) op, of n] by (metis fst_conv is_ok.simps(1))
  assume small: "unat src \<le> max_write" "unat n \<le> max_write" and room: "written (ops (recording fs)) + max_write < 2 ^ 64"
  have "unat (offset des) + unat n < 2 ^ 64"
    using offset_in_file(2,3) [OF assms(1) op] small room by linarith
  moreover have "unat src + unat n \<le> 2 ^ 64" using small by (simp add: max_write_def)
  ultimately show "is_ok (fst (write_fd i src n fs))"
    using write_fd_open [OF assms(1) op, of src n] by (metis fst_conv is_ok.simps(1))
qed

subsection \<open>The pools of a state\<close>

lemma listed_file_range:
  assumes "wf_fs fs" and "alive_sound fs al" and "(i, p) \<in> set (al_files al @ al_files_symlinked al)"
  shows "file_ix i < length (files fs)" and "leads_to_file fs p i"
proof -
  have l: "leads_to_file fs p i"
    using assms(2,3) resolve_nofollow_file
    by (fastforce simp: alive_sound_def entry_at_def leads_to_file_def)
  then show "leads_to_file fs p i" .
  show "file_ix i < length (files fs)"
    using l sound_D [OF resolve_file_sound [OF assms(1)]] by (fastforce simp: leads_to_file_def)
qed

lemma file_descriptors_Ok:
  "(\<And>i p. (i, p) \<in> set fl \<Longrightarrow> file_ix i < length (files fs)) \<Longrightarrow>
   file_descriptors fs fl = Ok (map (\<lambda>(i, p). (descriptor (files fs ! file_ix i), p)) fl)"
proof (induction fl)
  case (Cons e fl)
  obtain i p where "e = (i, p)" by (cases e)
  then show ?case using Cons by auto
qed simp

lemma descriptor_mem:
  "(d, p) \<in> set (map (\<lambda>(i, p). (descriptor (files fs ! file_ix i), p)) fl)
   \<longleftrightarrow> (\<exists>i. (i, p) \<in> set fl \<and> descriptor (files fs ! file_ix i) = d)"
  by (induction fl) auto

lemma retain_not_set: "(k, w) \<in> set (retain_not k' ws) \<longleftrightarrow> (k, w) \<in> set ws \<and> k \<noteq> k'"
  by (auto simp: retain_not_def)

lemma applicable_set:
  "(k, w) \<in> set (applicable al ds closed opened ws) \<longleftrightarrow> (k, w) \<in> set ws \<and> has_pool al ds closed opened k"
  by (cases k) (auto simp: applicable_def Let_def retain_not_set)

lemma sum_list_filter_le: "sum_list (map f (filter P xs)) \<le> sum_list (map f xs)" for f :: "'a \<Rightarrow> nat"
  by (induction xs) auto

lemma sum_weights_retain: "sum_list (map (unat \<circ> snd) (retain_not k ws)) \<le> sum_list (map (unat \<circ> snd) ws)"
  for ws :: operation_weights
  unfolding retain_not_def by (rule sum_list_filter_le)

lemma sum_weights_applicable:
  "sum_list (map (unat \<circ> snd) (applicable al ds closed opened ws)) \<le> sum_list (map (unat \<circ> snd) ws)"
  unfolding applicable_def Let_def by (auto intro!: sum_weights_retain [THEN order_trans])

text \<open>Weights that can be drawn from in every state: a positive one for a kind that needs no node.\<close>

definition usable_weights :: "operation_weights \<Rightarrow> bool" where
  "usable_weights ws \<longleftrightarrow>
     (\<exists>(k, w) \<in> set ws. k \<in> {KMkDir, KCreate, KSymlink} \<and> 0 < w)
     \<and> sum_list (map (unat \<circ> snd) ws) < 2 ^ 32"

lemma draw_kind:
  assumes "good_rng rng" and "usable_weights ws"
  shows "\<exists>i g k w. choose_weight rng (map snd (applicable al ds closed opened ws)) g0 = (Some i, g)
           \<and> vec_get (applicable al ds closed opened ws) i = Some (k, w)
           \<and> (k, w) \<in> set ws \<and> 0 < w \<and> has_pool al ds closed opened k"
proof -
  let ?ws = "applicable al ds closed opened ws"
  obtain k w where kw: "(k, w) \<in> set ws" "k \<in> {KMkDir, KCreate, KSymlink}" "0 < w"
    using assms(2) by (auto simp: usable_weights_def)
  have "(k, w) \<in> set ?ws" using kw by (auto simp: applicable_set)
  then have "\<exists>w \<in> set (map snd ?ws). 0 < w" using kw(3) by force
  moreover have "sum_list (map unat (map snd ?ws)) < 2 ^ 32"
    using sum_weights_applicable [of al ds closed opened ws] assms(2)
    by (simp add: usable_weights_def comp_def)
  ultimately obtain i where i: "i < length ?ws" "fst (choose_weight rng (map snd ?ws) g0) = Some i" "0 < map snd ?ws ! i"
    using assms(1) unfolding good_rng_def by (metis length_map)
  obtain k' w' where e: "?ws ! i = (k', w')" by (cases "?ws ! i")
  then have "(k', w') \<in> set ?ws" using i(1) by (metis nth_mem)
  then show ?thesis using i e
    by (cases "choose_weight rng (map snd ?ws) g0") (auto simp: applicable_set)
qed

subsection \<open>The supply of names\<close>

lemma entry_at_last_name: "entry_at fs p x \<Longrightarrow> last_name p \<in> fs_names fs"
  using entry_at_names [of fs p x] canonical_last_name [of p] by (auto simp: fs_names_def entry_at_def)

lemma target_entry:
  assumes "alive_sound fs al" and "t \<in> set (map snd (al_dirs al) @ map snd (al_files al) @ al_symlinks al)"
  shows "(\<exists>i. leads_to_dir fs t i) \<or> (\<exists>x. entry_at fs t x)"
proof -
  consider i where "(i, t) \<in> set (al_dirs al)" | j where "(j, t) \<in> set (al_files al)" | "t \<in> set (al_symlinks al)"
    using assms(2) by auto
  then show ?thesis using alive_soundD(2-4) [OF assms(1)] by cases blast+
qed

lemma target_names:
  assumes "alive_sound fs al" and "t \<in> set (map snd (al_dirs al) @ map snd (al_files al) @ al_symlinks al)"
  shows "set (segments t) \<subseteq> fs_names fs"
proof -
  have "set (segments t) \<subseteq> entry_names fs" 
    using target_entry [OF assms] entry_at_names leads_to_dir_names by metis
  then show ?thesis by (auto simp: fs_names_def)
qed

locale name_supply =
  fixes gen_name :: "'n \<Rightarrow> name \<times> 'n" and taken :: "'n \<Rightarrow> name set"
  assumes fresh_valid: "valid_name (fst (gen_name n))"
    and fresh: "fst (gen_name n) \<notin> taken n"
    and taken_next: "insert (fst (gen_name n)) (taken n) \<subseteq> taken (snd (gen_name n))"
begin

lemma and_do_nameI:
  assumes "gen_ok taken st"
    and "\<And>nm n'. \<lbrakk>valid_name nm; nm \<notin> taken (gs_names st); nm \<in> taken n'; advanced taken st (st\<lparr>gs_names := n'\<rparr>)\<rbrakk>
           \<Longrightarrow> P (f nm (st\<lparr>gs_names := n'\<rparr>))"
  shows "P (and_do (new_name gen_name) f st)"
proof -
  obtain nm n' where g: "gen_name (gs_names st) = (nm, n')" by (cases "gen_name (gs_names st)")
  have "valid_name nm" "nm \<notin> taken (gs_names st)" "insert nm (taken (gs_names st)) \<subseteq> taken n'"
    using fresh_valid [of "gs_names st"] fresh [of "gs_names st"] taken_next [of "gs_names st"] g by auto
  then have "P (f nm (st\<lparr>gs_names := n'\<rparr>))"
    using assms(1) by (intro assms(2)) (auto simp: advanced_def)
  then show ?thesis by (simp add: and_do_def new_name_def g)
qed

lemma fresh_no_entry:
  "gen_ok taken st \<Longrightarrow> nm \<notin> taken (gs_names st) \<Longrightarrow> entry (gs_fs st) (i, nm) = None"
  using fs_namesI(1) [of "gs_fs st" "(i, nm)"] by (cases "entry (gs_fs st) (i, nm)") (auto simp: gen_ok_def)

lemma rename_loop_appended:
  assumes "good_rng rng" and "alive_sound (gs_fs st) al" and "entry_at (gs_fs st) old x"
    and "valid_name nm" and "nm \<notin> taken (gs_names st0)"
    and "advanced taken st0 st" and "nm \<in> taken (gs_names st)" and "fs_written st + max_write < 2 ^ 64"
    and "rename_loop fuel rng (al_dirs al) old nm st = Some o'"
  shows "appended taken KRename st0 o'"
  using assms(2-)
proof (induction fuel arbitrary: st)
  case (Suc fuel)
  note wf = inv_fsD(1) [OF gen_ok_inv [OF advanced_ok [OF Suc.prems(5)]]]
  have st0: "gen_ok taken st0" "gs_fs st = gs_fs st0" using Suc.prems(5) by (auto simp: advanced_def)
  have "al_dirs al \<noteq> []" using Suc.prems(1) by (auto simp: alive_sound_def)
  then obtain e g where e: "e \<in> set (al_dirs al)" "pick rng (al_dirs al) st = (Ok e, st\<lparr>gs_rng := g\<rparr>)"
    using pick_elem [OF assms(1)] by blast
  obtain i p where ip: "e = (i, p)" by (cases e)
  have p: "leads_to_dir (gs_fs st) p i" using e(1) ip Suc.prems(1) by (auto simp: alive_sound_def)
  have none: "entry (gs_fs st) (i, nm) = None" using fresh_no_entry [OF st0(1) Suc.prems(4)] st0(2) by simp
  let ?q = "path_join p nm"
  from rename_listed [OF wf Suc.prems(2) p Suc.prems(3) none] show ?case
  proof (elim disjE exE conjE)
    assume "is_ok (fst (rename old ?q (gs_fs st)))"
    then obtain n fs' where r: "rename old ?q (gs_fs st) = (Ok n, fs')"
      by (cases "rename old ?q (gs_fs st)"; cases "fst (rename old ?q (gs_fs st))") auto
    have q: "canonical ?q" "\<not> is_root ?q" "last_name ?q = nm"
      using canonical_join_parts [OF _ Suc.prems(3), of p] p by (auto simp: leads_to_dir_def last_name_def)
    have "last_name old \<in> taken (gs_names st0)"
      using entry_at_last_name [OF Suc.prems(2)] st0 by (auto simp: gen_ok_def)
    moreover from this have "last_name old \<in> taken (gs_names st)" using Suc.prems(5) by (auto simp: advanced_def)
    ultimately have "appended taken KRename st0 (Ok (), st\<lparr>gs_rng := g\<rparr>\<lparr>gs_fs := fs'\<rparr>)"
      using Suc.prems r q by (intro appended_op [of _ _ _ "OpRename old ?q"]) (auto simp: entry_at_def max_write_def)
    then show ?thesis using Suc.prems(8) e(2) ip r by (simp add: Let_def)
  next
    assume r: "rename old ?q (gs_fs st) = (Err (RenameToSubdirectoryError old ?q), gs_fs st)"
    have "rename_loop fuel rng (al_dirs al) old nm (st\<lparr>gs_rng := g\<rparr>) = Some o'"
      using Suc.prems(8) e(2) ip r by (simp add: Let_def)
    then show ?thesis using Suc.prems by (intro Suc.IH [of "st\<lparr>gs_rng := g\<rparr>"]) auto
  qed
qed simp

text \<open>The branches that add an entry under a fresh name in a listed directory.\<close>

lemma add_entry_appended:
  assumes "good_rng rng" and "pools_sound (gs_fs st) al ds closed opened" and "gen_ok taken st"
    and "fs_written st + max_write < 2 ^ 64"
    and ok: "\<And>p i nm. leads_to_dir (gs_fs st) p i \<Longrightarrow> valid_name nm \<Longrightarrow> entry (gs_fs st) (i, nm) = None \<Longrightarrow>
               is_ok (fst (f (path_join p nm) (gs_fs st)))"
    and op: "\<And>q. canonical q \<Longrightarrow> \<not> is_root q \<Longrightarrow> wf_op (op q)"
      "\<And>q. apply_op (op q) (gs_fs st) = forget (f q (gs_fs st))" "\<And>q. op_written (op q) = 0"
      "\<And>q. kind_of (op q) = emitted kind" "\<And>q. new_entry_name (op q) = Some (last_name q)"
      "\<And>q. last_name q \<notin> taken (gs_names st) \<Longrightarrow> fresh_op (taken (gs_names st)) (op q)"
      "\<And>q. link_names (op q) \<subseteq> insert (last_name q) (taken (gs_names st))"
  shows "appended taken kind st
    (and_do (pick rng (al_dirs al)) (\<lambda>(_, path).
       and_do (new_name gen_name) (\<lambda>nm. run_unwrap (f (path_join path nm)))) st)"
proof -
  have al: "alive_sound (gs_fs st) al" using assms(2) by (simp add: pools_sound_def)
  show ?thesis
  proof (rule and_do_pickI [OF assms(1) alive_soundD(1) [OF al]], clarify)
    fix i p g
    let ?st = "st\<lparr>gs_rng := g\<rparr>"
    assume "(i, p) \<in> set (al_dirs al)"
    then have p: "leads_to_dir (gs_fs st) p i" using al by (auto simp: alive_sound_def)
    show "appended taken kind st
            (and_do (new_name gen_name) (\<lambda>nm. run_unwrap (f (path_join p nm))) ?st)"
    proof (rule and_do_nameI)
      fix nm n'
      assume nm: "valid_name nm" "nm \<notin> taken (gs_names ?st)" "nm \<in> taken n'"
        "advanced taken ?st (?st\<lparr>gs_names := n'\<rparr>)"
      have none: "entry (gs_fs st) (i, nm) = None" using fresh_no_entry [OF assms(3)] nm(2) by simp
      note q = canonical_join_parts [OF _ nm(1), of p]
      have "canonical p" using p by (simp add: leads_to_dir_def)
      then have last: "last_name (path_join p nm) = nm" "wf_op (op (path_join p nm))"
        using q op(1) by (simp_all add: last_name_def)
      have "taken (gs_names st) \<subseteq> taken n'" using nm(4) by (simp add: advanced_def)
      then have links: "link_names (op (path_join p nm)) \<subseteq> taken n'"
        using op(7) [of "path_join p nm"] nm(3) last(1) by auto
      have "appended taken kind ?st (run_unwrap (f (path_join p nm)) (?st\<lparr>gs_names := n'\<rparr>))"
        using nm ok [OF p nm(1) none] op last links assms(4)
        by (intro run_unwrap_appended [of _ _ _ _ "op (path_join p nm)"]) auto
      then show "appended taken kind st (run_unwrap (f (path_join p nm)) (?st\<lparr>gs_names := n'\<rparr>))"
        by simp
    qed (use assms(3) in simp)
  qed
qed

lemma mkdir_branch:
  assumes "good_rng rng" and "pools_sound (gs_fs st) al ds closed opened" and "gen_ok taken st"
    and "fs_written st + max_write < 2 ^ 64"
    and "append_kind fuel rng gen_name al ds closed opened KMkDir st = Some o'"
  shows "appended taken KMkDir st o'"
  using add_entry_appended [OF assms(1-4), of "\<lambda>q. mkdir q generator_mode" "\<lambda>q. OpMkDir q generator_mode" KMkDir]
    mkdir_listed [OF inv_fsD(1) [OF gen_ok_inv [OF assms(3)]]] assms(5)
  by (simp add: append_kind_def)

lemma create_branch:
  assumes "good_rng rng" and "pools_sound (gs_fs st) al ds closed opened" and "gen_ok taken st"
    and "fs_written st + max_write < 2 ^ 64"
    and "append_kind fuel rng gen_name al ds closed opened KCreate st = Some o'"
  shows "appended taken KCreate st o'"
  using add_entry_appended [OF assms(1-4), of "\<lambda>q. create q generator_mode" "\<lambda>q. OpCreate q generator_mode" KCreate]
    create_listed [OF inv_fsD(1) [OF gen_ok_inv [OF assms(3)]]] assms(5)
  by (simp add: append_kind_def)

lemma hardlink_branch:
  assumes "good_rng rng" and "pools_sound (gs_fs st) al ds closed opened" and "gen_ok taken st"
    and "fs_written st + max_write < 2 ^ 64" and "al_files al \<noteq> []"
    and "append_kind fuel rng gen_name al ds closed opened KHardlink st = Some o'"
  shows "appended taken KHardlink st o'"
proof -
  note wf = inv_fsD(1) [OF gen_ok_inv [OF assms(3)]]
  have "appended taken KHardlink st (and_do (pick rng (al_files al)) (\<lambda>(_, file_path).
      and_do (pick rng (al_dirs al)) (\<lambda>(_, dir_path).
      and_do (new_name gen_name) (\<lambda>nm. run_unwrap (hardlink file_path (path_join dir_path nm))))) st)"
  proof (rule and_do_pickI [OF assms(1,5)], clarify)
    fix j q g
    assume "(j, q) \<in> set (al_files al)"
    then have q: "entry_at (gs_fs st) q (NodeFile j)"
      using assms(2) by (auto simp: pools_sound_def alive_sound_def)
    then show "appended taken KHardlink st (and_do (pick rng (al_dirs al)) (\<lambda>(_, dir_path).
        and_do (new_name gen_name) (\<lambda>nm. run_unwrap (hardlink q (path_join dir_path nm)))) (st\<lparr>gs_rng := g\<rparr>))"
      using add_entry_appended [OF assms(1), of "st\<lparr>gs_rng := g\<rparr>" al ds closed opened "hardlink q" "OpHardlink q" KHardlink]
        assms(2-4) hardlink_listed [OF wf q] by (simp add: entry_at_def)
  qed
  then show ?thesis using assms(6) by (simp add: append_kind_def)
qed

lemma symlink_branch:
  assumes "good_rng rng" and "pools_sound (gs_fs st) al ds closed opened" and "gen_ok taken st"
    and "fs_written st + max_write < 2 ^ 64"
    and "append_kind fuel rng gen_name al ds closed opened KSymlink st = Some o'"
  shows "appended taken KSymlink st o'"
proof -
  note wf = inv_fsD(1) [OF gen_ok_inv [OF assms(3)]]
  let ?targets = "map snd (al_dirs al) @ map snd (al_files al) @ al_symlinks al"
  have targets: "?targets \<noteq> []" using assms(2) by (auto simp: pools_sound_def alive_sound_def)
  have "appended taken KSymlink st (and_do (pick rng ?targets) (\<lambda>tgt.
      and_do (pick rng (al_dirs al)) (\<lambda>(_, linkpath).
      and_do (new_name gen_name) (\<lambda>nm. run_unwrap (make_symlink tgt (path_join linkpath nm))))) st)"
  proof (rule and_do_pickI [OF assms(1) targets])
    fix t g
    assume "t \<in> set ?targets"
    then have t: "set (segments t) \<subseteq> taken (gs_names st)"
      using target_names [of "gs_fs st" al t] assms(2,3) by (auto simp: pools_sound_def gen_ok_def)
    show "appended taken KSymlink st (and_do (pick rng (al_dirs al)) (\<lambda>(_, linkpath).
        and_do (new_name gen_name) (\<lambda>nm. run_unwrap (make_symlink t (path_join linkpath nm)))) (st\<lparr>gs_rng := g\<rparr>))"
      using add_entry_appended [OF assms(1), of "st\<lparr>gs_rng := g\<rparr>" al ds closed opened "make_symlink t" "OpSymlink t" KSymlink]
        assms(2-4) make_symlink_listed [OF wf] t subset_insertI2 [OF t] by simp
  qed
  then show ?thesis using assms(5) by (simp add: append_kind_def)
qed

lemma remove_branch:
  assumes "good_rng rng" and "pools_sound (gs_fs st) al ds closed opened" and "gen_ok taken st"
    and "fs_written st + max_write < 2 ^ 64" and "ds \<noteq> [] \<or> al_files al \<noteq> []"
    and "append_kind fuel rng gen_name al ds closed opened KRemove st = Some o'"
  shows "appended taken KRemove st o'"
proof -
  note wf = inv_fsD(1) [OF gen_ok_inv [OF assms(3)]]
  let ?pool = "ds @ map snd (al_files al) @ al_symlinks al"
  have pool: "?pool \<noteq> []" using assms(5) by auto
  have "appended taken KRemove st (and_do (pick rng ?pool) (\<lambda>path. run_unwrap (remove path)) st)"
  proof (rule and_do_pickI [OF assms(1) pool])
    fix p g
    assume "p \<in> set ?pool"
    then obtain x where x: "entry_at (gs_fs st) p x" using removable_entry [OF assms(2)] by blast
    then show "appended taken KRemove st (run_unwrap (remove p) (st\<lparr>gs_rng := g\<rparr>))"
      using run_unwrap_appended [of taken st "st\<lparr>gs_rng := g\<rparr>" "remove p" "OpRemove p" KRemove]
        assms(3,4) remove_listed [OF wf x] by (simp add: entry_at_def max_write_def)
  qed
  then show ?thesis using assms(6) by (simp add: append_kind_def)
qed

lemma rename_branch:
  assumes "good_rng rng" and "pools_sound (gs_fs st) al ds closed opened" and "gen_ok taken st"
    and "fs_written st + max_write < 2 ^ 64" and "ds \<noteq> [] \<or> al_files al \<noteq> []"
    and "append_kind fuel rng gen_name al ds closed opened KRename st = Some o'"
  shows "appended taken KRename st o'"
proof -
  let ?pool = "ds @ map snd (al_files al) @ al_symlinks al"
  have pool: "?pool \<noteq> []" using assms(5) by auto
  obtain p g where p: "p \<in> set ?pool" "pick rng ?pool st = (Ok p, st\<lparr>gs_rng := g\<rparr>)"
    using pick_elem [OF assms(1) pool] by blast
  then obtain x where x: "entry_at (gs_fs st) p x" using removable_entry [OF assms(2)] by blast
  obtain nm n' where nm: "gen_name (gs_names st) = (nm, n')" by (cases "gen_name (gs_names st)")
  let ?st = "st\<lparr>gs_rng := g, gs_names := n'\<rparr>"
  have fresh_nm: "valid_name nm" "nm \<notin> taken (gs_names st)" "insert nm (taken (gs_names st)) \<subseteq> taken n'"
    using fresh_valid [of "gs_names st"] fresh [of "gs_names st"] taken_next [of "gs_names st"] nm by auto
  have "rename_loop fuel rng (al_dirs al) p nm ?st = Some o'"
    using assms(6) p(2) nm by (simp add: append_kind_def and_do_def new_name_def)
  then show ?thesis
    using assms(2-4) x fresh_nm
    by (intro rename_loop_appended [OF assms(1), of ?st]) (auto simp: advanced_def pools_sound_def fs_written_def)
qed

lemma open_branch:
  assumes "good_rng rng" and "pools_sound (gs_fs st) al ds closed opened" and "gen_ok taken st"
    and "fs_written st + max_write < 2 ^ 64" and "closed \<noteq> []"
    and "append_kind fuel rng gen_name al ds closed opened KOpen st = Some o'"
  shows "appended taken KOpen st o'"
proof -
  note wf = inv_fsD(1) [OF gen_ok_inv [OF assms(3)]]
  have "appended taken KOpen st (and_do (pick rng closed) (\<lambda>path. run_unwrap (open_file path)) st)"
  proof (rule and_do_pickI [OF assms(1,5)])
    fix p g
    assume "p \<in> set closed"
    then obtain i where i: "leads_to_file (gs_fs st) p i" "descriptor (files (gs_fs st) ! file_ix i) = None"
      using assms(2) by (auto simp: pools_sound_def)
    then show "appended taken KOpen st (run_unwrap (open_file p) (st\<lparr>gs_rng := g\<rparr>))"
      using run_unwrap_appended [of taken st "st\<lparr>gs_rng := g\<rparr>" "open_file p" "OpOpen p (FileDescriptorIndex 0)" KOpen]
        assms(3,4) open_listed [OF wf i] by (simp add: leads_to_file_def max_write_def)
  qed
  then show ?thesis using assms(6) by (simp add: append_kind_def)
qed

lemma opened_branch:
  assumes "good_rng rng" and "pools_sound (gs_fs st) al ds closed opened" and "gen_ok taken st"
    and "fs_written st + max_write < 2 ^ 64" and "opened \<noteq> []"
    and "append_kind fuel rng gen_name al ds closed opened kind st = Some o'"
    and "kind \<in> {KClose, KFSync, KWrite}"
  shows "appended taken kind st o'"
proof -
  note wf = inv_fsD(1) [OF gen_ok_inv [OF assms(3)]]
  have run: "appended taken kind st (run_unwrap f (st\<lparr>gs_rng := g\<rparr>))"
    if "is_ok (fst (f (gs_fs st)))" "apply_op op (gs_fs st) = forget (f (gs_fs st))" "wf_op op"
      "op_written op \<le> max_write" "kind_of op = emitted kind" "new_entry_name op = None"
      "fresh_op (taken (gs_names st)) op" "link_names op = {}"
    for f :: "abstract_fs \<Rightarrow> (fs_error, 'z) res \<times> abstract_fs" and op and g
    using run_unwrap_appended [of taken st "st\<lparr>gs_rng := g\<rparr>" f op kind] that assms(3,4) by simp
  obtain d g where d: "d \<in> set opened" "pick rng opened st = (Ok d, st\<lparr>gs_rng := g\<rparr>)"
    using pick_elem [OF assms(1,5)] by blast
  then obtain e where e: "opened_as (gs_fs st) d e" using assms(2) by (auto simp: pools_sound_def)
  note ok = opened_success [OF wf e]
  consider "kind = KClose" | "kind = KFSync" | "kind = KWrite" using assms(7) by blast
  then show ?thesis
  proof cases
    case 1
    then show ?thesis using run [of "close_fd d" "OpClose d" g] ok(1) assms(6) d(2)
      by (simp add: append_kind_def and_do_def)
  next
    case 2
    then show ?thesis using run [of "fsync_fd d" "OpFSync d" g] ok(2) assms(6) d(2)
      by (simp add: append_kind_def and_do_def)
  next
    case 3
    obtain n g' where n: "n \<in> set INTERESTING_UNSIGNED"
      "pick rng INTERESTING_UNSIGNED (st\<lparr>gs_rng := g\<rparr>) = (Ok n, st\<lparr>gs_rng := g'\<rparr>)"
      using pick_elem [OF assms(1) interesting_nonempty, of "st\<lparr>gs_rng := g\<rparr>"] by auto
    show ?thesis using 3 run [of "read_fd d n" "OpRead d n" g'] ok(3) assms(6) d(2) n(2)
      by (simp add: append_kind_def and_do_def random_interesting_unsigned_def max_write_def)
  qed
qed

lemma write_branch:
  assumes "good_rng rng" and "pools_sound (gs_fs st) al ds closed opened" and "gen_ok taken st"
    and "fs_written st + max_write < 2 ^ 64" and "opened \<noteq> []"
    and "append_kind fuel rng gen_name al ds closed opened KRead st = Some o'"
  shows "appended taken KRead st o'"
proof -
  note wf = inv_fsD(1) [OF gen_ok_inv [OF assms(3)]]
  obtain d g where d: "d \<in> set opened" "pick rng opened st = (Ok d, st\<lparr>gs_rng := g\<rparr>)"
    using pick_elem [OF assms(1,5)] by blast
  then obtain e where e: "opened_as (gs_fs st) d e" using assms(2) by (auto simp: pools_sound_def)
  obtain s g1 where s: "s \<in> set INTERESTING_UNSIGNED"
    "pick rng INTERESTING_UNSIGNED (st\<lparr>gs_rng := g\<rparr>) = (Ok s, st\<lparr>gs_rng := g1\<rparr>)"
    using pick_elem [OF assms(1) interesting_nonempty, of "st\<lparr>gs_rng := g\<rparr>"] by auto
  obtain n g2 where n: "n \<in> set INTERESTING_UNSIGNED"
    "pick rng INTERESTING_UNSIGNED (st\<lparr>gs_rng := g1\<rparr>) = (Ok n, st\<lparr>gs_rng := g2\<rparr>)"
    using pick_elem [OF assms(1) interesting_nonempty, of "st\<lparr>gs_rng := g1\<rparr>"] by auto
  note small = interesting_small [OF s(1)] interesting_small [OF n(1)]
  have ok: "is_ok (fst (write_fd d s n (gs_fs st)))"
    using opened_success(4) [OF wf e small] assms(4) by (simp add: fs_written_def)
  have o': "o' = run_unwrap (write_fd d s n) (st\<lparr>gs_rng := g2\<rparr>)"
    using assms(6) d(2) s(2) n(2)
    by (simp add: append_kind_def and_do_def random_interesting_unsigned_def)
  have "unat s + unat n \<le> 2 ^ 64" using small by (simp add: max_write_def)
  then show ?thesis unfolding o'
    using run_unwrap_appended [of taken st "st\<lparr>gs_rng := g2\<rparr>" "write_fd d s n" "OpWrite d s n" KRead]
      assms(3,4) ok small(2) by simp
qed

lemma append_kind_appended:
  assumes "good_rng rng" and "pools_sound (gs_fs st) al ds closed opened" and "gen_ok taken st"
    and "fs_written st + max_write < 2 ^ 64" and "has_pool al ds closed opened kind"
    and "append_kind fuel rng gen_name al ds closed opened kind st = Some o'"
  shows "appended taken kind st o'"
  using assms(5,6) mkdir_branch [OF assms(1-4)] create_branch [OF assms(1-4)] hardlink_branch [OF assms(1-4)]
    symlink_branch [OF assms(1-4)] remove_branch [OF assms(1-4)] rename_branch [OF assms(1-4)]
    open_branch [OF assms(1-4)] opened_branch [OF assms(1-4)] write_branch [OF assms(1-4)]
  by (cases kind) simp_all

text \<open>One call of \<open>append_one\<close>.\<close>

lemma append_one_appended:
  assumes "good_rng rng" and "usable_weights weights" and "gen_ok taken st"
    and "fs_written st + max_write < 2 ^ 64"
    and "append_one fuel rng weights gen_name st = Some o'"
  shows "fst o' = Crash StackOverflow \<and> \<not> rankable (gs_fs st)
    \<or> (\<exists>kind w. (kind, w) \<in> set weights \<and> 0 < w \<and> appended taken kind st o')"
proof -
  let ?fs = "gs_fs st"
  note wf = inv_fsD(1) [OF gen_ok_inv [OF assms(3)]]
  have over: "rankable ?fs \<Longrightarrow> alive ?fs \<noteq> Some (Crash StackOverflow)"
    using alive_no_overflow [OF wf] by (auto simp: rankable_def)
  obtain r where r: "alive ?fs = Some r" "safe (alive_sound ?fs) r"
    using alive_ends [OF gen_ok_inv [OF assms(3)]] by blast
  show ?thesis
  proof (cases r)
    case (Ok al)
    with r have al: "alive_sound ?fs al" by simp
    define ds where "ds = map snd (filter (\<lambda>(idx, _). idx \<noteq> root_index) (al_dirs al))"
    let ?desc = "\<lambda>(i, p). (descriptor (files ?fs ! file_ix i), p)"
    define fl where "fl = map ?desc (al_files al @ al_files_symlinked al)"
    define fl' where "fl' = map ?desc (al_files al)"
    have read: "file_descriptors ?fs (al_files al @ al_files_symlinked al) = Ok fl"
      "file_descriptors ?fs (al_files al) = Ok fl'"
      unfolding fl_def fl'_def using listed_file_range(1) [OF wf al]
      by (intro file_descriptors_Ok; auto)+
    define closed where "closed = map snd (filter (\<lambda>(d, _). d = None) fl)"
    define opened where "opened = List.map_filter fst fl'"
    have "\<exists>x. entry_at ?fs p x" if "p \<in> set ds" for p
    proof -
      obtain i where i: "(i, p) \<in> set (al_dirs al)" "i \<noteq> root_index" using \<open>p \<in> set ds\<close> by (auto simp: ds_def)
      then have "leads_to_dir ?fs p i" "is_root p \<or> (\<exists>x. entry_at ?fs p x)"
        using al by (auto simp: alive_sound_def)
      moreover have "\<not> is_root p"
        using root_leads [of ?fs] i(2) \<open>leads_to_dir ?fs p i\<close> by (auto simp: is_root_def leads_to_dir_def)
      ultimately show ?thesis by blast
    qed
    moreover have "\<exists>i. leads_to_file ?fs p i \<and> descriptor (files ?fs ! file_ix i) = None" if "p \<in> set closed" for p
    proof -
      obtain d where "(d, p) \<in> set fl" "d = None" using \<open>p \<in> set closed\<close> by (auto simp: closed_def)
      then obtain i where i: "(i, p) \<in> set (al_files al @ al_files_symlinked al)" "descriptor (files ?fs ! file_ix i) = None"
        unfolding fl_def descriptor_mem by blast
      then show ?thesis using listed_file_range(2) [OF wf al i(1)] by blast
    qed
    moreover have "\<exists>e. opened_as ?fs d e" if "d \<in> set opened" for d
    proof -
      obtain i p where "(i, p) \<in> set (al_files al)" "descriptor (files ?fs ! file_ix i) = Some d"
        using \<open>d \<in> set opened\<close> by (auto simp: opened_def fl'_def List.map_filter_def)
      then show ?thesis using opened_listed [OF wf] listed_file_range(1) [OF wf al, of i p] by auto
    qed
    ultimately have pools: "pools_sound ?fs al ds closed opened" using al by (simp add: pools_sound_def)
    obtain i g k w where draw: "choose_weight rng (map snd (applicable al ds closed opened weights)) (gs_rng st) = (Some i, g)"
      "vec_get (applicable al ds closed opened weights) i = Some (k, w)"
      "(k, w) \<in> set weights" "0 < w" "has_pool al ds closed opened k"
      using draw_kind [OF assms(1,2)] by blast
    have "append_kind fuel rng gen_name al ds closed opened k (st\<lparr>gs_rng := g\<rparr>) = Some o'"
      using assms(5) draw(1,2) r(1) Ok read unfolding append_one_def ds_def closed_def opened_def
      by (simp add: Let_def del: vec_get_eq_Some)
    then have "appended taken k (st\<lparr>gs_rng := g\<rparr>) o'"
      using pools assms(3,4) draw(5) by (intro append_kind_appended [OF assms(1)]) simp_all
    then show ?thesis using draw(3,4) by auto
  qed (use r over assms(5) in \<open>auto simp: append_one_def\<close>)
qed

text \<open>Many calls: one operation each, all successful, and the invariant.\<close>

lemma append_many_appended:
  assumes "good_rng rng" and "usable_weights weights" and "gen_ok taken st"
    and "fs_written st + sz * max_write < 2 ^ 64" and "rankable (gs_fs st)"
    and "append_many sz fuel rng weights gen_name st = Some o'"
  shows "fst o' = Ok () \<and> gen_ok taken (snd o') \<and> fs_written (snd o') \<le> fs_written st + sz * max_write
    \<and> (\<exists>os. ops (recording (gs_fs (snd o'))) = ops (recording (gs_fs st)) @ os \<and> length os = sz
           \<and> (\<forall>op \<in> set os. wf_op op) \<and> replay_ops os (gs_fs st) = (Ok (), gs_fs (snd o'))
           \<and> (\<forall>rk. \<exists>rk'. agree (taken (gs_names st)) rk rk' \<and> (\<forall>op \<in> set os. op_ranked rk' op)))"
  using assms(3-)
proof (induction sz arbitrary: st)
  case 0
  then show ?case by (auto simp: agree_def)
next
  case (Suc sz)
  obtain o1 where o1: "append_one fuel rng weights gen_name st = Some o1"
    using Suc.prems(4) by (cases "append_one fuel rng weights gen_name st") auto
  obtain r st1 where o1_eq: "o1 = (r, st1)" by (cases o1)
  have "fs_written st + max_write < 2 ^ 64" using Suc.prems(2) by simp
  from append_one_appended [OF assms(1,2) Suc.prems(1) this o1] obtain k where
    app: "appended taken k st o1" using Suc.prems(3) by blast
  then obtain op where
    a: "r = Ok ()" "gen_ok taken st1" "taken (gs_names st) \<subseteq> taken (gs_names st1)"
      "ops (recording (gs_fs st1)) = ops (recording (gs_fs st)) @ [op]" "op_written op \<le> max_write"
      "apply_op op (gs_fs st) = (Ok (), gs_fs st1)" "wf_op op"
      "fresh_op (taken (gs_names st)) op" "link_names op \<subseteq> taken (gs_names st1)"
    unfolding appended_def o1_eq by auto
  have rank: "rankable (gs_fs st1)"
    using appended_rankable [OF Suc.prems(1) app Suc.prems(3)] o1_eq by simp
  have w: "fs_written st1 \<le> fs_written st + max_write" using a(4,5) by (simp add: fs_written_def)
  then have "fs_written st1 + sz * max_write < 2 ^ 64" using Suc.prems(2) by simp
  moreover have "append_many sz fuel rng weights gen_name st1 = Some o'"
    using Suc.prems(4) o1 o1_eq a(1) by simp
  ultimately obtain os where os: "fst o' = Ok ()" "gen_ok taken (snd o')"
      "fs_written (snd o') \<le> fs_written st1 + sz * max_write"
      "ops (recording (gs_fs (snd o'))) = ops (recording (gs_fs st1)) @ os" "length os = sz"
      "\<forall>op \<in> set os. wf_op op" "replay_ops os (gs_fs st1) = (Ok (), gs_fs (snd o'))"
      "\<forall>rk. \<exists>rk'. agree (taken (gs_names st1)) rk rk' \<and> (\<forall>op \<in> set os. op_ranked rk' op)"
    using Suc.IH [OF a(2) _ rank] by blast
  have "\<exists>rk'. agree (taken (gs_names st)) rk rk' \<and> (\<forall>op' \<in> set (op # os). op_ranked rk' op')" for rk
  proof -
    obtain rk1 where rk1: "agree (taken (gs_names st)) rk rk1" "op_ranked rk1 op"
      using fresh_op_rank [OF a(8)] by blast
    obtain rk2 where rk2: "agree (taken (gs_names st1)) rk1 rk2" "\<forall>op \<in> set os. op_ranked rk2 op"
      using os(8) by blast
    have "op_ranked rk2 op" using rk1(2) op_ranked_agree [OF agree_mono [OF rk2(1) a(9)]] by simp
    then show ?thesis using agree_trans [OF rk1(1) agree_mono [OF rk2(1) a(3)]] rk2(2) by auto
  qed
  moreover have "replay_ops (op # os) (gs_fs st) = (Ok (), gs_fs (snd o'))" using a(6) os(7) by simp
  moreover have "fs_written (snd o') \<le> fs_written st + Suc sz * max_write" using os(3) w by simp
  ultimately show ?case using os a(4,7) by (intro conjI exI [of _ "op # os"]) simp_all
qed

end

subsection \<open>The counter of names\<close>

lemma digit_not_slash: "d < 10 \<Longrightarrow> digit_char d \<noteq> slash"
  by (auto simp: digit_char_def dest!: arg_cong [of _ _ "of_char :: char \<Rightarrow> nat"])

lemma show_nat_valid: "valid_name (show_nat n)"
  using show_nat_nonempty show_nat_digits digit_not_slash by (fastforce simp: valid_name_def)

definition numbers_below :: "nat \<Rightarrow> name set" where
  "numbers_below n = show_nat ` {..<n}"

interpretation counter: name_supply numbered_name numbers_below
proof
  fix n
  show "valid_name (fst (numbered_name n))" by (simp add: numbered_name_def show_nat_valid)
  show "fst (numbered_name n) \<notin> numbers_below n"
    by (auto simp: numbered_name_def numbers_below_def show_nat_inject)
  show "insert (fst (numbered_name n)) (numbers_below n) \<subseteq> numbers_below (snd (numbered_name n))"
    by (auto simp: numbered_name_def numbers_below_def)
qed

lemma gen_ok_new:
  "gs_fs st = fs_new \<Longrightarrow> gen_ok taken st"
  using fs_reach_inv [OF fs_reach.start] by (simp add: gen_ok_def fs_names_new)

lemma generate_new_result:
  assumes "good_rng rng" and "usable_weights weights" and "sz * max_write < 2 ^ 64"
    and "generate_new fuel rng g sz weights = Some (r, g')"
  shows "\<exists>w fs. r = Ok w \<and> length (ops w) = sz \<and> (\<forall>op \<in> set (ops w). wf_op op) \<and> ordered (ops w)
    \<and> replay w fs_new = (Ok (), fs) \<and> recording fs = w \<and> inv_fs fs"
proof -
  let ?st = "\<lparr>gs_fs = fs_new, gs_rng = g, gs_names = 0 :: nat\<rparr>"
  have new: "ops (recording fs_new) = []" by (simp add: fs_new_def)
  have ok: "gen_ok numbers_below ?st" by (rule gen_ok_new) simp
  obtain o' where o': "append_many sz fuel rng weights numbered_name ?st = Some o'"
    "r = and_then (fst o') (\<lambda>_. Ok (recording (gs_fs (snd o'))))"
    using assms(4) by (auto simp: generate_new_def)
  have room: "fs_written ?st + sz * max_write < 2 ^ 64" using assms(3) by (simp add: fs_written_def new)
  obtain os where a: "fst o' = Ok ()" "gen_ok numbers_below (snd o')" "length os = sz" "\<forall>op \<in> set os. wf_op op"
    "ops (recording (gs_fs (snd o'))) = os" "replay_ops os fs_new = (Ok (), gs_fs (snd o'))"
    "\<forall>rk. \<exists>rk'. agree (numbers_below 0) rk rk' \<and> (\<forall>op \<in> set os. op_ranked rk' op)"
    using counter.append_many_appended [OF assms(1,2) ok room _ o'(1)] rankable_new by (auto simp: new)
  then have "ordered os" unfolding ordered_def by blast
  then show ?thesis using a(1-6) o'(2) by (auto simp: replay_def gen_ok_def)
qed

subsection \<open>The loop of a rename ends\<close>

text \<open>The states of the random source after successive draws from a list of length \<open>n\<close>.\<close>

primrec draw_state :: "'g rng \<Rightarrow> nat \<Rightarrow> nat \<Rightarrow> 'g \<Rightarrow> 'g" where
  "draw_state rng n 0 g = g"
| "draw_state rng n (Suc k) g = draw_state rng n k (snd (choose_index rng n g))"

definition draw_at :: "'g rng \<Rightarrow> 'a list \<Rightarrow> nat \<Rightarrow> 'g \<Rightarrow> 'a" where
  "draw_at rng xs k g = xs ! fst (choose_index rng (length xs) (draw_state rng (length xs) k g))"

lemma root_takes_any_rename:
  assumes "inv_fs fs" and "entry_at fs old x" and "valid_name nm" and "nm \<notin> entry_names fs"
  shows "is_ok (fst (rename old (path_join ''/'' nm) fs))"
proof -
  note wf = inv_fsD(1) [OF assms(1)]
  have none: "entry fs (root_index, nm) = None" using assms(4) by (auto simp: entry_names_def)
  obtain ds i nm' where "parent_entry fs old = Ok (ds, i, dirs fs ! dir_ix i, nm')" "entry fs (i, nm') = Some x"
    using entry_at_parent [OF wf assms(2)] by blast
  then have x: "x \<noteq> NodeDir root_index" using inv_fsD(2) [OF assms(1)] by (auto simp: tree_fs_def)
  have rec: "resolve_node_rec (Suc 0) fs ''/'' True [] = Ok ([], NodeDir root_index)"
    by (rule resolve_Suc_dirI) (simp_all add: is_valid_def is_root_def starts_with_def)
  then have "resolve_dir fs ''/'' = Ok ([], root_index)"
    by (simp add: resolve_dir_def resolve_node_of_rec)
  moreover have "path_split (path_join ''/'' nm) = (Ok (''/'', nm) :: (fs_error, _) res)"
    using canonical_join_parts(6) [OF canonical_root assms(3)] .
  ultimately have "parent_entry fs (path_join ''/'' nm) = Ok (ds, j, d, m) \<Longrightarrow> ds = [] \<and> j = root_index" for ds j d m
    by (auto simp: parent_entry_Ok)
  then show ?thesis
    using rename_listed [OF wf assms(2) root_leads assms(3) none] x
    by (fastforce simp: moves_below_itself_def split: node.splits)
qed

lemma rename_loop_ends:
  assumes "good_rng rng" and "alive_sound (gs_fs st) al" and "inv_fs (gs_fs st)" and "entry_at (gs_fs st) old x"
    and "valid_name nm" and "nm \<notin> entry_names (gs_fs st)"
    and "k < fuel" and "draw_at rng (al_dirs al) k (gs_rng st) = (root_index, ''/'')"
  shows "rename_loop fuel rng (al_dirs al) old nm st \<noteq> None"
  using assms(2-)
proof (induction fuel arbitrary: st k)
  case (Suc fuel)
  note wf = inv_fsD(1) [OF Suc.prems(2)]
  let ?ds = "al_dirs al"
  have ne: "?ds \<noteq> []" using Suc.prems(1) by (auto simp: alive_sound_def)
  obtain i g where ig: "choose_index rng (length ?ds) (gs_rng st) = (i, g)"
    by (cases "choose_index rng (length ?ds) (gs_rng st)")
  have "0 < length ?ds" using ne by simp
  then have range: "i < length ?ds" using assms(1) ig unfolding good_rng_def by (metis fst_conv)
  obtain j p where e: "?ds ! i = (j, p)" by (cases "?ds ! i")
  have pick: "pick rng ?ds st = (Ok (j, p), st\<lparr>gs_rng := g\<rparr>)"
    using ig range e ne by (simp add: pick_def vec_get_def)
  have "(j, p) \<in> set ?ds" using range e by (metis nth_mem)
  then have p: "leads_to_dir (gs_fs st) p j" using Suc.prems(1) by (auto simp: alive_sound_def)
  have none: "entry (gs_fs st) (j, nm) = None" using Suc.prems(5) by (auto simp: entry_names_def)
  from rename_listed [OF wf Suc.prems(3) p Suc.prems(4) none] show ?case
  proof (elim disjE exE conjE)
    assume "is_ok (fst (rename old (path_join p nm) (gs_fs st)))"
    then obtain a fs' where "rename old (path_join p nm) (gs_fs st) = (Ok a, fs')"
      by (cases "rename old (path_join p nm) (gs_fs st)"; cases "fst (rename old (path_join p nm) (gs_fs st))") auto
    then show ?thesis using pick by (simp add: Let_def)
  next
    assume r: "rename old (path_join p nm) (gs_fs st) = (Err (RenameToSubdirectoryError old (path_join p nm)), gs_fs st)"
    then have "p \<noteq> ''/''" using root_takes_any_rename [OF Suc.prems(2-5)] by auto
    then obtain k' where k': "k = Suc k'" using Suc.prems(7) e ig by (cases k) (auto simp: draw_at_def)
    have "rename_loop fuel rng ?ds old nm (st\<lparr>gs_rng := g\<rparr>) \<noteq> None"
      using Suc.prems k' ig by (intro Suc.IH [of _ k']) (auto simp: draw_at_def)
    then show ?thesis using pick r by (simp add: Let_def)
  qed
qed simp

end
