(* ===== verification/Mutator.thy ===== *)
theory Mutator
  imports Generator_Correct
begin

text \<open>
  \<open>abstract_fs/mutator.rs\<close>: removing an operation from a workload and inserting a random one. Both
  replay the changed workload on an empty file system and give up when that fails.

  The closure \<open>gen_name\<close> of \<open>insert\<close> is \<open>next_unused\<close>: the counter that skips the names used in the
  workload, the second provider of \<open>name_supply\<close>.

  An insertion is the replay of the workload with one more operation (\<open>mutator_insert_replays\<close>), and the
  fresh name keeps the workload \<open>ordered\<close>, so that neither mutation overflows the stack.
\<close>

datatype mutation_kind = MInsert | MRemove

type_synonym mutation_weights = "(mutation_kind \<times> u32) list"

subsection \<open>Remove\<close>

text \<open>\<open>if replay(..).is_err() { None } else { Some(fs.recording) }\<close>\<close>

fun replayed :: "(fs_error, unit) res \<times> abstract_fs \<Rightarrow> (fs_error, workload option) res" where
  "replayed (Ok _, fs) = Ok (Some (recording fs))"
| "replayed (Err _, fs) = Ok None"
| "replayed (Crash c, fs) = Crash c"

definition mutator_remove :: "workload \<Rightarrow> nat \<Rightarrow> (fs_error, workload option) res" where
  "mutator_remove w index =
     (if index < length (ops w) then replayed (replay \<lparr>ops = remove_at index (ops w)\<rparr> fs_new)
      else Crash Panicked)"

subsection \<open>Insert\<close>

text \<open>The path segments that occur in an operation; a \<open>Remove\<close> is not looked at.\<close>

fun op_segments :: "operation \<Rightarrow> name list" where
  "op_segments (OpMkDir path _) = segments path"
| "op_segments (OpCreate path _) = segments path"
| "op_segments (OpRemove _) = []"
| "op_segments (OpHardlink old_path new_path) = segments old_path @ segments new_path"
| "op_segments (OpRename old_path new_path) = segments old_path @ segments new_path"
| "op_segments (OpOpen path _) = segments path"
| "op_segments (OpClose _) = []"
| "op_segments (OpRead _ _) = []"
| "op_segments (OpWrite _ _ _) = []"
| "op_segments (OpFSync _) = []"
| "op_segments (OpSymlink tgt linkpath) = segments tgt @ segments linkpath"

definition used_names :: "workload \<Rightarrow> name list" where
  "used_names w = concat (map op_segments (ops w))"

lemma finite_numbered: "finite {m. show_nat m \<in> set used}"
  by (rule finite_imageD [of show_nat])
    (auto intro: finite_subset [of _ "set used"] simp: inj_on_def show_nat_inject)

function next_unused :: "name list \<Rightarrow> nat \<Rightarrow> name \<times> nat" where
  "next_unused used name_idx =
     (let nm = show_nat name_idx
      in if nm \<in> set used then next_unused used (name_idx + 1) else (nm, name_idx + 1))"
  by pat_completeness auto
termination
proof (relation "measure (\<lambda>(used, n). card {m. n \<le> m \<and> show_nat m \<in> set used})")
  fix used n nm
  assume "nm = show_nat n" "nm \<in> set used"
  moreover have "finite {m. n \<le> m \<and> show_nat m \<in> set used}"
    by (rule finite_subset [OF _ finite_numbered [of used]]) auto
  moreover have "{m. n + 1 \<le> m \<and> show_nat m \<in> set used} \<subset> {m. n \<le> m \<and> show_nat m \<in> set used}"
    if "show_nat n \<in> set used"
  proof -
    have "n \<in> {m. n \<le> m \<and> show_nat m \<in> set used}" using that by simp
    moreover have "n \<notin> {m. n + 1 \<le> m \<and> show_nat m \<in> set used}" by simp
    ultimately have "{m. n + 1 \<le> m \<and> show_nat m \<in> set used} \<noteq> {m. n \<le> m \<and> show_nat m \<in> set used}"
      by metis
    moreover have "{m. n + 1 \<le> m \<and> show_nat m \<in> set used} \<subseteq> {m. n \<le> m \<and> show_nat m \<in> set used}"
      by auto
    ultimately show ?thesis by (rule psubsetI [rotated])
  qed
  ultimately show "((used, n + 1), (used, n)) \<in> measure (\<lambda>(used, n). card {m. n \<le> m \<and> show_nat m \<in> set used})"
    by (simp add: psubset_card_mono)
qed simp

declare next_unused.simps [simp del]

definition mutator_insert ::
    "nat \<Rightarrow> 'g rng \<Rightarrow> 'g \<Rightarrow> workload \<Rightarrow> nat \<Rightarrow> operation_weights \<Rightarrow>
     ((fs_error, workload option) res \<times> 'g) option" where
  "mutator_insert fuel rng g w index weights =
     (let used = used_names w
      in if length (ops w) < index then Some (Crash Panicked, g)
         else case replay \<lparr>ops = take index (ops w)\<rparr> fs_new of
           (Err _, _) \<Rightarrow> Some (Ok None, g)
         | (Crash c, _) \<Rightarrow> Some (Crash c, g)
         | (Ok _, fs) \<Rightarrow>
             map_option (\<lambda>(r, st). (and_then r (\<lambda>_. replayed (replay \<lparr>ops = drop index (ops w)\<rparr> (gs_fs st))), gs_rng st))
               (append_one fuel rng weights (next_unused used)
                  \<lparr>gs_fs = fs, gs_rng = g, gs_names = 0\<rparr>))"

subsection \<open>The skipping counter supplies fresh names\<close>

lemma next_unused_spec:
  "\<exists>m \<ge> n. next_unused used n = (show_nat m, Suc m) \<and> show_nat m \<notin> set used"
proof (induction used n rule: next_unused.induct)
  case (1 used n)
  show ?case
  proof (cases "show_nat n \<in> set used")
    case True
    then obtain m where "m \<ge> n + 1" "next_unused used (n + 1) = (show_nat m, Suc m)" "show_nat m \<notin> set used"
      using "1.IH" by blast
    then show ?thesis using True by (subst next_unused.simps) (auto simp: Let_def intro: Suc_leD)
  next
    case False
    then show ?thesis by (subst next_unused.simps) (auto simp: Let_def)
  qed
qed

definition used_or_below :: "name list \<Rightarrow> nat \<Rightarrow> name set" where
  "used_or_below used n = set used \<union> numbers_below n"

interpretation skipping: name_supply "next_unused used" "used_or_below used" for used
proof
  fix n
  obtain m where m: "m \<ge> n" "next_unused used n = (show_nat m, Suc m)" "show_nat m \<notin> set used"
    using next_unused_spec by blast
  show "valid_name (fst (next_unused used n))" using m by (simp add: show_nat_valid)
  show "fst (next_unused used n) \<notin> used_or_below used n"
    using m by (auto simp: used_or_below_def numbers_below_def show_nat_inject)
  show "insert (fst (next_unused used n)) (used_or_below used n) \<subseteq> used_or_below used (snd (next_unused used n))"
    using m by (auto simp: used_or_below_def numbers_below_def)
qed

subsection \<open>Replaying a workload\<close>

definition wf_ops :: "operation list \<Rightarrow> bool" where
  "wf_ops os \<longleftrightarrow> (\<forall>op \<in> set os. wf_op op)"

lemma wf_ops_simps [simp]:
  "wf_ops []" "wf_ops (op # os) \<longleftrightarrow> wf_op op \<and> wf_ops os" "wf_ops (xs @ ys) \<longleftrightarrow> wf_ops xs \<and> wf_ops ys"
  by (auto simp: wf_ops_def)

lemma written_Cons [simp]: "written (op # os) = op_written op + written os"
  by (simp add: written_def)

lemma written_append [simp]: "written (xs @ ys) = written xs + written ys"
  by (simp add: written_def)

lemma same_effect_written: "list_all2 same_effect xs ys \<Longrightarrow> written ys = written xs"
  by (induction rule: list_all2_induct) (auto dest: same_kind)

text \<open>The names an operation may add to the file system.\<close>

definition added_names :: "operation \<Rightarrow> name set" where
  "added_names op = set_option (new_entry_name op) \<union> link_names op"

text \<open>
  Replaying from a state with the invariant: no panic; on success the invariant holds, the operations
  are recorded up to the descriptors of the opens, and new names come from the operations.
\<close>

lemma replay_ops_good:
  assumes "inv_fs fs" and "wf_ops os" and "written (ops (recording fs)) + written os < 2 ^ 64"
    and "replay_ops os fs = (r, fs')"
  shows "r \<noteq> Crash Panicked \<and>
    (is_ok r \<longrightarrow> inv_fs fs'
       \<and> (\<exists>os'. ops (recording fs') = ops (recording fs) @ os' \<and> list_all2 same_effect os os')
       \<and> fs_names fs' \<subseteq> fs_names fs \<union> \<Union>(added_names ` set os))"
  using assms
proof (induction os arbitrary: fs)
  case (Cons op os)
  obtain r1 fs1 where run: "apply_op op fs = (r1, fs1)" by (cases "apply_op op fs")
  note inv = inv_fsD [OF Cons.prems(1)]
  have fits: "fits op fs" using Cons.prems(3) by (simp add: fits_def)
  have good: "no_panic r1" "wf_fs fs1" using apply_op_good [OF inv(1) _ fits] Cons.prems(2) run by auto
  show ?case
  proof (cases r1)
    case (Ok u)
    have run': "apply_op op fs = (Ok (), fs1)" and wf_op: "wf_op op" using run Ok Cons.prems(2) by simp_all
    have "inv_fs fs1"
      using good(2) apply_op_tree [OF inv(1,2) wf_op run'] apply_op_names [OF inv(1,3) wf_op run']
      by (simp add: inv_fs_def)
    moreover obtain op' where op': "same_effect op op'" "ops (recording fs1) = ops (recording fs) @ [op']"
      using apply_op_records [OF run'] by blast
    moreover have "written (ops (recording fs1)) + written os < 2 ^ 64"
      using Cons.prems(3) op' same_kind [OF op'(1)] by simp
    moreover have rest: "replay_ops os fs1 = (r, fs')" using Cons.prems(4) run' by simp
    ultimately have IH: "r \<noteq> Crash Panicked \<and> (is_ok r \<longrightarrow> inv_fs fs'
       \<and> (\<exists>os'. ops (recording fs') = ops (recording fs1) @ os' \<and> list_all2 same_effect os os')
       \<and> fs_names fs' \<subseteq> fs_names fs1 \<union> \<Union>(added_names ` set os))"
      using Cons.IH [of fs1] Cons.prems(2) by simp
    have "fs_names fs1 \<subseteq> fs_names fs \<union> added_names op"
      using apply_op_fs_names [OF inv(1) wf_op run'] by (auto simp: added_names_def)
    then show ?thesis using IH op' by fastforce
  next
    case (Err e)
    then have "r = Err e" using Cons.prems(4) run by simp
    then show ?thesis by simp
  next
    case (Crash c)
    then have "r = Crash c" using Cons.prems(4) run by simp
    then show ?thesis using good(1) Crash by (auto simp: no_panic_def)
  qed
qed auto

lemma fs_written_new: "ops (recording fs_new) = []"
  by (simp add: fs_new_def)

lemma inv_fs_new: "inv_fs fs_new"
  by (rule fs_reach_inv [OF fs_reach.start])

lemma same_effect_replay: "list_all2 same_effect os os' \<Longrightarrow> replay_ops os' fs = replay_ops os fs"
proof (induction os os' arbitrary: fs rule: list_all2_induct)
  case (Cons op os op' os')
  then show ?case by (simp add: same_effect_apply split: prod.split)
qed simp

text \<open>A workload that was produced by replaying replays to the same state.\<close>

lemma replayed_again:
  assumes "wf_ops os" and "written os < 2 ^ 64" and "replay_ops os fs_new = (Ok (), fs)"
  shows "replay (recording fs) fs_new = (Ok (), fs)" and "list_all2 same_effect os (ops (recording fs))"
    and "inv_fs fs"
proof -
  have "inv_fs fs \<and> (\<exists>os'. ops (recording fs) = os' \<and> list_all2 same_effect os os')"
    using replay_ops_good [OF inv_fs_new assms(1) _ assms(3)] assms(2) by (simp add: fs_written_new)
  then show "inv_fs fs" "list_all2 same_effect os (ops (recording fs))" by auto
  then show "replay (recording fs) fs_new = (Ok (), fs)"
    using assms(3) same_effect_replay by (simp add: replay_def)
qed

lemma replayed_result:
  assumes "replayed (replay w fs) = Ok (Some w')"
  obtains fs' where "replay w fs = (Ok (), fs')" "w' = recording fs'"
proof -
  obtain r fs' where r: "replay w fs = (r, fs')" by (cases "replay w fs")
  then show thesis using that assms by (cases r) auto
qed

lemma written_remove_at: "written (remove_at i os) \<le> written os"
proof (induction os arbitrary: i)
  case (Cons op os)
  show ?case using Cons [of "i - 1"] by (cases i) (auto simp: remove_at_def)
qed (simp add: remove_at_def)

lemma wf_ops_remove_at: "wf_ops os \<Longrightarrow> wf_ops (remove_at i os)"
  unfolding wf_ops_def remove_at_def by (auto dest: in_set_takeD in_set_dropD)

text \<open>The generator draws small sizes only, so the sizes of a long workload do not overflow.\<close>

definition small_writes :: "operation list \<Rightarrow> bool" where
  "small_writes os \<longleftrightarrow> (\<forall>op \<in> set os. op_written op \<le> max_write)"

lemma small_writes_simps [simp]:
  "small_writes []" "small_writes (op # os) \<longleftrightarrow> op_written op \<le> max_write \<and> small_writes os"
  "small_writes (xs @ ys) \<longleftrightarrow> small_writes xs \<and> small_writes ys"
  by (auto simp: small_writes_def)

lemma same_effect_small: "list_all2 same_effect os os' \<Longrightarrow> small_writes os' \<longleftrightarrow> small_writes os"
  by (induction rule: list_all2_induct) (auto dest: same_kind)

lemma small_writes_remove_at: "small_writes os \<Longrightarrow> small_writes (remove_at i os)"
  unfolding small_writes_def remove_at_def by (auto dest: in_set_takeD in_set_dropD)

lemma small_writes_insert: "small_writes os \<Longrightarrow> op_written op \<le> max_write \<Longrightarrow> small_writes (take i os @ op # drop i os)"
  unfolding small_writes_def by (auto dest: in_set_takeD in_set_dropD)

lemma small_writes_written: "small_writes os \<Longrightarrow> written os \<le> length os * max_write"
  by (induction os) auto

lemma same_effect_wf_ops: "list_all2 same_effect os os' \<Longrightarrow> wf_ops os \<Longrightarrow> wf_ops os'"
  by (induction rule: list_all2_induct) (auto simp: same_effect_wf)

subsection \<open>Results of the mutations\<close>

text \<open>The outcome of replaying a changed workload on an empty file system.\<close>

lemma same_effect_ordered:
  assumes "list_all2 same_effect os os'" and "ordered os"
  shows "ordered os'"
proof -
  have "(\<forall>op \<in> set os. op_ranked rk op) \<Longrightarrow> (\<forall>op \<in> set os'. op_ranked rk op)" for rk
    using assms(1) by (induction rule: list_all2_induct) (auto simp: same_effect_ranked)
  then show ?thesis using assms(2) unfolding ordered_def by blast
qed

lemma replayed_outcome:
  assumes "wf_ops os" and "written os < 2 ^ 64"
  shows "replayed (replay \<lparr>ops = os\<rparr> fs_new) \<noteq> Crash Panicked"
    and "ordered os \<Longrightarrow> replayed (replay \<lparr>ops = os\<rparr> fs_new) \<noteq> Crash StackOverflow"
    and "replayed (replay \<lparr>ops = os\<rparr> fs_new) = Ok (Some w') \<Longrightarrow>
      list_all2 same_effect os (ops w') \<and> wf_ops (ops w') \<and> written (ops w') = written os
      \<and> (ordered os \<longrightarrow> ordered (ops w')) \<and> (\<exists>fs. replay w' fs_new = (Ok (), fs) \<and> recording fs = w')"
proof -
  obtain r fs where run: "replay_ops os fs_new = (r, fs)" by (cases "replay_ops os fs_new")
  have crash: "replayed (replay \<lparr>ops = os\<rparr> fs_new) = Crash c \<longleftrightarrow> r = Crash c" for c
    using run by (cases r) (auto simp: replay_def)
  show "replayed (replay \<lparr>ops = os\<rparr> fs_new) \<noteq> Crash Panicked"
    using replay_ops_good [OF inv_fs_new assms(1) _ run] assms(2) by (simp add: crash fs_written_new)
  show "replayed (replay \<lparr>ops = os\<rparr> fs_new) \<noteq> Crash StackOverflow" if "ordered os"
    using replay_ops_ranked [OF inv_fs_new ranked_new _ _ run] that assms
    by (auto simp: crash fs_written_new ordered_def wf_ops_def)
  assume "replayed (replay \<lparr>ops = os\<rparr> fs_new) = Ok (Some w')"
  then obtain fs' where "replay \<lparr>ops = os\<rparr> fs_new = (Ok (), fs')" "w' = recording fs'"
    by (rule replayed_result)
  then have fs': "replay_ops os fs_new = (Ok (), fs')" "w' = recording fs'" by (simp_all add: replay_def)
  note again = replayed_again [OF assms fs'(1)]
  show "list_all2 same_effect os (ops w') \<and> wf_ops (ops w') \<and> written (ops w') = written os
      \<and> (ordered os \<longrightarrow> ordered (ops w')) \<and> (\<exists>fs. replay w' fs_new = (Ok (), fs) \<and> recording fs = w')"
    using again fs'(2) same_effect_wf_ops [OF _ assms(1)] same_effect_written same_effect_ordered by auto
qed

lemma ordered_remove_at: "ordered os \<Longrightarrow> ordered (remove_at i os)"
  by (erule ordered_mono) (auto simp: remove_at_def dest: in_set_takeD in_set_dropD)

lemma mutator_remove_result:
  assumes "wf_ops (ops w)" and "written (ops w) < 2 ^ 64" and "i < length (ops w)"
  shows "mutator_remove w i \<noteq> Crash Panicked"
    and "ordered (ops w) \<Longrightarrow> mutator_remove w i \<noteq> Crash StackOverflow"
    and "mutator_remove w i = Ok (Some w') \<Longrightarrow>
         list_all2 same_effect (remove_at i (ops w)) (ops w') \<and> wf_ops (ops w') \<and> written (ops w') \<le> written (ops w)
         \<and> (ordered (ops w) \<longrightarrow> ordered (ops w')) \<and> (\<exists>fs. replay w' fs_new = (Ok (), fs) \<and> recording fs = w')"
proof -
  let ?os = "remove_at i (ops w)"
  have os: "wf_ops ?os" "written ?os < 2 ^ 64"
    using assms wf_ops_remove_at written_remove_at le_less_trans by blast+
  have eq: "mutator_remove w i = replayed (replay \<lparr>ops = ?os\<rparr> fs_new)"
    using assms(3) by (simp add: mutator_remove_def)
  note outcome = replayed_outcome [OF os]
  show "mutator_remove w i \<noteq> Crash Panicked" using outcome(1) by (simp add: eq)
  show "ordered (ops w) \<Longrightarrow> mutator_remove w i \<noteq> Crash StackOverflow"
    using outcome(2) ordered_remove_at by (simp add: eq)
  assume "mutator_remove w i = Ok (Some w')"
  then show "list_all2 same_effect ?os (ops w') \<and> wf_ops (ops w') \<and> written (ops w') \<le> written (ops w)
      \<and> (ordered (ops w) \<longrightarrow> ordered (ops w')) \<and> (\<exists>fs. replay w' fs_new = (Ok (), fs) \<and> recording fs = w')"
    using outcome(3) [of w'] written_remove_at [of i "ops w"] ordered_remove_at by (simp add: eq)
qed

subsection \<open>An insertion is the replay of the workload with one more operation\<close>

lemma added_names_used: "wf_op op \<Longrightarrow> added_names op \<subseteq> set (op_segments op)"
  by (cases op) (auto simp: added_names_def dest: canonical_last_name)

lemma used_namesI: "op \<in> set (ops w) \<Longrightarrow> wf_op op \<Longrightarrow> added_names op \<subseteq> set (used_names w)"
  using added_names_used by (auto simp: used_names_def)

lemma ordered_insert:
  assumes "ordered (xs @ ys)" and "\<And>op. op \<in> set (xs @ ys) \<Longrightarrow> link_names op \<subseteq> used" and "fresh_op used op"
  shows "ordered (xs @ op # ys)"
proof -
  obtain rk where rk: "\<forall>op \<in> set (xs @ ys). op_ranked rk op" using assms(1) by (auto simp: ordered_def)
  obtain rk' where rk': "agree used rk rk'" "op_ranked rk' op" using fresh_op_rank [OF assms(3)] by blast
  have "op_ranked rk' op'" if "op' \<in> set (xs @ ys)" for op'
    using op_ranked_agree [OF agree_mono [OF rk'(1) assms(2) [OF that]]] rk that by blast
  then show ?thesis using rk'(2) unfolding ordered_def by (intro exI [of _ rk']) auto
qed

text \<open>The state in which the operation is drawn.\<close>

lemma insertion_state:
  assumes "wf_ops xs" and "written xs < 2 ^ 64" and "replay_ops xs fs_new = (Ok (), fs)"
    and "\<And>op. op \<in> set xs \<Longrightarrow> added_names op \<subseteq> used"
  shows "inv_fs fs" and "fs_names fs \<subseteq> used" and "written (ops (recording fs)) = written xs"
    and "ordered xs \<Longrightarrow> rankable fs"
proof -
  have good: "inv_fs fs \<and> (\<exists>os'. ops (recording fs) = os' \<and> list_all2 same_effect xs os')
       \<and> fs_names fs \<subseteq> fs_names fs_new \<union> \<Union>(added_names ` set xs)"
    using replay_ops_good [OF inv_fs_new assms(1) _ assms(3)] assms(2) by (simp add: fs_written_new)
  then show "inv_fs fs" "written (ops (recording fs)) = written xs" using same_effect_written by auto
  have "\<Union>(added_names ` set xs) \<subseteq> used" using assms(4) by blast
  then show "fs_names fs \<subseteq> used" using good by (auto simp: fs_names_new)
  show "rankable fs" if "ordered xs"
    using replay_ops_ranked [OF inv_fs_new ranked_new _ _ assms(3)] that assms(1,2)
    by (auto simp: rankable_def ordered_def wf_ops_def fs_written_new)
qed

lemma mutator_insert_replays:
  assumes "good_rng rng" and "usable_weights weights" and "wf_ops (ops w)"
    and "written (ops w) + max_write < 2 ^ 64" and "i \<le> length (ops w)"
    and "mutator_insert fuel rng g w i weights = Some (r, g')"
  shows "r = Crash StackOverflow \<and> \<not> ordered (ops w)
    \<or> (\<exists>op. wf_op op \<and> op_written op \<le> max_write \<and> fresh_op (set (used_names w)) op
         \<and> r = replayed (replay \<lparr>ops = take i (ops w) @ op # drop i (ops w)\<rparr> fs_new))"
proof -
  let ?xs = "take i (ops w)" and ?ys = "drop i (ops w)" and ?used = "set (used_names w)"
  have xs: "wf_ops ?xs" "written ?xs + max_write < 2 ^ 64"
    using assms(3,4) written_append [of ?xs ?ys] wf_ops_simps(3) [of ?xs ?ys] by simp_all
  have "added_names op \<subseteq> ?used" if "op \<in> set ?xs" for op
    using that assms(3) used_namesI [of op w] by (auto simp: wf_ops_def dest: in_set_takeD)
  note state = insertion_state [OF xs(1) _ _ this]
  obtain r1 fs1 where r1: "replay_ops ?xs fs_new = (r1, fs1)" by (cases "replay_ops ?xs fs_new")
  show ?thesis
  proof (cases "r1 = Ok ()")
    case True
    let ?st = "\<lparr>gs_fs = fs1, gs_rng = g, gs_names = 0 :: nat\<rparr>"
    note fs1 = state [OF _ r1 [unfolded True]]
    obtain o' where o': "append_one fuel rng weights (next_unused (used_names w)) ?st = Some o'"
      "r = and_then (fst o') (\<lambda>_. replayed (replay \<lparr>ops = ?ys\<rparr> (gs_fs (snd o'))))"
      using assms(5,6) r1 True by (auto simp: mutator_insert_def Let_def replay_def)
    have taken: "used_or_below (used_names w) 0 = ?used" by (simp add: used_or_below_def numbers_below_def)
    have gen: "gen_ok (used_or_below (used_names w)) ?st" using fs1 xs(2) by (simp add: gen_ok_def taken)
    have room: "fs_written ?st + max_write < 2 ^ 64" using fs1(3) xs(2) by (simp add: fs_written_def)
    from skipping.append_one_appended [OF assms(1,2) gen room o'(1)] show ?thesis
    proof (elim disjE exE conjE)
      fix k
      assume "appended (used_or_below (used_names w)) k ?st o'"
      then obtain op where op: "fst o' = Ok ()" "wf_op op" "op_written op \<le> max_write"
        "fresh_op ?used op" "apply_op op fs1 = (Ok (), gs_fs (snd o'))"
        by (auto simp: appended_def taken)
      then have "r = replayed (replay \<lparr>ops = ?xs @ op # ?ys\<rparr> fs_new)"
        using r1 True o'(2) by (simp add: replay_def replay_ops_append)
      then show ?thesis using op by blast
    next
      assume "fst o' = Crash StackOverflow" "\<not> rankable (gs_fs ?st)"
      moreover have "ordered (ops w) \<Longrightarrow> ordered ?xs" by (erule ordered_mono) (auto dest: in_set_takeD)
      ultimately show ?thesis using fs1(4) xs(2) o'(2) by auto
    qed
  next
    case False
    have "r = replayed (replay \<lparr>ops = ?xs @ OpFSync (FileDescriptorIndex 0) # ?ys\<rparr> fs_new)"
      using False assms(5,6) r1
      by (cases r1) (auto simp: mutator_insert_def Let_def replay_def replay_ops_append)
    then show ?thesis by (intro disjI2 exI [of _ "OpFSync (FileDescriptorIndex 0)"]) simp
  qed
qed

lemma mutator_insert_result:
  assumes "good_rng rng" and "usable_weights weights" and "wf_ops (ops w)"
    and "written (ops w) + max_write < 2 ^ 64" and "i \<le> length (ops w)"
    and "mutator_insert fuel rng g w i weights = Some (r, g')"
  shows "r \<noteq> Crash Panicked" and "ordered (ops w) \<Longrightarrow> r \<noteq> Crash StackOverflow"
    and "r = Ok (Some w') \<Longrightarrow> wf_ops (ops w') \<and> written (ops w') \<le> written (ops w) + max_write
         \<and> (\<exists>op. wf_op op \<and> op_written op \<le> max_write
              \<and> list_all2 same_effect (take i (ops w) @ op # drop i (ops w)) (ops w'))
         \<and> (ordered (ops w) \<longrightarrow> ordered (ops w')) \<and> (\<exists>fs. replay w' fs_new = (Ok (), fs) \<and> recording fs = w')"
proof -
  let ?os = "\<lambda>op. take i (ops w) @ op # drop i (ops w)"
  have wr: "written (?os op) = written (ops w) + op_written op" for op
    using written_append [of "take i (ops w)" "drop i (ops w)"] by simp
  have wf: "wf_ops (?os op) \<longleftrightarrow> wf_op op" for op
    using assms(3) wf_ops_simps(3) [of "take i (ops w)" "drop i (ops w)"] by simp
  have ord: "ordered (?os op)" if "ordered (ops w)" "fresh_op (set (used_names w)) op" for op
    using that used_namesI [of _ w] assms(3)
    by (intro ordered_insert [of _ _ "set (used_names w)"]) (auto simp: wf_ops_def added_names_def)
  from mutator_insert_replays [OF assms]
  consider "r = Crash StackOverflow" "\<not> ordered (ops w)"
    | op where "wf_op op" "op_written op \<le> max_write" "fresh_op (set (used_names w)) op"
      "r = replayed (replay \<lparr>ops = ?os op\<rparr> fs_new)" by blast
  then have "r \<noteq> Crash Panicked \<and> (ordered (ops w) \<longrightarrow> r \<noteq> Crash StackOverflow)
    \<and> (r = Ok (Some w') \<longrightarrow> wf_ops (ops w') \<and> written (ops w') \<le> written (ops w) + max_write
         \<and> (\<exists>op. wf_op op \<and> op_written op \<le> max_write \<and> list_all2 same_effect (?os op) (ops w'))
         \<and> (ordered (ops w) \<longrightarrow> ordered (ops w')) \<and> (\<exists>fs. replay w' fs_new = (Ok (), fs) \<and> recording fs = w'))"
  proof cases
    case (2 op)
    have os: "wf_ops (?os op)" using 2(1) wf by blast
    have "written (?os op) < 2 ^ 64" using 2(2) assms(4) wr [of op] by linarith
    from replayed_outcome [OF os this] show ?thesis using 2 ord wr by auto
  qed simp
  then show "r \<noteq> Crash Panicked" "ordered (ops w) \<Longrightarrow> r \<noteq> Crash StackOverflow"
    "r = Ok (Some w') \<Longrightarrow> wf_ops (ops w') \<and> written (ops w') \<le> written (ops w) + max_write
         \<and> (\<exists>op. wf_op op \<and> op_written op \<le> max_write \<and> list_all2 same_effect (?os op) (ops w'))
         \<and> (ordered (ops w) \<longrightarrow> ordered (ops w')) \<and> (\<exists>fs. replay w' fs_new = (Ok (), fs) \<and> recording fs = w')"
    by blast+
qed

end
