(* ===== verification/Generator_Ends.thy ===== *)
theory Generator_Ends
  imports Mutator
begin

text \<open>
  The generator and the insert mutation end. Their only open loop is the one of a rename, which draws
  directories until one takes the node. It ends when the random source draws every position sooner or
  later; from then on more fuel changes nothing.
\<close>

definition fair_rng :: "'g rng \<Rightarrow> bool" where
  "fair_rng rng \<longleftrightarrow> (\<forall>n i g. i < n \<longrightarrow> (\<exists>k. fst (choose_index rng n (draw_state rng n k g)) = i))"

subsection \<open>More fuel gives the same result\<close>

lemma rename_loop_mono:
  "rename_loop fuel rng ds old nm st = Some o' \<Longrightarrow> fuel \<le> fuel' \<Longrightarrow> rename_loop fuel' rng ds old nm st = Some o'"
proof (induction fuel arbitrary: st fuel')
  case (Suc fuel)
  obtain m where m: "fuel' = Suc m" "fuel \<le> m" using Suc.prems(2) by (cases fuel') auto
  show ?case using Suc.prems(1) Suc.IH [OF _ m(2)] unfolding m(1)
    by (auto simp: Let_def split: res.splits prod.splits fs_error.splits)
qed simp

lemma append_kind_mono:
  assumes "append_kind fuel rng gen_name al ds closed opened kind st = Some o'" and "fuel \<le> fuel'"
  shows "append_kind fuel' rng gen_name al ds closed opened kind st = Some o'"
  using assms(1) unfolding append_kind_def
  by (cases kind) (auto split: res.splits prod.splits intro: rename_loop_mono [OF _ assms(2)])

lemma append_one_mono:
  assumes "append_one fuel rng weights gen_name st = Some o'" and "fuel \<le> fuel'"
  shows "append_one fuel' rng weights gen_name st = Some o'"
  using assms(1) unfolding append_one_def Let_def
  by (auto split: option.splits res.splits prod.splits intro: append_kind_mono [OF _ assms(2)])

lemma append_many_mono:
  "append_many sz fuel rng weights gen_name st = Some o' \<Longrightarrow> fuel \<le> fuel' \<Longrightarrow>
   append_many sz fuel' rng weights gen_name st = Some o'"
proof (induction sz arbitrary: st)
  case (Suc sz)
  then obtain r st1 where one: "append_one fuel rng weights gen_name st = Some (r, st1)"
    by (cases "append_one fuel rng weights gen_name st") auto
  show ?case using Suc.prems(1) Suc.IH [OF _ Suc.prems(2)] one append_one_mono [OF one Suc.prems(2)]
    by (cases r) auto
qed simp

subsection \<open>Enough fuel gives a result\<close>

lemma fair_rng_root:
  assumes "fair_rng rng" and "alive_sound fs al"
  shows "\<exists>k. draw_at rng (al_dirs al) k g = (root_index, ''/'')"
proof -
  have "(root_index, ''/'') \<in> set (al_dirs al)" using assms(2) by (simp add: alive_sound_def)
  then obtain i where i: "i < length (al_dirs al)" "al_dirs al ! i = (root_index, ''/'')"
    by (auto simp: in_set_conv_nth)
  then obtain k where "fst (choose_index rng (length (al_dirs al)) (draw_state rng (length (al_dirs al)) k g)) = i"
    using assms(1) unfolding fair_rng_def by blast
  then show ?thesis using i(2) by (auto simp: draw_at_def)
qed

lemma listed_entry:
  assumes "alive_sound fs al"
    and "p \<in> set (map snd (filter (\<lambda>(idx, _). idx \<noteq> root_index) (al_dirs al)) @ map snd (al_files al) @ al_symlinks al)"
  shows "\<exists>x. entry_at fs p x"
proof -
  consider i where "(i, p) \<in> set (al_dirs al)" "i \<noteq> root_index" | j where "(j, p) \<in> set (al_files al)"
    | "p \<in> set (al_symlinks al)"
    using assms(2) by auto
  then show ?thesis
  proof cases
    case 1
    then have "leads_to_dir fs p i" "is_root p \<or> (\<exists>x. entry_at fs p x)"
      using assms(1) by (auto simp: alive_sound_def)
    then show ?thesis using root_leads [of fs] 1(2) by (auto simp: is_root_def leads_to_dir_def)
  qed (use alive_soundD [OF assms(1)] in blast)+
qed

lemma pick_Ok: "pick rng xs st = (Ok x, st') \<Longrightarrow> x \<in> set xs \<and> (\<exists>g. st' = st\<lparr>gs_rng := g\<rparr>)"
  by (auto simp: pick_def vec_get_def split: prod.splits if_splits)

context name_supply
begin

lemma append_kind_ends:
  assumes "good_rng rng" and "fair_rng rng" and "gen_ok taken st" and "alive_sound (gs_fs st) al"
    and "ds = map snd (filter (\<lambda>(idx, _). idx \<noteq> root_index) (al_dirs al))"
  shows "\<exists>fuel. append_kind fuel rng gen_name al ds closed opened kind st \<noteq> None"
proof (cases "kind = KRename")
  case True
  let ?pool = "ds @ map snd (al_files al) @ al_symlinks al"
  obtain r st1 where p: "pick rng ?pool st = (r, st1)" by (cases "pick rng ?pool st")
  obtain nm n' where nm: "gen_name (gs_names st1) = (nm, n')" by (cases "gen_name (gs_names st1)")
  show ?thesis
  proof (cases r)
    case (Ok path)
    obtain g where path: "path \<in> set ?pool" and st1: "st1 = st\<lparr>gs_rng := g\<rparr>"
      using pick_Ok [OF p [unfolded Ok]] by blast
    obtain x where x: "entry_at (gs_fs st) path x" using listed_entry [OF assms(4)] path assms(5) by blast
    have fresh_nm: "valid_name nm" "nm \<notin> taken (gs_names st)"
      using fresh_valid [of "gs_names st"] fresh [of "gs_names st"] nm st1 by auto
    then have "nm \<notin> entry_names (gs_fs st)" using assms(3) by (auto simp: gen_ok_def fs_names_def)
    moreover obtain k where "draw_at rng (al_dirs al) k g = (root_index, ''/'')"
      using fair_rng_root [OF assms(2,4)] by blast
    ultimately have "rename_loop (Suc k) rng (al_dirs al) path nm (st1\<lparr>gs_names := n'\<rparr>) \<noteq> None"
      using assms(3,4) x fresh_nm(1)
      by (intro rename_loop_ends [OF assms(1), where k = k and x = x]) (simp_all add: st1 gen_ok_def)
    then show ?thesis using True p Ok nm
      by (intro exI [of _ "Suc k"]) (simp add: append_kind_def and_do_def new_name_def del: rename_loop.simps)
  qed (use True p in \<open>simp_all add: append_kind_def and_do_def\<close>)
next
  case False
  then show ?thesis by (cases kind) (simp_all add: append_kind_def)
qed

lemma append_one_ends:
  assumes "good_rng rng" and "fair_rng rng" and "gen_ok taken st"
  shows "\<exists>fuel. append_one fuel rng weights gen_name st \<noteq> None"
proof -
  obtain r where r: "alive (gs_fs st) = Some r" "safe (alive_sound (gs_fs st)) r"
    using alive_ends [OF gen_ok_inv [OF assms(3)]] by blast
  show ?thesis
  proof (cases r)
    case (Ok al)
    define ds where "ds = map snd (filter (\<lambda>(idx, _). idx \<noteq> root_index) (al_dirs al))"
    have al: "alive_sound (gs_fs st) al" using r(2) Ok by simp
    have kinds: "\<exists>fuel. append_kind fuel rng gen_name al ds closed opened kind (st\<lparr>gs_rng := g\<rparr>) \<noteq> None"
      for closed opened kind g
      using assms(3) al by (intro append_kind_ends [OF assms(1,2)]) (simp_all add: ds_def)
    show ?thesis
    proof (cases "and_then (file_descriptors (gs_fs st) (al_files al @ al_files_symlinked al))
        (\<lambda>fl. and_then (file_descriptors (gs_fs st) (al_files al)) (\<lambda>fl'. Ok (fl, fl')))")
      case fl: (Ok fls)
      obtain fl fl' where fls: "fls = (fl, fl')" by (cases fls)
      let ?ws = "applicable al ds (map snd (filter (\<lambda>(d, _). d = None) fl)) (List.map_filter fst fl') weights"
      show ?thesis
      proof (cases "choose_weight rng (map snd ?ws) (gs_rng st)")
        case (Pair i g)
        note drawn = r(1) Ok fl [unfolded fls] Pair
        show ?thesis
        proof (cases i)
          case None
          then show ?thesis using drawn unfolding append_one_def ds_def by (simp add: Let_def)
        next
          case (Some j)
          then show ?thesis using drawn kinds unfolding append_one_def ds_def
            by (cases "vec_get ?ws j") (auto simp: Let_def ds_def simp del: vec_get_eq_Some vec_get_eq_None split: prod.split)
        qed
      qed
    qed (use r(1) Ok in \<open>auto simp: append_one_def Let_def\<close>)
  qed (use r in \<open>auto simp: append_one_def\<close>)
qed

lemma append_many_ends:
  assumes "good_rng rng" and "usable_weights weights" and "fair_rng rng" and "gen_ok taken st"
    and "fs_written st + sz * max_write < 2 ^ 64"
  shows "\<exists>fuel. append_many sz fuel rng weights gen_name st \<noteq> None"
  using assms(4-)
proof (induction sz arbitrary: st)
  case (Suc sz)
  obtain f1 r st1 where one: "append_one f1 rng weights gen_name st = Some (r, st1)"
    using append_one_ends [OF assms(1,3) Suc.prems(1), of weights] by fast
  show ?case
  proof (cases r)
    case (Ok u)
    have "fs_written st + max_write < 2 ^ 64" using Suc.prems(2) by simp
    from append_one_appended [OF assms(1,2) Suc.prems(1) this one] Ok
    obtain kind where app: "appended taken kind st (Ok (), st1)" by auto
    then have "gen_ok taken st1" "fs_written st1 + sz * max_write < 2 ^ 64"
      using Suc.prems(2) by (auto simp: appended_def fs_written_def)
    then obtain f2 o' where rest: "append_many sz f2 rng weights gen_name st1 = Some o'"
      using Suc.IH by blast
    have "append_many (Suc sz) (max f1 f2) rng weights gen_name st = Some o'"
      using append_one_mono [OF one, of "max f1 f2"] append_many_mono [OF rest, of "max f1 f2"] Ok by simp
    then show ?thesis by blast
  qed (use one in \<open>auto intro!: exI [of _ f1]\<close>)
qed simp

end

subsection \<open>Generation and insertion\<close>

text \<open>From some fuel on there is a result.\<close>

lemma generate_new_ends:
  assumes "good_rng rng" and "usable_weights weights" and "fair_rng rng" and "sz * max_write < 2 ^ 64"
  shows "\<exists>enough. \<forall>fuel \<ge> enough. generate_new fuel rng g sz weights \<noteq> None"
proof -
  let ?st = "\<lparr>gs_fs = fs_new, gs_rng = g, gs_names = 0 :: nat\<rparr>"
  have "fs_written ?st + sz * max_write < 2 ^ 64" using assms(4)
    by (simp add: fs_written_def fs_new_def)
  then obtain f o' where run: "append_many sz f rng weights numbered_name ?st = Some o'"
    using counter.append_many_ends [OF assms(1-3) gen_ok_new] by (metis not_Some_eq gen_state.select_convs(1))
  then show ?thesis using append_many_mono [OF run]
    by (intro exI [of _ f]) (auto simp: generate_new_def)
qed

lemma append_one_new_ends:
  assumes "good_rng rng" and "fair_rng rng" and "gen_ok numbers_below st"
  shows "\<exists>enough. \<forall>fuel \<ge> enough. append_one fuel rng weights numbered_name st \<noteq> None"
proof -
  obtain f o' where run: "append_one f rng weights numbered_name st = Some o'"
    using counter.append_one_ends [OF assms, of weights] by blast
  then show ?thesis using append_one_mono [OF run] by (intro exI [of _ f]) auto
qed

lemma mutator_insert_ends:
  assumes "good_rng rng" and "fair_rng rng" and "wf_ops (ops w)" and "written (ops w) < 2 ^ 64"
  shows "\<exists>enough. \<forall>fuel \<ge> enough. mutator_insert fuel rng g w i weights \<noteq> None"
proof -
  let ?xs = "take i (ops w)" and ?used = "set (used_names w)"
  obtain r1 fs1 where r1: "replay_ops ?xs fs_new = (r1, fs1)" by (cases "replay_ops ?xs fs_new")
  show ?thesis
  proof (cases "r1 = Ok ()")
    case True
    have xs: "wf_ops ?xs" "written ?xs < 2 ^ 64"
      using assms(3,4) written_append [of ?xs "drop i (ops w)"] wf_ops_simps(3) [of ?xs "drop i (ops w)"] by simp_all
    have "added_names op \<subseteq> ?used" if "op \<in> set ?xs" for op
      using that assms(3) used_namesI [of op w] by (auto simp: wf_ops_def dest: in_set_takeD)
    note fs1 = insertion_state [OF xs r1 [unfolded True] this]
    have "gen_ok (used_or_below (used_names w)) \<lparr>gs_fs = fs1, gs_rng = g, gs_names = 0 :: nat\<rparr>"
      using fs1 by (simp add: gen_ok_def used_or_below_def numbers_below_def)
    then obtain f o' where run: "append_one f rng weights (next_unused (used_names w))
        \<lparr>gs_fs = fs1, gs_rng = g, gs_names = 0 :: nat\<rparr> = Some o'"
      using skipping.append_one_ends [OF assms(1,2)] by blast
    then show ?thesis using append_one_mono [OF run] r1 True
      by (intro exI [of _ f]) (auto simp: mutator_insert_def Let_def replay_def)
  next
    case False
    then show ?thesis using r1 by (cases r1) (auto simp: mutator_insert_def Let_def replay_def)
  qed
qed

end
