(* ===== verification/Any_Paths.thy ===== *)
theory Any_Paths
  imports Generator_Correct
begin

text \<open>
  What holds of operations on arbitrary paths, those with empty segments, without a slash or at the root
  included: the indices stay in range, and only a failing \<open>rename\<close> can leave the file system changed.
  And the symbolic links on which resolution never ends.
\<close>

subsection \<open>Sizes\<close>

text \<open>The offsets and sizes stay within 64 bits; nothing is asked of the paths.\<close>

definition sizes_fit :: "operation \<Rightarrow> abstract_fs \<Rightarrow> bool" where
  "sizes_fit op fs \<longleftrightarrow>
     fits op fs \<and> (case op of OpWrite _ src sz \<Rightarrow> unat src + unat sz \<le> 2 ^ 64 | _ \<Rightarrow> True)"

lemma wf_op_sizes: "wf_op op \<Longrightarrow> fits op fs \<Longrightarrow> sizes_fit op fs"
  by (cases op) (simp_all add: sizes_fit_def)

subsection \<open>The indices stay in range\<close>

text \<open>A path without a slash makes \<open>path_split\<close> panic before anything is changed.\<close>

lemma parent_entry_no_slash: "slash \<notin> set p \<Longrightarrow> parent_entry fs p = Crash Panicked"
proof -
  assume "slash \<notin> set p"
  then have "str_rfind slash p = None" by simp
  then show ?thesis by (simp only: parent_entry_def path_split_def unwrap.simps and_then.simps)
qed

lemma parent_entry_slash: "parent_entry fs p = Ok e \<Longrightarrow> slash \<in> set p"
  using parent_entry_no_slash [of p fs] by auto

lemma resolved_slash: "resolve_node fs p follow = Ok r \<Longrightarrow> slash \<in> set p"
proof -
  assume "resolve_node fs p follow = Ok r"
  then obtain k where "resolve_node_rec (Suc k) fs p follow [] = Ok r" by (rule resolve_node_to_rec)
  then have "is_valid p" unfolding resolve_Suc_Ok by blast
  then show "slash \<in> set p" by (cases p) (auto simp: is_valid_def starts_with_def)
qed

text \<open>Of the operations only \<open>rename\<close> changes the tree before it has done all that can fail.\<close>

lemma apply_op_atomic_any:
  assumes "wf_fs fs" and "sizes_fit op fs" and "\<And>old new. op \<noteq> OpRename old new"
  shows "atomic (apply_op op fs) fs"
  using assms by (cases op) (auto simp: sizes_fit_def fits_def read_fd_is_atomic write_fd_is_atomic)

lemma rename_changed:
  assumes "rename old new fs = (r, fs')" and "fs' \<noteq> fs"
  shows "slash \<in> set old" and "slash \<in> set new"
proof -
  obtain a e where "resolve_node fs old False = Ok a" "parent_entry fs new = Ok e"
    using assms unfolding rename_def Let_def
    by (cases "nonempty_dir_at fs new"; cases "resolve_node fs old False"; cases "parent_entry fs new")
      (auto split: if_splits)
  then show "slash \<in> set old" "slash \<in> set new" by (auto dest: resolved_slash parent_entry_slash)
qed

text \<open>A successful operation on an entry had a path with a slash.\<close>

lemma entry_ops_slash:
  "mkdir p m fs = (Ok i, fs') \<Longrightarrow> slash \<in> set p" "create p m fs = (Ok j, fs') \<Longrightarrow> slash \<in> set p"
  "make_symlink t p fs = (Ok k, fs') \<Longrightarrow> slash \<in> set p" "remove p fs = (Ok (), fs') \<Longrightarrow> slash \<in> set p"
  "hardlink p q fs = (Ok j, fs') \<Longrightarrow> slash \<in> set p \<and> slash \<in> set q"
  using hardlink_run [of p q fs j fs']
  by (auto simp: mkdir_def create_def make_symlink_def remove_def hardlink_def dest!: parent_entry_slash split: if_splits)

lemma apply_op_any_good:
  assumes "wf_fs fs" and "sizes_fit op fs" and "apply_op op fs = (r, fs')" and "is_ok r \<or> fs' \<noteq> fs"
  shows "wf_fs fs'"
proof -
  have "good (apply_op op fs)"
  proof (cases "\<exists>old new. op = OpRename old new")
    case True
    then obtain old new where op: "op = OpRename old new" by blast
    obtain r0 fs0 where run: "rename old new fs = (r0, fs0)" by (cases "rename old new fs")
    have "slash \<in> set old \<and> slash \<in> set new"
    proof (cases "fs0 = fs")
      case True
      then obtain n where "rename old new fs = (Ok n, fs')" using assms(3,4) run op by (cases r0) auto
      then show ?thesis by (auto simp: rename_def Let_def dest!: resolved_slash parent_entry_slash split: if_splits)
    qed (use rename_changed [OF run] in blast)
    then show ?thesis using rename_good [OF assms(1)] op by simp
  next
    case False
    then have "is_ok r" using apply_op_atomic_any [OF assms(1,2)] assms(3,4) by (auto simp: atomic_def)
    then have ok: "apply_op op fs = (Ok (), fs')" using assms(3) by (cases r) simp_all
    show ?thesis
    proof (cases op)
      case (OpRename old new)
      then show ?thesis using False by blast
    next
      case (OpRemove p)
      then show ?thesis using remove_good [OF assms(1) entry_ops_slash(4) [of p fs fs']] ok by simp
    next
      case (OpClose d)
      then show ?thesis using close_fd_good [OF assms(1), of d] by simp
    next
      case (OpWrite d src sz)
      then show ?thesis using write_fd_good [OF assms(1), of src sz d] assms(2) by (simp add: sizes_fit_def fits_def)
    next
      case (OpFSync d)
      then show ?thesis using fsync_fd_good [OF assms(1), of d] by simp
    qed (use ok assms(1,2) in \<open>auto simp: sizes_fit_def fits_def forget_Ok open_file_good read_fd_good simp del: or_return_eq_Ok dest!: entry_ops_slash intro: mkdir_good create_good make_symlink_good hardlink_good\<close>)
  qed
  then show ?thesis using assms(3) by simp
qed

lemma apply_op_any_wf:
  assumes "wf_fs fs" and "sizes_fit op fs" and "apply_op op fs = (r, fs')"
  shows "wf_fs fs'"
  using apply_op_any_good [OF assms] assms(1) by blast

subsection \<open>Links that lead through themselves\<close>

text \<open>Walking to a link finds it, or the stack is too small for the way.\<close>

lemma walk_to_link:
  assumes "resolve_node fs p False = Ok (ds, NodeSymlink s)"
  shows "walk_from_root k fs p = Crash StackOverflow \<or> (\<exists>ds p'. walk_from_root k fs p = Ok (ds, NodeSymlink s, p'))"
proof -
  obtain k0 where "resolve_node_rec (Suc k0) fs p False [] = Ok (ds, NodeSymlink s)"
    using assms by (rule resolve_node_to_rec)
  then obtain ds' p' where "walk_from_root k0 fs p = Ok (ds', NodeSymlink s, p')"
    unfolding resolve_Suc_Ok by blast
  then have deep: "walk_from_root (max k k0) fs p = Ok (ds', NodeSymlink s, p')"
    by (rule walk_from_root_deeper) simp
  have "upto_overflow (walk_from_root k fs p) (walk_from_root (max k k0) fs p)"
    by (intro walk_mono node_to_dir_mono resolve_mono) simp
  then show ?thesis unfolding upto_overflow_def deep by metis
qed

definition leads_through :: "pathname \<Rightarrow> pathname \<Rightarrow> bool" where
  "leads_through p q \<longleftrightarrow> is_valid q \<and> (\<exists>seg rest. segments q = segments p @ seg # rest)"

lemma through_link_overflows:
  assumes link: "resolve_node fs p False = Ok (ds, NodeSymlink s)"
    and target: "get_sym fs s = (Ok sl :: (fs_error, _) res)" "leads_through p (target sl)"
    and q: "leads_through p q"
  shows "resolve_node_rec k fs q follow visited = Crash StackOverflow"
  using q
proof (induction k arbitrary: q follow visited)
  case (Suc k)
  obtain seg rest where segs: "segments q = segments p @ seg # rest" and valid: "is_valid q"
    using Suc.prems by (auto simp: leads_through_def)
  have rec: "resolve_node_rec k fs (target sl) True [] = Crash StackOverflow" using target(2) by (rule Suc.IH)
  have "walk_from_root k fs q = Crash StackOverflow"
    using walk_to_link [OF link, of k] rec target(1)
    by (auto simp: segs walk_append walk.simps(2) node_to_dir_def Let_def)
  then show ?case using valid by (simp add: resolve_node_rec.simps(2))
qed simp

lemma link_through_itself_overflows:
  assumes link: "resolve_node fs p False = Ok (ds, NodeSymlink s)"
    and target: "get_sym fs s = (Ok sl :: (fs_error, _) res)" "leads_through p (target sl)"
  shows "resolve_node_rec k fs p True [] = Crash StackOverflow"
proof (cases k)
  case (Suc d)
  have "is_valid p"
    using link by (auto elim!: resolve_node_to_rec simp: resolve_Suc_Ok)
  moreover have "resolve_node_rec d fs (target sl) True [s] = Crash StackOverflow"
    by (rule through_link_overflows [OF link target target(2)])
  ultimately show ?thesis
    using Suc walk_to_link [OF link, of d] target(1) by (auto simp: resolve_node_rec.simps(2))
qed simp

text \<open>The state after such a link is made.\<close>

lemma make_symlink_found:
  assumes "wf_fs fs" and "canonical p" and "\<not> is_root p" and "make_symlink t p fs = (Ok s, fs')"
  shows "\<exists>ds. resolve_node fs' p False = Ok (ds, NodeSymlink s)"
    and "get_sym fs' s = (Ok \<lparr>target = t\<rparr> :: (fs_error, _) res)"
proof -
  obtain e where e: "names fs p e" "entry fs e = None" "s = SymlinkIndex (length (symlinks fs))"
    "entry fs' = (entry fs)(e \<mapsto> NodeSymlink s)"
    "fs' = record_op (OpSymlink t p) (with_entry (fst e) (snd e) (NodeSymlink s)
       (fs\<lparr>symlinks := symlinks fs @ [\<lparr>target = t\<rparr>]\<rparr>))"
    using make_symlink_spec [OF assms(4)] by blast
  have ext: "extends fs fs'" using e(2,4) by (rule extends_insert) (simp add: e(5))
  have "wf_fs fs'" using make_symlink_good [OF assms(1) canonical_slash [OF assms(2)], of t] assms(4) by simp
  then show "\<exists>ds. resolve_node fs' p False = Ok (ds, NodeSymlink s)"
    using names_found [OF _ ext e(1) assms(2,3)] e(4) by simp
  show "get_sym fs' s = (Ok \<lparr>target = t\<rparr> :: (fs_error, _) res)"
    by (simp add: get_sym_def e(3,5) vec_get_def)
qed

lemma make_symlink_any_target:
  "is_ok (fst (make_symlink t p fs)) \<longleftrightarrow> is_ok (fst (make_symlink t' p fs))"
  by (cases "parent_entry fs p") (auto simp: make_symlink_def Let_def split: if_splits)

text \<open>An entry below it cannot be created: the resolution of the parent does not end.\<close>

lemma create_below_link:
  assumes link: "resolve_node fs p False = Ok (ds, NodeSymlink s)" "canonical p"
    and target: "get_sym fs s = (Ok sl :: (fs_error, _) res)" "leads_through p (target sl)"
    and "valid_name nm"
  shows "create (path_join p nm) m fs = (Crash StackOverflow, fs)"
proof -
  have "resolve_node fs p True = Crash StackOverflow"
    unfolding resolve_node_def by (rule link_through_itself_overflows [OF link(1) target])
  then have "resolve_dir fs p = Crash StackOverflow" by (simp add: resolve_dir_def node_to_dir_def)
  then have "parent_entry fs (path_join p nm) = Crash StackOverflow"
    using canonical_join_parts(6) [OF link(2) assms(5)] by (simp add: parent_entry_def)
  then show ?thesis by (simp add: create_def)
qed

end
