(* ===== verification/Trace.thy ===== *)
theory Trace
  imports Prelude
begin

text \<open>
  \<open>abstract_fs/trace.rs\<close> and \<open>fuzzing/objective/trace.rs\<close>: the trace that the executor writes for a
  workload, its parser, and the comparison of two traces.

  \<open>parse_int\<close> is \<open>str::parse\<close> for an integer type with the given bounds: it reads the sign and then
  one character at a time, and reports the first character that is not a digit or that overflows.
  White space is ASCII white space; the executor writes no other.
\<close>

subsection \<open>Strings and integers\<close>

definition is_white :: "char \<Rightarrow> bool" where
  "is_white c = (let n = (of_char c :: nat) in n = 32 \<or> (9 \<le> n \<and> n \<le> 13))"

definition trim_start :: "string \<Rightarrow> string" where
  "trim_start s = dropWhile is_white s"

definition trim_end :: "string \<Rightarrow> string" where
  "trim_end s = rev (dropWhile is_white (rev s))"

definition trim :: "string \<Rightarrow> string" where
  "trim s = trim_end (trim_start s)"

definition newline :: char where
  "newline = CHR 0x0A"

fun str_split_any :: "char list \<Rightarrow> string \<Rightarrow> string list" where
  "str_split_any cs [] = [[]]"
| "str_split_any cs (x # xs) =
     (if x \<in> set cs then [] # str_split_any cs xs
      else (x # hd (str_split_any cs xs)) # tl (str_split_any cs xs))"

lemma str_split_any_code [code]:
  "str_split_any cs [] = [[]]"
  "str_split_any cs (x # xs) =
     (let ps = str_split_any cs xs in if x \<in> set cs then [] # ps else case ps of p # qs \<Rightarrow> (x # p) # qs)"
proof -
  have "str_split_any cs xs \<noteq> []" by (cases xs) auto
  then show "str_split_any cs (x # xs) =
     (let ps = str_split_any cs xs in if x \<in> set cs then [] # ps else case ps of p # qs \<Rightarrow> (x # p) # qs)"
    by (cases "str_split_any cs xs") (auto simp: Let_def)
qed simp

datatype parse_int_error = EmptyInt | InvalidDigit | PosOverflow | NegOverflow

definition digit_value :: "char \<Rightarrow> int option" where
  "digit_value c = (let n = (of_char c :: nat) in if 48 \<le> n \<and> n \<le> 57 then Some (int n - 48) else None)"

text \<open>The digits after the sign; \<open>neg\<close> subtracts them, so that the least value can be read.\<close>

fun parse_digits :: "int \<Rightarrow> int \<Rightarrow> bool \<Rightarrow> string \<Rightarrow> int \<Rightarrow> (parse_int_error, int) res" where
  "parse_digits lo hi neg [] acc = Ok acc"
| "parse_digits lo hi neg (c # cs) acc =
     (case digit_value c of
        None \<Rightarrow> Err InvalidDigit
      | Some d \<Rightarrow>
          if neg then
            (if acc * 10 - d < lo then Err NegOverflow else parse_digits lo hi neg cs (acc * 10 - d))
          else
            (if hi < acc * 10 + d then Err PosOverflow else parse_digits lo hi neg cs (acc * 10 + d)))"

definition parse_int :: "int \<Rightarrow> int \<Rightarrow> string \<Rightarrow> (parse_int_error, int) res" where
  "parse_int lo hi s =
     (if s = [] then Err EmptyInt
      else if s = ''+'' \<or> s = ''-'' then Err InvalidDigit
      else if hd s = CHR ''+'' then parse_digits lo hi False (tl s) 0
      else if hd s = CHR ''-'' \<and> lo < 0 then parse_digits lo hi True (tl s) 0
      else parse_digits lo hi False s 0)"

definition parse_u32 :: "string \<Rightarrow> (parse_int_error, int) res" where
  "parse_u32 = parse_int 0 (2 ^ 32 - 1)"

definition parse_i32 :: "string \<Rightarrow> (parse_int_error, int) res" where
  "parse_i32 = parse_int (- (2 ^ 31)) (2 ^ 31 - 1)"

subsection \<open>Traces\<close>

record errno =
  errno_name :: string
  errno_code :: int

record trace_row =
  tr_index :: int
  tr_command :: string
  tr_return_code :: int
  tr_errno :: errno
  tr_extra :: string
  tr_source :: string

record trace =
  rows :: "trace_row list"

datatype trace_diff = TraceRowIsDifferent trace_row trace_row | DifferentLength

datatype trace_error = EmptyTrace | InvalidColumnNumber | IntParse parse_int_error | InvalidErrno string

text \<open>One line of the table.\<close>

definition parse_row :: "string \<Rightarrow> (trace_error, trace_row) res" where
  "parse_row line =
     (let columns = str_split (CHR '','') line
      in if length columns \<noteq> 5 then Err InvalidColumnNumber
         else
           and_then (map_err IntParse (parse_u32 (trim (columns ! 0)))) (\<lambda>index.
           let command = trim (columns ! 1)
           in and_then (map_err IntParse (parse_i32 (trim (columns ! 2)))) (\<lambda>return_code.
           let errno_string = trim (columns ! 3);
               extra = trim (columns ! 4);
               errno_parts = str_split_any [CHR ''('', CHR '')''] errno_string
           in and_then (ok_or (InvalidErrno errno_string) (vec_get errno_parts 0)) (\<lambda>name.
           and_then (ok_or (InvalidErrno errno_string) (vec_get errno_parts 1)) (\<lambda>code_string.
           and_then (map_err IntParse (parse_i32 code_string)) (\<lambda>code.
           Ok \<lparr>tr_index = index, tr_command = command, tr_return_code = return_code,
               tr_errno = \<lparr>errno_name = name, errno_code = code\<rparr>, tr_extra = extra,
               tr_source = trim_end line\<rparr>))))))"

fun parse_rows :: "string list \<Rightarrow> (trace_error, trace_row list) res" where
  "parse_rows [] = Ok []"
| "parse_rows (line # lines) =
     (if trim line = [] then Ok []
      else and_then (parse_row line) (\<lambda>r. and_then (parse_rows lines) (\<lambda>rs. Ok (r # rs))))"

definition try_parse :: "string \<Rightarrow> (trace_error, trace) res" where
  "try_parse text =
     (let lines = str_split newline text
      in if length lines \<le> 1 then Err EmptyTrace
         else and_then (parse_rows (tl lines)) (\<lambda>rs. Ok \<lparr>rows = rs\<rparr>))"

definition trace_errors :: "trace \<Rightarrow> trace_row list" where
  "trace_errors t = filter (\<lambda>row. errno_code (tr_errno row) \<noteq> 0) (rows t)"

definition trace_header :: string where
  "trace_header = ''Index,Command,ReturnCode,Errno,Extra''"

definition ignore_index_equal :: "trace_row \<Rightarrow> trace_row \<Rightarrow> bool" where
  "ignore_index_equal r r' \<longleftrightarrow>
     tr_command r = tr_command r' \<and> tr_return_code r = tr_return_code r'
     \<and> tr_extra r = tr_extra r' \<and> tr_errno r = tr_errno r'"

subsection \<open>Comparison of two traces\<close>

definition trace_objective_diff :: "trace \<Rightarrow> trace \<Rightarrow> trace_diff list" where
  "trace_objective_diff fst_trace snd_trace =
     (if length (rows fst_trace) \<noteq> length (rows snd_trace) then [DifferentLength]
      else concat (map (\<lambda>i.
             if rows fst_trace ! i \<noteq> rows snd_trace ! i
             then [TraceRowIsDifferent (rows fst_trace ! i) (rows snd_trace ! i)] else [])
           [0..<length (rows fst_trace)]))"

lemma trace_diff_mem:
  assumes "length (rows t) = length (rows t')"
  shows "d \<in> set (trace_objective_diff t t') \<longleftrightarrow>
     (\<exists>i < length (rows t). rows t ! i \<noteq> rows t' ! i \<and> d = TraceRowIsDifferent (rows t ! i) (rows t' ! i))"
  using assms by (auto simp: trace_objective_diff_def split: if_splits)

lemma trace_diff_empty: "trace_objective_diff t t' = [] \<longleftrightarrow> t = t'"
proof -
  have "trace_objective_diff t t' = [] \<longleftrightarrow>
      length (rows t) = length (rows t') \<and> (\<forall>i < length (rows t). rows t ! i = rows t' ! i)"
  proof (cases "length (rows t) = length (rows t')")
    case True
    have "trace_objective_diff t t' = [] \<longleftrightarrow> (\<forall>d. d \<notin> set (trace_objective_diff t t'))" by auto
    then show ?thesis using True unfolding trace_diff_mem [OF True] by blast
  qed (simp add: trace_objective_diff_def)
  also have "\<dots> \<longleftrightarrow> rows t = rows t'" by (simp only: list_eq_iff_nth_eq)
  also have "\<dots> \<longleftrightarrow> t = t'" by (cases t; cases t') simp
  finally show ?thesis .
qed

lemma ignore_index_equal_equiv:
  "ignore_index_equal r r" "ignore_index_equal r r' \<Longrightarrow> ignore_index_equal r' r"
  "ignore_index_equal r r' \<Longrightarrow> ignore_index_equal r' r'' \<Longrightarrow> ignore_index_equal r r''"
  by (auto simp: ignore_index_equal_def)

subsection \<open>Printed numbers and split lines\<close>

definition show_int :: "int \<Rightarrow> string" where
  "show_int i = (if i < 0 then CHR ''-'' # show_nat (nat (- i)) else show_nat (nat i))"

lemma trim_clean [simp]: "(s \<noteq> [] \<Longrightarrow> \<not> is_white (hd s) \<and> \<not> is_white (last s)) \<Longrightarrow> trim s = s"
proof -
  assume ends: "s \<noteq> [] \<Longrightarrow> \<not> is_white (hd s) \<and> \<not> is_white (last s)"
  have "dropWhile is_white s = s" using ends by (cases s) auto
  moreover have "dropWhile is_white (rev s) = rev s" using ends by (cases s rule: rev_cases) auto
  ultimately show "trim s = s" by (simp add: trim_def trim_start_def trim_end_def)
qed

lemma digit_value_char: "d < 10 \<Longrightarrow> digit_value (digit_char d) = Some (int d)"
  by (simp add: digit_value_def digit_char_def Let_def)

definition no_digit :: "char \<Rightarrow> bool" where
  "no_digit c \<longleftrightarrow> (of_char c :: nat) < 48 \<or> 57 < (of_char c :: nat)"

lemma digit_not: "no_digit c \<Longrightarrow> d < 10 \<Longrightarrow> digit_char d \<noteq> c"
  by (auto simp: digit_char_def no_digit_def)

lemma show_nat_no: "no_digit c \<Longrightarrow> c \<notin> set (show_nat n)"
  using show_nat_digits digit_not by metis

lemma parse_digits_append:
  "parse_digits lo hi neg (xs @ ys) acc = and_then (parse_digits lo hi neg xs acc) (parse_digits lo hi neg ys)"
  by (induction xs arbitrary: acc) (auto split: option.split)

lemma parse_digits_show_pos:
  "int n \<le> hi \<Longrightarrow> parse_digits lo hi False (show_nat n) 0 = Ok (int n)"
proof (induction n rule: show_nat.induct)
  case (1 n)
  show ?case
  proof (cases "n < 10")
    case True
    then show ?thesis using "1.prems"
      by (subst show_nat.simps) (simp add: digit_value_char)
  next
    case False
    have split: "int (n div 10) * 10 + int (n mod 10) = int n"
      using div_mult_mod_eq [of n 10] by (metis of_nat_add of_nat_mult of_nat_numeral)
    then have "int (n div 10) \<le> hi" using "1.prems" by linarith
    then show ?thesis using "1.IH" [OF False] "1.prems" False split
      by (subst show_nat.simps) (simp add: parse_digits_append digit_value_char)
  qed
qed

lemma parse_digits_show_neg:
  "lo \<le> - int n \<Longrightarrow> parse_digits lo hi True (show_nat n) 0 = Ok (- int n)"
proof (induction n rule: show_nat.induct)
  case (1 n)
  show ?case
  proof (cases "n < 10")
    case True
    then show ?thesis using "1.prems"
      by (subst show_nat.simps) (simp add: digit_value_char)
  next
    case False
    have split: "int (n div 10) * 10 + int (n mod 10) = int n"
      using div_mult_mod_eq [of n 10] by (metis of_nat_add of_nat_mult of_nat_numeral)
    then have "lo \<le> - int (n div 10)" using "1.prems" by linarith
    then show ?thesis using "1.IH" [OF False] "1.prems" False split
      by (subst show_nat.simps) (simp add: parse_digits_append digit_value_char)
  qed
qed

lemma parse_int_show:
  assumes "lo \<le> i" and "i \<le> hi" and "lo \<le> 0"
  shows "parse_int lo hi (show_int i) = Ok i"
proof (cases "i < 0")
  case True
  have "show_nat (nat (- i)) \<noteq> []" by (rule show_nat_nonempty)
  then show ?thesis using True assms parse_digits_show_neg [of lo "nat (- i)" hi]
    by (simp add: parse_int_def show_int_def)
next
  case False
  let ?s = "show_nat (nat i)"
  have s: "?s \<noteq> []" "CHR ''+'' \<notin> set ?s" "CHR ''-'' \<notin> set ?s"
    by (simp_all add: show_nat_nonempty show_nat_no no_digit_def)
  have "hd ?s \<noteq> CHR ''+''" "hd ?s \<noteq> CHR ''-''" using hd_in_set [OF s(1)] s(2,3) by metis+
  moreover from this have "?s \<noteq> ''+''" "?s \<noteq> ''-''" by (metis list.sel(1))+
  ultimately show ?thesis using False assms s(1) parse_digits_show_pos [of "nat i" hi lo]
    by (simp add: parse_int_def show_int_def)
qed

lemma show_int_no: "c \<notin> set (show_int i)"
  if "no_digit c" "c \<noteq> CHR ''-''"
  using show_nat_no [OF that(1)] that(2) by (simp add: show_int_def)

lemma show_int_ends: "show_int i \<noteq> [] \<and> \<not> is_white (hd (show_int i)) \<and> \<not> is_white (last (show_int i))"
proof -
  have "show_int i \<noteq> []" by (simp add: show_int_def show_nat_nonempty)
  moreover have "\<not> is_white c" if "c \<in> set (show_int i)" for c
  proof
    assume "is_white c"
    then have "no_digit c" "c \<noteq> CHR ''-''" by (auto simp: is_white_def no_digit_def Let_def)
    then show False using that show_int_no by blast
  qed
  ultimately show ?thesis by simp
qed

lemma str_split_any_no: "(\<forall>c \<in> set cs. c \<notin> set xs) \<Longrightarrow> str_split_any cs xs = [xs]"
  by (induction xs) auto

lemma str_split_any_append: "c \<in> set cs \<Longrightarrow> (\<forall>c \<in> set cs. c \<notin> set xs) \<Longrightarrow>
  str_split_any cs (xs @ c # ys) = xs # str_split_any cs ys"
  by (induction xs) auto

lemma str_split_join:
  "ss \<noteq> [] \<Longrightarrow> (\<forall>s \<in> set ss. c \<notin> set s) \<Longrightarrow> str_split c (str_join [c] ss) = ss"
proof (induction "[c]" ss rule: str_join.induct)
  case (3 s t ss)
  then show ?case using str_split_append_sep [of c s "str_join [c] (t # ss)"] by (simp add: str_split_no_sep)
qed (simp_all add: str_split_no_sep)

lemma trim_end_id: "s \<noteq> [] \<and> \<not> is_white (last s) \<Longrightarrow> trim_end s = s"
  by (cases s rule: rev_cases) (auto simp: trim_end_def)

end
