(* ===== verification/Executor.thy ===== *)
theory Executor
  imports Trace
begin

text \<open>
  \<open>executor/executor.cpp\<close>, the part that \<open>abstract_fs/trace.rs\<close> reads: the list of traced calls of a test
  program and the text it dumps at its end. An \<open>int\<close> is a 32-bit word, printed as a signed number.
  \<open>strerror\<close> is a function of the C library and stays a parameter.
\<close>

type_synonym i32 = "32 word"

record executed =
  ex_idx :: i32
  ex_cmd :: string
  ex_ret_code :: i32
  ex_err :: i32
  ex_extra :: string

text \<open>\<open>append_trace\<close>.\<close>

definition append_trace ::
    "i32 \<Rightarrow> string \<Rightarrow> i32 \<Rightarrow> i32 \<Rightarrow> string \<Rightarrow> executed list \<Rightarrow> executed list" where
  "append_trace idx cmd ret_code err extra traces =
     traces @ [\<lparr>ex_idx = idx, ex_cmd = cmd, ex_ret_code = ret_code, ex_err = err, ex_extra = extra\<rparr>]"

text \<open>\<open>printf\<close> with a field width, and \<open>c_str\<close> read up to the first zero byte.\<close>

definition pad :: "nat \<Rightarrow> string \<Rightarrow> string" where
  "pad width s = replicate (width - length s) (CHR '' '') @ s"

definition c_str :: "string \<Rightarrow> string" where
  "c_str s = takeWhile (\<lambda>c. c \<noteq> CHR 0x00) s"

text \<open>The format \<open>%4d,%12s,%8d,%s(%d),%s\<close>, without the line break.\<close>

definition dump_line :: "(i32 \<Rightarrow> string) \<Rightarrow> executed \<Rightarrow> string" where
  "dump_line strerror t =
     pad 4 (show_int (sint (ex_idx t))) @ '','' @ pad 12 (c_str (ex_cmd t)) @ '',''
     @ pad 8 (show_int (sint (ex_ret_code t))) @ '','' @ strerror (ex_err t) @ ''('' @ show_int (sint (ex_err t)) @ '')''
     @ '','' @ c_str (ex_extra t)"

definition dump_trace :: "(i32 \<Rightarrow> string) \<Rightarrow> executed list \<Rightarrow> string" where
  "dump_trace strerror traces =
     ''Index,Command,ReturnCode,Errno,Extra'' @ [newline]
     @ concat (map (\<lambda>t. dump_line strerror t @ [newline]) traces)"

subsection \<open>What the parser reads\<close>

definition read_back :: "(i32 \<Rightarrow> string) \<Rightarrow> executed \<Rightarrow> trace_row" where
  "read_back strerror t =
     \<lparr>tr_index = sint (ex_idx t), tr_command = ex_cmd t, tr_return_code = sint (ex_ret_code t),
      tr_errno = \<lparr>errno_name = strerror (ex_err t), errno_code = sint (ex_err t)\<rparr>, tr_extra = ex_extra t,
      tr_source = dump_line strerror t\<rparr>"

text \<open>A field that survives: no separator, no line break, no zero byte, no white space at its ends.\<close>

definition clean :: "string \<Rightarrow> bool" where
  "clean s \<longleftrightarrow> CHR '','' \<notin> set s \<and> newline \<notin> set s \<and> CHR 0x00 \<notin> set s
     \<and> (s \<noteq> [] \<longrightarrow> \<not> is_white (hd s) \<and> \<not> is_white (last s))"

definition clean_call :: "(i32 \<Rightarrow> string) \<Rightarrow> executed \<Rightarrow> bool" where
  "clean_call strerror t \<longleftrightarrow>
     0 \<le> sint (ex_idx t) \<and> clean (ex_cmd t) \<and> clean (ex_extra t) \<and> clean (strerror (ex_err t))
     \<and> CHR ''('' \<notin> set (strerror (ex_err t)) \<and> CHR '')'' \<notin> set (strerror (ex_err t))"

lemma c_str_clean [simp]: "clean s \<Longrightarrow> c_str s = s"
  by (auto simp: c_str_def clean_def takeWhile_eq_all_conv)

lemma trim_pad: "(s \<noteq> [] \<Longrightarrow> \<not> is_white (hd s) \<and> \<not> is_white (last s)) \<Longrightarrow> trim (pad n s) = s"
proof -
  assume ends: "s \<noteq> [] \<Longrightarrow> \<not> is_white (hd s) \<and> \<not> is_white (last s)"
  have "trim_start (replicate k (CHR '' '') @ s) = trim_start s" for k
    by (induction k) (simp_all add: trim_start_def is_white_def)
  then show "trim (pad n s) = s" using trim_clean [OF ends] by (simp add: pad_def trim_def)
qed

lemma trim_nonempty: "\<exists>c \<in> set s. \<not> is_white c \<Longrightarrow> trim s \<noteq> []"
proof -
  have kept: "c \<in> set (dropWhile is_white xs)" if "c \<in> set xs" "\<not> is_white c" for c xs
    using that by (metis UnE set_append set_takeWhileD takeWhile_dropWhile_id)
  assume "\<exists>c \<in> set s. \<not> is_white c"
  then obtain c where "c \<in> set s" "\<not> is_white c" by blast
  then have "c \<in> set (trim s)" unfolding trim_def trim_start_def trim_end_def by (simp add: kept)
  then show ?thesis by auto
qed

lemma set_pad: "set (pad n s) \<subseteq> insert (CHR '' '') (set s)"
  by (auto simp: pad_def)

lemma sint_i32: "- (2 ^ 31) \<le> sint (i :: i32) \<and> sint i \<le> 2 ^ 31 - 1"
  using sint_ge [of i] sint_lt [of i] by simp

lemma dump_line_columns:
  assumes "clean_call strerror t"
  shows "str_split (CHR '','') (dump_line strerror t)
    = [pad 4 (show_int (sint (ex_idx t))), pad 12 (ex_cmd t), pad 8 (show_int (sint (ex_ret_code t))),
       strerror (ex_err t) @ ''('' @ show_int (sint (ex_err t)) @ '')'', ex_extra t]" (is "_ = ?cols")
proof -
  have no: "CHR '','' \<notin> set (show_int i)" for i
    by (intro show_int_no) (simp_all add: no_digit_def)
  have "CHR '','' \<notin> set (pad n s)" if "CHR '','' \<notin> set s" for n s
    using that set_pad by fastforce
  then have "str_split (CHR '','') (str_join [CHR '',''] ?cols) = ?cols"
    using assms no by (intro str_split_join) (auto simp: clean_call_def clean_def)
  then show ?thesis using assms by (simp add: dump_line_def clean_call_def)
qed

lemma dump_line_end:
  assumes "clean_call strerror t"
  shows "dump_line strerror t \<noteq> [] \<and> \<not> is_white (last (dump_line strerror t))"
proof -
  obtain pre where pre: "dump_line strerror t = pre @ CHR '','' # ex_extra t"
    using assms by (simp add: dump_line_def clean_call_def)
  show ?thesis
  proof (cases "ex_extra t = []")
    case True
    then show ?thesis by (simp add: pre is_white_def)
  next
    case False
    then have "\<not> is_white (last (ex_extra t))" using assms by (auto simp: clean_call_def clean_def)
    then show ?thesis using False by (simp add: pre)
  qed
qed

lemma parse_dump_line:
  assumes "clean_call strerror t"
  shows "parse_row (dump_line strerror t) = Ok (read_back strerror t)"
proof -
  let ?es = "strerror (ex_err t) @ ''('' @ show_int (sint (ex_err t)) @ '')''"
  have code_no: "c \<notin> set (show_int i)" if "c \<in> {CHR ''('', CHR '')''}" for c i
    using that by (intro show_int_no) (auto simp: no_digit_def)
  have es_trim: "trim ?es = ?es"
    using assms by (intro trim_clean) (auto simp: clean_call_def clean_def is_white_def hd_append)
  have parts: "str_split_any [CHR ''('', CHR '')''] ?es = [strerror (ex_err t), show_int (sint (ex_err t)), []]"
    using assms code_no
      str_split_any_append [of "CHR ''(''" "[CHR ''('', CHR '')'']" "strerror (ex_err t)" "show_int (sint (ex_err t)) @ '')''"]
      str_split_any_append [of "CHR '')''" "[CHR ''('', CHR '')'']" "show_int (sint (ex_err t))" "[]"]
    by (simp add: clean_call_def)
  have nums: "trim (pad n (show_int i)) = show_int i" for n i
    using show_int_ends [of i] by (intro trim_pad) simp
  have "trim (pad 12 (ex_cmd t)) = ex_cmd t" "trim (ex_extra t) = ex_extra t"
    using assms by (auto simp: clean_call_def clean_def intro: trim_pad)
  moreover have "trim_end (dump_line strerror t) = dump_line strerror t"
    using dump_line_end [OF assms] by (rule trim_end_id)
  moreover have "parse_u32 (show_int (sint (ex_idx t))) = Ok (sint (ex_idx t))"
    using assms sint_i32 [of "ex_idx t"] unfolding parse_u32_def by (intro parse_int_show) (auto simp: clean_call_def)
  moreover have "parse_i32 (show_int (sint i)) = Ok (sint i)" for i :: i32
    using sint_i32 [of i] unfolding parse_i32_def by (intro parse_int_show) auto
  ultimately show ?thesis using parts es_trim
    by (simp add: parse_row_def dump_line_columns [OF assms] nums Let_def vec_get_def read_back_def)
qed

lemma dump_line_is_line:
  assumes "clean_call strerror t"
  shows "newline \<notin> set (dump_line strerror t)" and "trim (dump_line strerror t) \<noteq> []"
proof -
  have "newline \<notin> set (show_int i)" for i
    by (rule show_int_no) (simp_all add: no_digit_def newline_def)
  then have "newline \<notin> set (pad n (show_int i))" for n i
    using set_pad [of n "show_int i"] by (auto simp: newline_def)
  moreover have "newline \<notin> set (pad 12 (ex_cmd t))"
    using assms set_pad [of 12 "ex_cmd t"] by (auto simp: clean_call_def clean_def newline_def)
  ultimately show "newline \<notin> set (dump_line strerror t)"
    using assms \<open>\<And>i. newline \<notin> set (show_int i)\<close>
    by (simp add: dump_line_def clean_call_def clean_def) (simp add: newline_def)
  show "trim (dump_line strerror t) \<noteq> []" using dump_line_end [OF assms] last_in_set by (intro trim_nonempty) blast
qed

lemma trim_empty: "trim [] = []"
  by (simp add: trim_def trim_start_def trim_end_def)

lemma parse_rows_dump:
  "\<forall>t \<in> set ts. clean_call strerror t \<Longrightarrow>
   parse_rows (map (dump_line strerror) ts @ [[]]) = Ok (map (read_back strerror) ts)"
  by (induction ts) (simp_all add: parse_dump_line dump_line_is_line trim_empty)

lemma str_split_lines:
  "\<forall>l \<in> set ls. newline \<notin> set l \<Longrightarrow> str_split newline (concat (map (\<lambda>l. l @ [newline]) ls)) = ls @ [[]]"
proof (induction ls)
  case (Cons l ls)
  then show ?case
    using str_split_append_sep [of newline l "concat (map (\<lambda>l. l @ [newline]) ls)"] by (simp add: str_split_no_sep)
qed simp

lemma try_parse_dump:
  assumes "\<forall>t \<in> set ts. clean_call strerror t"
  shows "try_parse (dump_trace strerror ts) = Ok \<lparr>rows = map (read_back strerror) ts\<rparr>"
proof -
  have "newline \<notin> set trace_header" by (simp add: trace_header_def newline_def)
  moreover have "dump_trace strerror ts
      = concat (map (\<lambda>l. l @ [newline]) (trace_header # map (dump_line strerror) ts))"
    by (simp add: dump_trace_def trace_header_def comp_def)
  ultimately have "str_split newline (dump_trace strerror ts) = trace_header # map (dump_line strerror) ts @ [[]]"
    using assms dump_line_is_line(1) str_split_lines [of "trace_header # map (dump_line strerror) ts"] by auto
  then show ?thesis using parse_rows_dump [OF assms] by (simp add: try_parse_def)
qed

end
