(* ===== verification/Dash.thy ===== *)
theory Dash
  imports Prelude
begin

text \<open>
  \<open>dash/src/lib.rs\<close>: the hash of a directory tree and the comparison of two trees, and
  \<open>fuzzing/objective/dash.rs\<close>, which uses them.

  \<^item> The hash function (crate \<open>twox_hash\<close>) is the parameter \<open>hash\<close>, a function of the bytes written to
    the hasher; integers are written in the byte order of the target, which is little endian.
  \<^item> A \<open>RegexSet\<close> is the parameter \<open>skip\<close>, the predicate \<open>is_match\<close>.
  \<^item> The directory walk (crate \<open>walkdir\<close>) is the list of its entries in the order of the walk: an error, or a
    relative path with the metadata of the file, which may be an error as well.
\<close>

subsection \<open>Files and their hash\<close>

record file_info =
  abs_path :: string
  rel_path :: string
  fi_gid :: u32
  fi_uid :: u32
  fi_size :: u64
  fi_nlink :: u64
  fi_mode :: u32
  fi_is_dir :: bool

record hasher_options =
  ho_size :: bool
  ho_file_nlink :: bool
  ho_dir_nlink :: bool
  ho_mode :: bool

definition default_hasher_options :: hasher_options where
  "default_hasher_options =
     \<lparr>ho_size = False, ho_file_nlink = False, ho_dir_nlink = False, ho_mode = False\<rparr>"

datatype file_diff = FileIsDifferent file_info file_info | OnlyOneExists file_info

definition u32_bytes :: "u32 \<Rightarrow> u8 list" where
  "u32_bytes w = map (\<lambda>i. ucast (drop_bit (8 * i) w)) [0..<4]"

definition u64_bytes :: "u64 \<Rightarrow> u8 list" where
  "u64_bytes w = map (\<lambda>i. ucast (drop_bit (8 * i) w)) [0..<8]"

definition str_bytes :: "string \<Rightarrow> u8 list" where
  "str_bytes s = map (\<lambda>c. word_of_nat (of_char c)) s"

text \<open>The bytes that \<open>add_to_hasher\<close> writes.\<close>

definition hashed_bytes :: "hasher_options \<Rightarrow> file_info \<Rightarrow> u8 list" where
  "hashed_bytes opts f =
     str_bytes (rel_path f) @ u32_bytes (fi_gid f) @ u32_bytes (fi_uid f)
     @ (if ho_size opts then u64_bytes (fi_size f) else [])
     @ (if fi_is_dir f \<and> ho_dir_nlink opts \<or> \<not> fi_is_dir f \<and> ho_file_nlink opts
        then u64_bytes (fi_nlink f) else [])
     @ (if ho_mode opts then u32_bytes (fi_mode f) else [])"

text \<open>\<open>calc_dir_hash\<close>: the accumulator is what the hasher has been given and the files kept.\<close>

fun dir_hash_loop ::
    "(string \<Rightarrow> bool) \<Rightarrow> hasher_options \<Rightarrow> ('e, string \<times> ('e, file_info) res) res list \<Rightarrow> u8 list \<Rightarrow> file_info list \<Rightarrow>
     ('e, u8 list \<times> file_info list) res" where
  "dir_hash_loop skip opts [] bytes files = Ok (bytes, files)"
| "dir_hash_loop skip opts (entry # entries) bytes files =
     and_then entry (\<lambda>(path, metadata).
       if skip path then dir_hash_loop skip opts entries bytes files
       else and_then metadata (\<lambda>f.
         dir_hash_loop skip opts entries (bytes @ hashed_bytes opts f) (files @ [f])))"

definition calc_dir_hash ::
    "(u8 list \<Rightarrow> u64) \<Rightarrow> (string \<Rightarrow> bool) \<Rightarrow> hasher_options \<Rightarrow>
     ('e, string \<times> ('e, file_info) res) res list \<Rightarrow> ('e, u64 \<times> file_info list) res" where
  "calc_dir_hash hash skip opts entries =
     and_then (dir_hash_loop skip opts entries [] []) (\<lambda>(bytes, files). Ok (hash bytes, files))"

definition str_starts_with :: "string \<Rightarrow> string \<Rightarrow> bool" where
  "str_starts_with s pre \<longleftrightarrow> take (length pre) s = pre"

definition calc_fileinfo_hash ::
    "(u8 list \<Rightarrow> u64) \<Rightarrow> file_info list \<Rightarrow> string \<Rightarrow> hasher_options \<Rightarrow> u64" where
  "calc_fileinfo_hash hash files path opts =
     hash (concat (map (hashed_bytes opts) (filter (\<lambda>f. str_starts_with (rel_path f) path) files)))"

subsection \<open>The difference of two trees\<close>

text \<open>The main loop, with its indices and its result so far; it runs from the last entries down.\<close>

function get_diff_loop ::
    "(u8 list \<Rightarrow> u64) \<Rightarrow> (string \<Rightarrow> bool) \<Rightarrow> (string \<Rightarrow> bool) \<Rightarrow> hasher_options \<Rightarrow>
     file_info list \<Rightarrow> file_info list \<Rightarrow> nat \<Rightarrow> nat \<Rightarrow> file_diff list \<Rightarrow> nat \<times> nat \<times> file_diff list" where
  "get_diff_loop hash fst_skip snd_skip opts fs ss i j res =
     (if fst_skip (rel_path (fs ! i)) then
        (if i = 0 then (i, j, res) else get_diff_loop hash fst_skip snd_skip opts fs ss (i - 1) j res)
      else if snd_skip (rel_path (ss ! j)) then
        (if j = 0 then (i, j, res) else get_diff_loop hash fst_skip snd_skip opts fs ss i (j - 1) res)
      else if rel_path (fs ! i) = rel_path (ss ! j) then
        (let hash_fst = calc_fileinfo_hash hash fs (rel_path (fs ! i)) opts;
             hash_snd = calc_fileinfo_hash hash ss (rel_path (ss ! j)) opts;
             res' = (if hash_fst \<noteq> hash_snd then res @ [FileIsDifferent (fs ! i) (ss ! j)] else res)
         in if i = 0 \<or> j = 0 then (i, j, res')
            else get_diff_loop hash fst_skip snd_skip opts fs ss (i - 1) (j - 1) res')
      else if rel_path (ss ! j) < rel_path (fs ! i) then
        (let res' = res @ [OnlyOneExists (fs ! i)]
         in if i = 0 then (i, j, res')
            else get_diff_loop hash fst_skip snd_skip opts fs ss (i - 1) j res')
      else
        (let res' = res @ [OnlyOneExists (ss ! j)]
         in if j = 0 then (i, j, res')
            else get_diff_loop hash fst_skip snd_skip opts fs ss i (j - 1) res'))"
  by pat_completeness auto
termination
  by (relation "measure (\<lambda>(hash, fst_skip, snd_skip, opts, fs, ss, i, j, res). i + j)") auto

declare get_diff_loop.simps [simp del]

definition handle_last_diff :: "nat \<Rightarrow> file_info list \<Rightarrow> file_diff list \<Rightarrow> file_diff list" where
  "handle_last_diff i files res =
     (if i > 0 then res @ map (\<lambda>k. OnlyOneExists (files ! k)) (rev [0..<Suc i]) else res)"

text \<open>On an empty vector \<open>len() - 1\<close> wraps around and the first index access panics.\<close>

definition get_diff ::
    "(u8 list \<Rightarrow> u64) \<Rightarrow> file_info list \<Rightarrow> file_info list \<Rightarrow> (string \<Rightarrow> bool) \<Rightarrow> (string \<Rightarrow> bool) \<Rightarrow>
     hasher_options \<Rightarrow> ('e, file_diff list) res" where
  "get_diff hash fs ss fst_skip snd_skip opts =
     (if fs = [] \<or> ss = [] then Crash Panicked
      else case get_diff_loop hash fst_skip snd_skip opts fs ss (length fs - 1) (length ss - 1) [] of
        (i, j, res) \<Rightarrow> Ok (handle_last_diff j ss (handle_last_diff i fs res)))"

subsection \<open>The objective\<close>

record dash_observer =
  do_hash :: u64
  do_fs_state :: "file_info list"
  do_fs_internal :: "string \<Rightarrow> bool"

record dash_objective =
  obj_enabled :: bool
  obj_hasher_options :: hasher_options

definition dash_objective_new :: "bool \<Rightarrow> dash_objective" where
  "dash_objective_new enabled = \<lparr>obj_enabled = enabled, obj_hasher_options = default_hasher_options\<rparr>"

definition dash_is_interesting :: "dash_objective \<Rightarrow> dash_observer \<Rightarrow> dash_observer \<Rightarrow> bool" where
  "dash_is_interesting obj fst_obs snd_obs =
     (if \<not> obj_enabled obj then False else do_hash fst_obs \<noteq> do_hash snd_obs)"

definition dash_objective_diff ::
    "(u8 list \<Rightarrow> u64) \<Rightarrow> dash_objective \<Rightarrow> dash_observer \<Rightarrow> dash_observer \<Rightarrow> ('e, file_diff list) res" where
  "dash_objective_diff hash obj fst_obs snd_obs =
     get_diff hash (do_fs_state fst_obs) (do_fs_state snd_obs) (do_fs_internal fst_obs)
       (do_fs_internal snd_obs) (obj_hasher_options obj)"

subsection \<open>The hash of a walk\<close>

lemma dir_hash_loop_Ok:
  "dir_hash_loop skip opts (map (\<lambda>f. Ok (rel_path f, Ok f)) fs) bytes files =
     (Ok (bytes @ concat (map (hashed_bytes opts) (filter (\<lambda>f. \<not> skip (rel_path f)) fs)),
          files @ filter (\<lambda>f. \<not> skip (rel_path f)) fs) :: ('e, _) res)"
  by (induction fs arbitrary: bytes files) auto

lemma calc_dir_hash_Ok:
  "calc_dir_hash hash skip opts (map (\<lambda>f. Ok (rel_path f, Ok f)) fs) =
     (let kept = filter (\<lambda>f. \<not> skip (rel_path f)) fs
      in (Ok (hash (concat (map (hashed_bytes opts) kept)), kept) :: ('e, _) res))"
  by (simp add: calc_dir_hash_def dir_hash_loop_Ok Let_def)

text \<open>The root is a prefix of every path: its file hash is the hash of the whole list.\<close>

lemma calc_fileinfo_hash_root:
  "calc_fileinfo_hash hash files [] opts = hash (concat (map (hashed_bytes opts) files))"
  by (simp add: calc_fileinfo_hash_def str_starts_with_def)

subsection \<open>The difference of two sorted trees\<close>

definition path_sorted :: "file_info list \<Rightarrow> bool" where
  "path_sorted fs \<longleftrightarrow> (\<forall>i j. i < j \<longrightarrow> j < length fs \<longrightarrow> rel_path (fs ! i) < rel_path (fs ! j))"

text \<open>The indices up to \<open>i\<close> and \<open>j\<close> that the difference should report.\<close>

definition only_in :: "(string \<Rightarrow> bool) \<Rightarrow> (string \<Rightarrow> bool) \<Rightarrow> file_info list \<Rightarrow> file_info list \<Rightarrow> nat \<Rightarrow> nat \<Rightarrow> nat set" where
  "only_in skip skip' fs ss i j =
     {a. a \<le> i \<and> \<not> skip (rel_path (fs ! a))
         \<and> (\<forall>b \<le> j. skip' (rel_path (ss ! b)) \<or> rel_path (ss ! b) \<noteq> rel_path (fs ! a))}"

definition in_both ::
    "(u8 list \<Rightarrow> u64) \<Rightarrow> (string \<Rightarrow> bool) \<Rightarrow> (string \<Rightarrow> bool) \<Rightarrow> hasher_options \<Rightarrow>
     file_info list \<Rightarrow> file_info list \<Rightarrow> nat \<Rightarrow> nat \<Rightarrow> (nat \<times> nat) set" where
  "in_both hash skip skip' opts fs ss i j =
     {(a, b). a \<le> i \<and> b \<le> j \<and> \<not> skip (rel_path (fs ! a)) \<and> \<not> skip' (rel_path (ss ! b))
        \<and> rel_path (fs ! a) = rel_path (ss ! b)
        \<and> calc_fileinfo_hash hash fs (rel_path (fs ! a)) opts \<noteq> calc_fileinfo_hash hash ss (rel_path (ss ! b)) opts}"

definition expected_diff ::
    "(u8 list \<Rightarrow> u64) \<Rightarrow> (string \<Rightarrow> bool) \<Rightarrow> (string \<Rightarrow> bool) \<Rightarrow> hasher_options \<Rightarrow>
     file_info list \<Rightarrow> file_info list \<Rightarrow> nat \<Rightarrow> nat \<Rightarrow> file_diff set" where
  "expected_diff hash skip skip' opts fs ss i j =
     (\<lambda>(a, b). FileIsDifferent (fs ! a) (ss ! b)) ` in_both hash skip skip' opts fs ss i j
     \<union> (\<lambda>a. OnlyOneExists (fs ! a)) ` only_in skip skip' fs ss i j
     \<union> (\<lambda>b. OnlyOneExists (ss ! b)) ` only_in skip' skip ss fs j i"

lemma only_in_steps:
  "skip (rel_path (fs ! Suc i)) \<Longrightarrow> only_in skip skip' fs ss (Suc i) j = only_in skip skip' fs ss i j"
  "skip' (rel_path (ss ! Suc j)) \<Longrightarrow> only_in skip skip' fs ss i (Suc j) = only_in skip skip' fs ss i j"
  "\<forall>a \<le> i. rel_path (fs ! a) \<noteq> rel_path (ss ! Suc j) \<Longrightarrow>
   only_in skip skip' fs ss i (Suc j) = only_in skip skip' fs ss i j"
  "\<not> skip (rel_path (fs ! Suc i)) \<Longrightarrow> \<forall>b \<le> j. rel_path (ss ! b) \<noteq> rel_path (fs ! Suc i) \<Longrightarrow>
   only_in skip skip' fs ss (Suc i) j = insert (Suc i) (only_in skip skip' fs ss i j)"
  unfolding only_in_def by (auto simp: le_Suc_eq)

lemma in_both_steps:
  "skip (rel_path (fs ! Suc i)) \<Longrightarrow> in_both hash skip skip' opts fs ss (Suc i) j = in_both hash skip skip' opts fs ss i j"
  "skip' (rel_path (ss ! Suc j)) \<Longrightarrow> in_both hash skip skip' opts fs ss i (Suc j) = in_both hash skip skip' opts fs ss i j"
  "\<forall>a \<le> i. rel_path (fs ! a) \<noteq> rel_path (ss ! Suc j) \<Longrightarrow>
   in_both hash skip skip' opts fs ss i (Suc j) = in_both hash skip skip' opts fs ss i j"
  "\<forall>b \<le> j. rel_path (ss ! b) \<noteq> rel_path (fs ! Suc i) \<Longrightarrow>
   in_both hash skip skip' opts fs ss (Suc i) j = in_both hash skip skip' opts fs ss i j"
  unfolding in_both_def by (auto simp: le_Suc_eq)

lemma only_in_same:
  assumes "rel_path (fs ! Suc i) = rel_path (ss ! Suc j)" and "\<not> skip' (rel_path (ss ! Suc j))"
    and "\<forall>a \<le> i. rel_path (fs ! a) \<noteq> rel_path (fs ! Suc i)"
  shows "only_in skip skip' fs ss (Suc i) (Suc j) = only_in skip skip' fs ss i j"
  using assms unfolding only_in_def by (auto simp: le_Suc_eq)

lemma in_both_same:
  assumes "rel_path (fs ! Suc i) = rel_path (ss ! Suc j)" and "\<not> skip (rel_path (fs ! Suc i))"
    and "\<not> skip' (rel_path (ss ! Suc j))"
    and "\<forall>a \<le> i. rel_path (fs ! a) \<noteq> rel_path (fs ! Suc i)" and "\<forall>b \<le> j. rel_path (ss ! b) \<noteq> rel_path (ss ! Suc j)"
  shows "in_both hash skip skip' opts fs ss (Suc i) (Suc j) =
    (if calc_fileinfo_hash hash fs (rel_path (fs ! Suc i)) opts \<noteq> calc_fileinfo_hash hash ss (rel_path (ss ! Suc j)) opts
     then {(Suc i, Suc j)} else {}) \<union> in_both hash skip skip' opts fs ss i j"
  using assms unfolding in_both_def by (auto simp: le_Suc_eq)

text \<open>Both lists sorted and starting with the same entry, which neither side skips.\<close>

definition rooted :: "(string \<Rightarrow> bool) \<Rightarrow> (string \<Rightarrow> bool) \<Rightarrow> file_info list \<Rightarrow> file_info list \<Rightarrow> bool" where
  "rooted skip skip' fs ss \<longleftrightarrow>
     path_sorted fs \<and> path_sorted ss \<and> fs \<noteq> [] \<and> ss \<noteq> []
     \<and> rel_path (fs ! 0) = rel_path (ss ! 0) \<and> \<not> skip (rel_path (fs ! 0)) \<and> \<not> skip' (rel_path (fs ! 0))"

lemma path_sorted_neq: "path_sorted fs \<Longrightarrow> i < length fs \<Longrightarrow> a < i \<Longrightarrow> rel_path (fs ! a) < rel_path (fs ! i)"
  by (simp add: path_sorted_def)

lemma path_sorted_le: "path_sorted fs \<Longrightarrow> i < length fs \<Longrightarrow> a \<le> i \<Longrightarrow> rel_path (fs ! a) \<le> rel_path (fs ! i)"
  using path_sorted_neq [of fs i a] by (cases "a = i") (simp_all add: less_imp_le)

lemma get_diff_loop_rooted:
  assumes "rooted skip skip' fs ss" and "i < length fs" and "j < length ss"
  shows "\<exists>D. get_diff_loop hash skip skip' opts fs ss i j res = (0, 0, res @ D)
           \<and> set D = expected_diff hash skip skip' opts fs ss i j"
  using assms
proof (induction hash skip skip' opts fs ss i j res rule: get_diff_loop.induct)
  case (1 hash skip skip' opts fs ss i j res)
  note r = "1.prems"(1) [unfolded rooted_def]
  consider (skip_fst) "skip (rel_path (fs ! i))"
    | (skip_snd) "\<not> skip (rel_path (fs ! i))" "skip' (rel_path (ss ! j))"
    | (equal) "\<not> skip (rel_path (fs ! i))" "\<not> skip' (rel_path (ss ! j))" "rel_path (fs ! i) = rel_path (ss ! j)"
    | (greater) "\<not> skip (rel_path (fs ! i))" "\<not> skip' (rel_path (ss ! j))" "rel_path (ss ! j) < rel_path (fs ! i)"
    | (less) "\<not> skip (rel_path (fs ! i))" "\<not> skip' (rel_path (ss ! j))" "rel_path (fs ! i) < rel_path (ss ! j)"
    by force
  then show ?case
  proof cases
    case skip_fst
    then obtain i' where i: "i = Suc i'" using r by (cases i) auto
    then show ?thesis using skip_fst "1.IH"(1) "1.prems"
      by (subst get_diff_loop.simps) (simp add: expected_diff_def only_in_steps in_both_steps)
  next
    case skip_snd
    then obtain j' where j: "j = Suc j'" using r by (cases j) auto
    then show ?thesis using skip_snd "1.IH"(2) "1.prems"
      by (subst get_diff_loop.simps) (simp add: expected_diff_def only_in_steps in_both_steps)
  next
    case equal
    have zero: "i = 0 \<longleftrightarrow> j = 0"
      using path_sorted_neq [of fs i 0] path_sorted_neq [of ss j 0] r "1.prems"(2,3) equal(3)
      by (metis gr0I less_irrefl)
    let ?diff = "calc_fileinfo_hash hash fs (rel_path (fs ! i)) opts \<noteq> calc_fileinfo_hash hash ss (rel_path (ss ! j)) opts"
    define res' where "res' = (if ?diff then res @ [FileIsDifferent (fs ! i) (ss ! j)] else res)"
    show ?thesis
    proof (cases i)
      case 0
      then have j: "j = 0" using zero by simp
      have "expected_diff hash skip skip' opts fs ss 0 0 = (if ?diff then {FileIsDifferent (fs ! 0) (ss ! 0)} else {})"
        using equal 0 j by (auto simp: expected_diff_def only_in_def in_both_def)
      then show ?thesis using equal 0 j
        by (subst get_diff_loop.simps) (auto simp: Let_def)
    next
      case (Suc i')
      then obtain j' where j: "j = Suc j'" using zero by (cases j) auto
      have neq: "\<forall>a \<le> i'. rel_path (fs ! a) \<noteq> rel_path (fs ! Suc i')" "\<forall>b \<le> j'. rel_path (ss ! b) \<noteq> rel_path (ss ! Suc j')"
        using path_sorted_neq r "1.prems"(2,3) Suc j by (metis le_imp_less_Suc less_irrefl)+
      have "\<exists>D. get_diff_loop hash skip skip' opts fs ss i' j' res' = (0, 0, res' @ D)
           \<and> set D = expected_diff hash skip skip' opts fs ss i' j'"
        using "1.IH"(3) [of _ _ res'] "1.prems" equal Suc j by (simp add: res'_def)
      moreover have "get_diff_loop hash skip skip' opts fs ss i j res = get_diff_loop hash skip skip' opts fs ss i' j' res'"
        using equal Suc j by (subst get_diff_loop.simps) (simp add: res'_def Let_def)
      moreover have "expected_diff hash skip skip' opts fs ss i j =
          (if ?diff then {FileIsDifferent (fs ! i) (ss ! j)} else {}) \<union> expected_diff hash skip skip' opts fs ss i' j'"
        using equal neq only_in_same [of fs i' ss j' skip' skip] only_in_same [of ss j' fs i' skip skip']
          in_both_same [of fs i' ss j' skip skip' hash opts]
        by (simp add: expected_diff_def Suc j)
      ultimately show ?thesis by (auto simp: res'_def)
    qed
  next
    case greater
    then obtain i' where i: "i = Suc i'"
      using r path_sorted_le [of ss j 0] "1.prems"(3) by (cases i) auto
    have neq: "\<forall>b \<le> j. rel_path (ss ! b) \<noteq> rel_path (fs ! Suc i')"
      using path_sorted_le r greater(3) "1.prems"(3) i by (metis leD)
    have "\<exists>D. get_diff_loop hash skip skip' opts fs ss i' j (res @ [OnlyOneExists (fs ! i)])
            = (0, 0, (res @ [OnlyOneExists (fs ! i)]) @ D) \<and> set D = expected_diff hash skip skip' opts fs ss i' j"
      using "1.IH"(4) "1.prems" greater i by (simp add: order.strict_implies_not_eq)
    moreover have "get_diff_loop hash skip skip' opts fs ss i j res
        = get_diff_loop hash skip skip' opts fs ss i' j (res @ [OnlyOneExists (fs ! i)])"
      using greater i by (subst get_diff_loop.simps) (auto simp: Let_def)
    moreover have "expected_diff hash skip skip' opts fs ss i j
        = insert (OnlyOneExists (fs ! i)) (expected_diff hash skip skip' opts fs ss i' j)"
      using greater(1) neq by (simp add: expected_diff_def i only_in_steps in_both_steps)
    ultimately show ?thesis by auto
  next
    case less
    then obtain j' where j: "j = Suc j'"
      using r path_sorted_le [of fs i 0] "1.prems"(2) by (cases j) auto
    have neq: "\<forall>a \<le> i. rel_path (fs ! a) \<noteq> rel_path (ss ! Suc j')"
      using path_sorted_le r less(3) "1.prems"(2) j by (metis leD)
    have "\<exists>D. get_diff_loop hash skip skip' opts fs ss i j' (res @ [OnlyOneExists (ss ! j)])
            = (0, 0, (res @ [OnlyOneExists (ss ! j)]) @ D) \<and> set D = expected_diff hash skip skip' opts fs ss i j'"
      using "1.IH"(5) "1.prems" less j by (simp add: order.strict_implies_not_eq)
    moreover have "get_diff_loop hash skip skip' opts fs ss i j res
        = get_diff_loop hash skip skip' opts fs ss i j' (res @ [OnlyOneExists (ss ! j)])"
      using less j by (subst get_diff_loop.simps) (auto simp: Let_def)
    moreover have "expected_diff hash skip skip' opts fs ss i j
        = insert (OnlyOneExists (ss ! j)) (expected_diff hash skip skip' opts fs ss i j')"
      using less(2) neq by (simp add: expected_diff_def j only_in_steps in_both_steps)
    ultimately show ?thesis by auto
  qed
qed

lemma get_diff_rooted:
  assumes "rooted skip skip' fs ss"
  shows "\<exists>D. get_diff hash fs ss skip skip' opts = (Ok D :: ('e, _) res)
           \<and> set D = expected_diff hash skip skip' opts fs ss (length fs - 1) (length ss - 1)"
proof -
  have "fs \<noteq> []" "ss \<noteq> []" using assms by (auto simp: rooted_def)
  then show ?thesis
    using get_diff_loop_rooted [OF assms, of "length fs - 1" "length ss - 1" hash opts "[]"]
    by (auto simp: get_diff_def handle_last_diff_def)
qed

end
