(* ===== verification/Examples.thy ===== *)
theory Examples
  imports Generator_Ends Any_Paths Executor Dash
begin

text \<open>
  Concrete file systems on which the witnesses of the properties evaluate the model, and the facts
  about them that several witnesses share. \<open>demo_fs\<close> is what the code builds for a short workload that
  uses a directory, a file that is written and still open, a hard link and a symbolic link.
\<close>

lemma segments_valid: "n \<in> set (segments p) \<Longrightarrow> valid_name n"
  by (auto simp: segments_def valid_name_def dest: str_split_pieces)

lemma canonical_code [code]: "canonical p \<longleftrightarrow> p = path_of (segments p)"
proof
  assume "canonical p"
  then show "p = path_of (segments p)" by (auto simp: canonical_def segments_path_of)
next
  assume "p = path_of (segments p)"
  then show "canonical p" unfolding canonical_def using segments_valid by blast
qed

lemma replay_ops_reach:
  assumes "fs_reach fs" and "wf_ops os" and "written (ops (recording fs)) + written os < 2 ^ 64"
    and "replay_ops os fs = (Ok (), fs')"
  shows "fs_reach fs'"
  using assms
proof (induction os arbitrary: fs)
  case (Cons op os)
  obtain r fs1 where run: "apply_op op fs = (r, fs1)" by (cases "apply_op op fs")
  then have r: "r = Ok ()" using Cons.prems(4) by (cases r) auto
  have op: "wf_op op" "fits op fs" using Cons.prems(2,3) by (auto simp: fits_def)
  have reach: "fs_reach fs1" using fs_reach.step [OF Cons.prems(1) op run] r by simp
  obtain op' where "same_effect op op'" "ops (recording fs1) = ops (recording fs) @ [op']"
    using apply_op_records run r by blast
  then have "written (ops (recording fs1)) = written (ops (recording fs)) + op_written op"
    using same_kind by simp
  then show ?case using Cons.IH [OF reach] Cons.prems run r by simp
qed simp

lemma replay_ops_written:
  "replay_ops os fs = (Ok (), fs') \<Longrightarrow>
   written (ops (recording fs')) = written (ops (recording fs)) + written os"
proof (induction os arbitrary: fs)
  case (Cons op os)
  obtain r fs1 where run: "apply_op op fs = (r, fs1)" by (cases "apply_op op fs")
  then have r: "r = Ok ()" using Cons.prems by (cases r) auto
  obtain op' where "same_effect op op'" "ops (recording fs1) = ops (recording fs) @ [op']"
    using apply_op_records run r by blast
  then show ?case using same_kind Cons run r by simp
qed simp

definition demo_ops :: "operation list" where
  "demo_ops =
     [OpMkDir ''/d'' [S_IRWXU], OpCreate ''/d/f'' [], OpOpen ''/d/f'' (FileDescriptorIndex 0),
      OpWrite (FileDescriptorIndex 0) 3 4, OpHardlink ''/d/f'' ''/h'', OpSymlink ''/d'' ''/s'']"

definition demo_fs :: abstract_fs where
  "demo_fs = snd (replay_ops demo_ops fs_new)"

lemma demo_run: "replay_ops demo_ops fs_new = (Ok (), demo_fs)"
proof -
  have "fst (replay_ops demo_ops fs_new) = Ok ()" by code_simp
  then show ?thesis by (simp add: demo_fs_def prod_eq_iff)
qed

lemma demo_reach: "fs_reach demo_fs"
proof (rule replay_ops_reach [OF fs_reach.start _ _ demo_run])
  show "wf_ops demo_ops" by (simp add: demo_ops_def canonical_code path_of_def segments_def is_root_def)
  show "written (ops (recording fs_new)) + written demo_ops < 2 ^ 64"
    by (simp add: demo_ops_def fs_new_def workload_new_def)
qed

lemma demo_written: "written (ops (recording demo_fs)) = 4"
proof -
  have "sum_list (map op_written demo_ops) = 4" by (simp add: demo_ops_def)
  then show ?thesis using replay_ops_written [OF demo_run] by (simp add: written_def fs_new_def)
qed

lemma demo_fits: "fits op demo_fs \<longleftrightarrow> op_written op < 2 ^ 64 - 4"
  by (simp add: fits_def demo_written)

lemma demo_wf: "wf_fs demo_fs" and demo_inv: "inv_fs demo_fs" and demo_tree: "tree_fs demo_fs"
  using demo_reach fs_reach_wf fs_reach_inv fs_reach_tree by blast+

lemma demo_canonical:
  "canonical ''/s/x'' \<and> \<not> is_root ''/s/x''" "canonical ''/d/g'' \<and> \<not> is_root ''/d/g''"
  "canonical ''/a'' \<and> \<not> is_root ''/a''"
  by (simp_all add: canonical_code path_of_def segments_def is_root_def)

lemma demo_symlinks: "length (symlinks demo_fs) = 1"
  by code_simp

definition demo_file :: file_node where
  "demo_file = \<lparr>descriptor = Some (FileDescriptorIndex 0),
     cont = \<lparr>slices = [\<lparr>slice_from = 3, slice_to = 6\<rparr>]\<rparr>\<rparr>"

lemma demo_files: "files demo_fs = [demo_file]"
  by code_simp

lemma demo_descriptors: "descriptors demo_fs = [\<lparr>fd_file = FileIndex 0, offset = 4\<rparr>]"
  by code_simp

lemma demo_opened:
  "opened_as demo_fs (FileDescriptorIndex 0) (\<lparr>fd_file = FileIndex 0, offset = 4\<rparr>, demo_file)"
  by (simp add: opened_as_def demo_files demo_descriptors) (simp add: demo_file_def)

lemma demo_bytes: "file_bytes demo_fs (FileIndex 0) = [3, 4, 5, 6]"
  by (simp add: file_bytes_def demo_files demo_file_def content_bytes_def slice_bytes_def upt_conv_Cons)

lemma demo_legal: "wf_ops demo_ops" "written demo_ops = 4" "length demo_ops = 6"
  by (simp_all add: demo_ops_def canonical_code path_of_def segments_def is_root_def)

text \<open>
  A random source that fulfils its contract: it draws positions in turn, and the first kind of
  operation with a positive weight.
\<close>

fun first_positive :: "u32 list \<Rightarrow> nat option" where
  "first_positive [] = None"
| "first_positive (w # ws) = (if 0 < w then Some 0 else map_option Suc (first_positive ws))"

lemma first_positive_spec:
  "\<exists>w \<in> set ws. 0 < w \<Longrightarrow> \<exists>i < length ws. first_positive ws = Some i \<and> 0 < ws ! i"
proof (induction ws)
  case (Cons w ws)
  then show ?case by (cases "0 < w") auto
qed simp

definition demo_rng :: "nat rng" where
  "demo_rng = \<lparr>choose_index = \<lambda>n g. (g mod n, Suc g), choose_weight = \<lambda>ws g. (first_positive ws, g)\<rparr>"

lemma demo_rng_good: "good_rng demo_rng"
  using first_positive_spec by (auto simp: good_rng_def demo_rng_def)

lemma demo_rng_fair: "fair_rng demo_rng"
proof -
  have state: "draw_state demo_rng n k g = g + k" for n k g
    by (induction k arbitrary: g) (simp_all add: demo_rng_def)
  have "\<exists>k. (g + k) mod n = i" if "i < n" for i n g :: nat
  proof (intro exI)
    have "g mod n < n" "g mod n \<le> g" using that by simp_all
    then have "g + (n - g mod n + i) = (g - g mod n) + (n + i)" by linarith
    also have "(g - g mod n) + (n + i) = n * (g div n) + (n + i)" by (simp add: minus_mod_eq_mult_div)
    finally show "(g + (n - g mod n + i)) mod n = i" using that by simp
  qed
  then show ?thesis unfolding fair_rng_def state by (simp add: demo_rng_def)
qed

lemma uniform_usable: "usable_weights uniform_weights"
  by (simp add: usable_weights_def uniform_weights_def)

lemma demo_dirs:
  "dirs demo_fs =
     [\<lparr>children = [(''d'', NodeDir (DirIndex 1)), (''h'', NodeFile (FileIndex 0)),
                    (''s'', NodeSymlink (SymlinkIndex 0))]\<rparr>,
      \<lparr>children = [(''f'', NodeFile (FileIndex 0))]\<rparr>]"
  by code_simp

definition demo_al :: alive_nodes where
  "demo_al =
     \<lparr>al_dirs = [(DirIndex 0, ''/''), (DirIndex 1, ''/d''), (DirIndex 1, ''/s'')],
      al_files = [(FileIndex 0, ''/d/f''), (FileIndex 0, ''/h''), (FileIndex 0, ''/s/f'')],
      al_files_symlinked = [], al_symlinks = [''/s'']\<rparr>"

lemma demo_alive: "alive demo_fs = Some (Ok demo_al)"
  by code_simp

text \<open>The trace of a program that failed to make a directory and then read a file.\<close>

definition demo_strerror :: "i32 \<Rightarrow> string" where
  "demo_strerror e = (if e = 0 then ''Success'' else ''File exists'')"

definition demo_executed :: "executed list" where
  "demo_executed =
     [\<lparr>ex_idx = 1, ex_cmd = ''MKDIR'', ex_ret_code = -1, ex_err = 17, ex_extra = []\<rparr>,
      \<lparr>ex_idx = 2, ex_cmd = ''READ'', ex_ret_code = 16, ex_err = 0, ex_extra = ''hash=1f''\<rparr>]"

text \<open>A file in a directory listing.\<close>

definition info :: "string \<Rightarrow> file_info" where
  "info p = \<lparr>abs_path = p, rel_path = p, fi_gid = 0, fi_uid = 0, fi_size = 0, fi_nlink = 1,
     fi_mode = 0, fi_is_dir = False\<rparr>"

end
