(* ===== verification/Feedback.thy ===== *)
theory Feedback
  imports Trace
begin

text \<open>
  \<open>fuzzing/greybox/feedback\<close>: coverage maps and what makes an input interesting.

  \<^item> A \<open>CoverageMap\<close> (a hash map) is an association list with distinct keys, an \<open>InputCoverage\<close>
    (a hash set) a list without duplicates; nothing the code does with them depends on their order.
  \<^item> \<open>kcov_parse\<close> and \<open>lcov_parse\<close> are the parsers of \<open>kcov.rs\<close> and \<open>lcov.rs\<close>, on the text of
    the file; the reading itself is in the theory \<open>Fuzzer\<close>.
  \<^item> The standard library does not document the algorithm of its default hasher, so the hash of a
    file name is the parameter \<open>hash_name\<close>.

  The contract of a coverage feedback is the locale \<open>coverage_counter\<close>: an input is interesting
  exactly when it reaches an address that no input reached before, and the map counts, for every
  address, the inputs that reached it.
\<close>

subsection \<open>Lines and hexadecimal numbers\<close>

definition drop_cr :: "string \<Rightarrow> string" where
  "drop_cr s = (if s \<noteq> [] \<and> last s = CHR 0x0D then butlast s else s)"

text \<open>\<open>str::lines\<close>: a final line break does not open another line.\<close>

definition str_lines :: "string \<Rightarrow> string list" where
  "str_lines s =
     (let ls = str_split newline s
      in map drop_cr (if last ls = [] then butlast ls else ls))"

text \<open>\<open>trim_start_matches("0x")\<close> removes the prefix as often as it is there.\<close>

function trim_0x :: "string \<Rightarrow> string" where
  "trim_0x s = (if take 2 s = ''0x'' then trim_0x (drop 2 s) else s)"
  by pat_completeness auto
termination
proof (relation "measure length")
  fix s :: string
  assume "take 2 s = ''0x''"
  then show "(drop 2 s, s) \<in> measure length" by (cases s) auto
qed simp

declare trim_0x.simps [simp del]

definition hex_value :: "char \<Rightarrow> nat option" where
  "hex_value c =
     (let n = (of_char c :: nat)
      in if 48 \<le> n \<and> n \<le> 57 then Some (n - 48)
         else if 97 \<le> n \<and> n \<le> 102 then Some (n - 87)
         else if 65 \<le> n \<and> n \<le> 70 then Some (n - 55) else None)"

fun parse_hex_digits :: "string \<Rightarrow> nat \<Rightarrow> (parse_int_error, nat) res" where
  "parse_hex_digits [] acc = Ok acc"
| "parse_hex_digits (c # cs) acc =
     (case hex_value c of
        None \<Rightarrow> Err InvalidDigit
      | Some d \<Rightarrow> if 2 ^ 64 \<le> acc * 16 + d then Err PosOverflow else parse_hex_digits cs (acc * 16 + d))"

text \<open>\<open>u64::from_str_radix(s, 16)\<close>.\<close>

definition parse_hex :: "string \<Rightarrow> (parse_int_error, u64) res" where
  "parse_hex s =
     (if s = [] then Err EmptyInt
      else if s = ''+'' \<or> s = ''-'' then Err InvalidDigit
      else and_then (parse_hex_digits (if hd s = CHR ''+'' then tl s else s) 0) (\<lambda>n. Ok (word_of_nat n)))"

definition parse_addr :: "string \<Rightarrow> (parse_int_error, u64) res" where
  "parse_addr s = parse_hex (trim_0x s)"

subsection \<open>Coverage maps\<close>

datatype coverage_type = CoverageNone | CoverageKCov | CoverageLCov

type_synonym input_coverage = "u64 list"
type_synonym coverage_map = "(u64 \<times> u64) list"

datatype feedback_opinion = Interesting input_coverage | NotInteresting input_coverage

fun is_interesting :: "feedback_opinion \<Rightarrow> bool" where
  "is_interesting (Interesting _) = True"
| "is_interesting (NotInteresting _) = False"

fun opinion_coverage :: "feedback_opinion \<Rightarrow> input_coverage" where
  "opinion_coverage (Interesting c) = c"
| "opinion_coverage (NotInteresting c) = c"

definition hits :: "coverage_map \<Rightarrow> u64 \<Rightarrow> u64" where
  "hits m a = (case map_of m a of None \<Rightarrow> 0 | Some n \<Rightarrow> n)"

text \<open>The loop over the new addresses that \<open>kcov.rs\<close> and \<open>lcov.rs\<close> share.\<close>

fun count_addresses :: "u64 list \<Rightarrow> bool \<Rightarrow> coverage_map \<Rightarrow> bool \<times> coverage_map" where
  "count_addresses [] interesting m = (interesting, m)"
| "count_addresses (addr # addrs) interesting m =
     (let total = hits m addr
      in count_addresses addrs (interesting \<or> total = 0) (AList.update addr (total + 1) m))"

definition opinion_of :: "coverage_map \<Rightarrow> coverage_map \<Rightarrow> feedback_opinion \<times> coverage_map" where
  "opinion_of new_coverage m =
     (case count_addresses (map fst new_coverage) False m of (interesting, m') \<Rightarrow>
        ((if interesting then Interesting (map fst new_coverage)
          else NotInteresting (map fst new_coverage)), m'))"

subsection \<open>KCov\<close>

datatype kcov_error = BadAddr string parse_int_error

fun kcov_lines :: "string list \<Rightarrow> coverage_map \<Rightarrow> (kcov_error, coverage_map) res" where
  "kcov_lines [] m = Ok m"
| "kcov_lines (line # lines) m =
     and_then (map_err (BadAddr line) (parse_addr line)) (\<lambda>addr.
       kcov_lines lines (AList.update addr (hits m addr + 1) m))"

definition kcov_parse :: "string \<Rightarrow> (kcov_error, coverage_map) res" where
  "kcov_parse text = kcov_lines (str_lines text) []"

subsection \<open>LCov\<close>

type_synonym lcov_trace_one_file = "(u32 \<times> u64) list"
type_synonym lcov_trace = "(string \<times> lcov_trace_one_file) list"

datatype lcov_line = SourceFileName string | LineExecutionCount u32 u64 | EndOfRecord

text \<open>\<open>split_once\<close> at the first separator.\<close>

fun split_once :: "char \<Rightarrow> string \<Rightarrow> (string \<times> string) option" where
  "split_once c [] = None"
| "split_once c (x # xs) =
     (if x = c then Some ([], xs) else map_option (\<lambda>(a, b). (x # a, b)) (split_once c xs))"

definition parse_u32_word :: "string \<Rightarrow> u32 option" where
  "parse_u32_word s = (case parse_u32 s of Ok i \<Rightarrow> Some (word_of_int i) | _ \<Rightarrow> None)"

definition parse_u64_word :: "string \<Rightarrow> u64 option" where
  "parse_u64_word s = (case parse_int 0 (2 ^ 64 - 1) s of Ok i \<Rightarrow> Some (word_of_int i) | _ \<Rightarrow> None)"

definition lcov_line_of :: "string \<Rightarrow> lcov_line option" where
  "lcov_line_of line0 =
     (let line = trim line0
      in if line = ''end_of_record'' then Some EndOfRecord
         else case split_once (CHR '':'') line of
           None \<Rightarrow> None
         | Some (tag, data) \<Rightarrow>
             if tag = ''SF'' then Some (SourceFileName data)
             else if tag = ''DA'' then
               (let segs = str_split (CHR '','') data
                in if length segs \<ge> 2 then
                     (case (parse_u32_word (segs ! 0), parse_u64_word (segs ! 1)) of
                        (Some l, Some count) \<Rightarrow> if count > 0 then Some (LineExecutionCount l count) else None
                      | _ \<Rightarrow> None)
                   else None)
             else None)"

fun lcov_lines ::
    "string list \<Rightarrow> string option \<Rightarrow> lcov_trace_one_file \<Rightarrow> lcov_trace \<Rightarrow> lcov_trace" where
  "lcov_lines [] current_file tr lcov = lcov"
| "lcov_lines (line # lines) current_file tr lcov =
     (case lcov_line_of line of
        None \<Rightarrow> lcov_lines lines current_file tr lcov
      | Some (SourceFileName next_file) \<Rightarrow>
          lcov_lines lines (if current_file = None then Some next_file else current_file) tr lcov
      | Some (LineExecutionCount l count) \<Rightarrow>
          lcov_lines lines current_file (AList.update l count tr) lcov
      | Some EndOfRecord \<Rightarrow>
          (case current_file of
             None \<Rightarrow> lcov_lines lines current_file tr lcov
           | Some file_name \<Rightarrow> lcov_lines lines None [] (AList.update file_name tr lcov)))"

definition lcov_parse :: "string \<Rightarrow> lcov_trace" where
  "lcov_parse text = lcov_lines (str_lines text) None [] []"

definition short_file_hash :: "u64 \<Rightarrow> u64" where
  "short_file_hash file_hash =
     (let high32 = ucast (drop_bit 32 file_hash) :: u32;
          low32 = ucast file_hash :: u32;
          h = ucast (xor high32 low32) :: u64
      in push_bit 32 h)"

definition location_hash :: "u64 \<Rightarrow> u32 \<Rightarrow> u64" where
  "location_hash file_hash line = short_file_hash file_hash + ucast line"

fun lcov_file_map :: "u64 \<Rightarrow> lcov_trace_one_file \<Rightarrow> coverage_map \<Rightarrow> coverage_map" where
  "lcov_file_map file_hash [] m = m"
| "lcov_file_map file_hash ((line, count) # ls) m =
     lcov_file_map file_hash ls (AList.update (location_hash file_hash line) count m)"

fun lcov_map_loop :: "(string \<Rightarrow> u64) \<Rightarrow> lcov_trace \<Rightarrow> coverage_map \<Rightarrow> coverage_map" where
  "lcov_map_loop hash_name [] m = m"
| "lcov_map_loop hash_name ((file_name, tr) # fs) m =
     lcov_map_loop hash_name fs (lcov_file_map (hash_name file_name) tr m)"

definition lcov_map :: "(string \<Rightarrow> u64) \<Rightarrow> lcov_trace \<Rightarrow> coverage_map" where
  "lcov_map hash_name lcov = lcov_map_loop hash_name lcov []"

subsection \<open>Feedback\<close>

text \<open>The implementors of the trait \<open>CoverageFeedback\<close>, with their maps.\<close>

datatype coverage_feedback =
    DummyFeedback (fb_map: coverage_map)
  | KCovFeedback (fb_map: coverage_map)
  | LCovFeedback (fb_map: coverage_map)

fun feedback_type :: "coverage_feedback \<Rightarrow> coverage_type" where
  "feedback_type (DummyFeedback _) = CoverageNone"
| "feedback_type (KCovFeedback _) = CoverageKCov"
| "feedback_type (LCovFeedback _) = CoverageLCov"

definition feedback_new :: "coverage_type \<Rightarrow> coverage_feedback" where
  "feedback_new t =
     (case t of CoverageNone \<Rightarrow> DummyFeedback [] | CoverageKCov \<Rightarrow> KCovFeedback [] | CoverageLCov \<Rightarrow> LCovFeedback [])"

text \<open>\<open>opinion\<close> on the text of the coverage file of an outcome.\<close>

fun feedback_opinion_on ::
    "(string \<Rightarrow> u64) \<Rightarrow> coverage_feedback \<Rightarrow> string \<Rightarrow>
     (kcov_error, feedback_opinion) res \<times> coverage_feedback" where
  "feedback_opinion_on hash_name (DummyFeedback m) text = (Ok (NotInteresting []), DummyFeedback m)"
| "feedback_opinion_on hash_name (KCovFeedback m) text =
     (case kcov_parse text of
        Ok new_coverage \<Rightarrow> (case opinion_of new_coverage m of (op, m') \<Rightarrow> (Ok op, KCovFeedback m'))
      | Err e \<Rightarrow> (Err e, KCovFeedback m)
      | Crash c \<Rightarrow> (Crash c, KCovFeedback m))"
| "feedback_opinion_on hash_name (LCovFeedback m) text =
     (case opinion_of (lcov_map hash_name (lcov_parse text)) m of (op, m') \<Rightarrow> (Ok op, LCovFeedback m'))"

subsection \<open>What the counting loop computes\<close>

lemma hits_update [simp]: "hits (AList.update a n m) b = (if b = a then n else hits m b)"
  by (simp add: hits_def update_conv')

lemma count_addresses_spec:
  assumes "distinct addrs" and "count_addresses addrs interesting m = (interesting', m')"
  shows "interesting' \<longleftrightarrow> interesting \<or> (\<exists>a \<in> set addrs. hits m a = 0)"
    and "hits m' b = hits m b + of_bool (b \<in> set addrs)"
  using assms
proof (induction addrs arbitrary: interesting m)
  case (Cons a addrs)
  {
    case 1
    have "(\<exists>x \<in> set addrs. hits (AList.update a (hits m a + 1) m) x = 0) \<longleftrightarrow> (\<exists>x \<in> set addrs. hits m x = 0)"
      using 1 by (auto simp: split: if_splits)
    then show ?case
      using Cons.IH(1) [of "interesting \<or> hits m a = 0" "AList.update a (hits m a + 1) m"] 1
      by (auto simp: Let_def)
  next
    case 2
    then show ?case using Cons.IH(2) [of "interesting \<or> hits m a = 0" "AList.update a (hits m a + 1) m"]
      by (auto simp: Let_def)
  }
qed simp_all

lemma opinion_of_spec:
  assumes "keys_distinct new_coverage" and "opinion_of new_coverage m = (op, m')"
  shows "opinion_coverage op = map fst new_coverage"
    and "is_interesting op \<longleftrightarrow> (\<exists>a \<in> fst ` set new_coverage. hits m a = 0)"
    and "hits m' b = hits m b + of_bool (b \<in> fst ` set new_coverage)"
  using assms count_addresses_spec [of "map fst new_coverage" False m]
  by (auto simp: opinion_of_def split: prod.splits if_splits)

lemma kcov_lines_distinct: "kcov_lines ls m = Ok m' \<Longrightarrow> keys_distinct m \<Longrightarrow> keys_distinct m'"
  by (induction ls arbitrary: m) (auto simp: distinct_update)

lemma lcov_file_map_distinct: "keys_distinct m \<Longrightarrow> keys_distinct (lcov_file_map h tr m)"
  by (induction h tr m rule: lcov_file_map.induct) (auto simp: distinct_update)

lemma lcov_map_loop_distinct: "keys_distinct m \<Longrightarrow> keys_distinct (lcov_map_loop hn fs m)"
  by (induction hn fs m rule: lcov_map_loop.induct) (auto simp: lcov_file_map_distinct)

subsection \<open>The contract of a coverage feedback\<close>

text \<open>A sequence of inputs: the opinions on them, as long as none fails.\<close>

fun opinions ::
    "('t \<Rightarrow> 's \<Rightarrow> ('e, feedback_opinion) res \<times> 's) \<Rightarrow> 't list \<Rightarrow> 's \<Rightarrow> ('e, feedback_opinion list) res \<times> 's" where
  "opinions give [] s = (Ok [], s)"
| "opinions give (t # ts) s =
     (case give t s of (r, s') \<Rightarrow> or_return r s' (\<lambda>op.
        case opinions give ts s' of (r', s'') \<Rightarrow> or_return r' s'' (\<lambda>ops. (Ok (op # ops), s''))))"

definition reached_by :: "u64 \<Rightarrow> feedback_opinion list \<Rightarrow> nat" where
  "reached_by a ops = length (filter (\<lambda>op. a \<in> set (opinion_coverage op)) ops)"

lemma reached_by_simps [simp]:
  "reached_by a [] = 0"
  "reached_by a (op # ops) = of_bool (a \<in> set (opinion_coverage op)) + reached_by a ops"
  "reached_by a (xs @ ys) = reached_by a xs + reached_by a ys"
  by (simp_all add: reached_by_def)

lemma reached_by_zero: "reached_by a ops = 0 \<longleftrightarrow> (\<forall>op \<in> set ops. a \<notin> set (opinion_coverage op))"
  by (auto simp: reached_by_def filter_empty_conv)

locale coverage_counter =
  fixes give :: "'t \<Rightarrow> 's \<Rightarrow> ('e, feedback_opinion) res \<times> 's" and counts :: "'s \<Rightarrow> coverage_map"
  assumes interesting_iff:
      "give t s = (Ok op, s') \<Longrightarrow> is_interesting op \<longleftrightarrow> (\<exists>a \<in> set (opinion_coverage op). hits (counts s) a = 0)"
    and counted:
      "give t s = (Ok op, s') \<Longrightarrow> hits (counts s') a = hits (counts s) a + of_bool (a \<in> set (opinion_coverage op))"
    and failure_keeps: "give t s = (r, s') \<Longrightarrow> \<not> is_ok r \<Longrightarrow> s' = s"
begin

lemma opinions_count:
  assumes "opinions give ts s = (Ok ops, s')"
  shows "hits (counts s') a = hits (counts s) a + word_of_nat (reached_by a ops)"
  using assms
proof (induction ts arbitrary: s ops)
  case (Cons t ts)
  obtain r s1 where g: "give t s = (r, s1)" by (cases "give t s")
  then obtain op where r: "r = Ok op" using Cons.prems by (cases r) auto
  obtain r' s2 where o: "opinions give ts s1 = (r', s2)" by (cases "opinions give ts s1")
  then obtain ops' where "r' = Ok ops'" "ops = op # ops'" "s2 = s'"
    using Cons.prems g r by (cases r') auto
  then show ?case using Cons.IH [of s1 ops'] counted [of t s op s1 a] g o r by simp
qed simp

lemma opinions_interesting:
  assumes "opinions give ts s = (Ok ops, s')" and "i < length ops"
  shows "is_interesting (ops ! i) \<longleftrightarrow>
    (\<exists>a \<in> set (opinion_coverage (ops ! i)). hits (counts s) a + word_of_nat (reached_by a (take i ops)) = 0)"
  using assms
proof (induction ts arbitrary: s ops i)
  case (Cons t ts)
  obtain r s1 where g: "give t s = (r, s1)" by (cases "give t s")
  then obtain op where r: "r = Ok op" using Cons.prems by (cases r) auto
  obtain r' s2 where o: "opinions give ts s1 = (r', s2)" by (cases "opinions give ts s1")
  then obtain ops' where ops: "r' = Ok ops'" "ops = op # ops'" "s2 = s'"
    using Cons.prems g r by (cases r') auto
  show ?case
  proof (cases i)
    case 0
    then show ?thesis using interesting_iff [of t s op s1] g r ops by simp
  next
    case (Suc k)
    then show ?thesis
      using Cons.IH [of s1 ops' k] Cons.prems(2) counted [of t s op s1] g o r ops
      by (simp add: add.assoc)
  qed
qed simp

text \<open>From empty counts: an input is interesting when it reaches what no input before it reached.\<close>

lemma interesting_iff_new:
  assumes "opinions give ts s = (Ok ops, s')" and "i < length ops" and "length ops < 2 ^ 64"
    and "\<And>a. hits (counts s) a = 0"
  shows "is_interesting (ops ! i) \<longleftrightarrow>
    (\<exists>a \<in> set (opinion_coverage (ops ! i)). \<forall>j < i. a \<notin> set (opinion_coverage (ops ! j)))"
proof -
  have "(word_of_nat (reached_by a (take i ops)) :: u64) = 0 \<longleftrightarrow> (\<forall>j < i. a \<notin> set (opinion_coverage (ops ! j)))" for a
  proof -
    have "reached_by a (take i ops) \<le> length ops"
      unfolding reached_by_def by (rule order.trans [OF length_filter_le]) simp
    then have small: "reached_by a (take i ops) < 2 ^ 64" using assms(3) by simp
    have "(word_of_nat (reached_by a (take i ops)) :: u64) = 0 \<longleftrightarrow> reached_by a (take i ops) = 0"
      using small by (auto simp: word_of_nat_eq_0_iff dvd_def)
    moreover have "(\<forall>op \<in> set (take i ops). P op) \<longleftrightarrow> (\<forall>j < i. P (ops ! j))" for P
      using assms(2) by (auto simp: all_set_conv_all_nth)
    ultimately show ?thesis by (simp only: reached_by_zero)
  qed
  then show ?thesis using opinions_interesting [OF assms(1,2)] assms(4) by simp
qed

end

lemma feedback_opinion_cases:
  assumes "feedback_opinion_on hash_name fb input = (Ok op, fb')"
  obtains "op = NotInteresting []" "fb' = fb"
  | new_coverage where "keys_distinct new_coverage" "opinion_of new_coverage (fb_map fb) = (op, fb_map fb')"
proof (cases fb)
  case (DummyFeedback m)
  then show thesis using assms that(1) by simp
next
  case (KCovFeedback m)
  then obtain nc where nc: "kcov_parse input = Ok nc" and op: "opinion_of nc m = (op, fb_map fb')"
    using assms by (auto split: res.splits prod.splits)
  have "keys_distinct nc" using nc kcov_lines_distinct [of _ "[]"] by (simp add: kcov_parse_def)
  then show thesis using that(2) op KCovFeedback by simp
next
  case (LCovFeedback m)
  then have "opinion_of (lcov_map hash_name (lcov_parse input)) m = (op, fb_map fb')"
    using assms by (auto split: prod.splits)
  moreover have "keys_distinct (lcov_map hash_name (lcov_parse input))"
    unfolding lcov_map_def by (rule lcov_map_loop_distinct) simp
  ultimately show thesis using that(2) LCovFeedback by simp
qed

interpretation feedback: coverage_counter "\<lambda>input fb. feedback_opinion_on hash_name fb input" fb_map
  for hash_name
proof
  fix input and fb fb' :: coverage_feedback and op a
  assume run: "feedback_opinion_on hash_name fb input = (Ok op, fb')"
  show "is_interesting op \<longleftrightarrow> (\<exists>a \<in> set (opinion_coverage op). hits (fb_map fb) a = 0)"
    by (rule feedback_opinion_cases [OF run]) (use opinion_of_spec(1,2) in auto)
  show "hits (fb_map fb') a = hits (fb_map fb) a + of_bool (a \<in> set (opinion_coverage op))"
    by (rule feedback_opinion_cases [OF run]) (use opinion_of_spec(1,3) in auto)
next
  fix input and fb fb' :: coverage_feedback and r :: "(kcov_error, feedback_opinion) res"
  assume "feedback_opinion_on hash_name fb input = (r, fb')" and "\<not> is_ok r"
  then show "fb' = fb" by (cases fb) (auto split: prod.splits res.splits)
qed

subsection \<open>The parsers\<close>

text \<open>What \<open>kcov_parse\<close> counts: the lines with each address.\<close>

lemma kcov_lines_count:
  "kcov_lines ls m = Ok m' \<Longrightarrow>
   \<exists>addrs. list_all2 (\<lambda>l a. parse_addr l = Ok a) ls addrs
     \<and> (\<forall>a. hits m' a = hits m a + word_of_nat (count_list addrs a))
     \<and> fst ` set m' = fst ` set m \<union> set addrs"
proof (induction ls arbitrary: m)
  case (Cons l ls)
  then obtain a where a: "parse_addr l = Ok a"
    and rest: "kcov_lines ls (AList.update a (hits m a + 1) m) = Ok m'"
    by (cases "parse_addr l") auto
  obtain addrs where "list_all2 (\<lambda>l a. parse_addr l = Ok a) ls addrs"
      "\<forall>b. hits m' b = hits (AList.update a (hits m a + 1) m) b + word_of_nat (count_list addrs b)"
      "fst ` set m' = fst ` set (AList.update a (hits m a + 1) m) \<union> set addrs"
    using Cons.IH [OF rest] by blast
  then show ?case
    using a by (intro exI [of _ "a # addrs"]) (auto simp: dom_update simp flip: image_set)
qed auto

lemma kcov_lines_error:
  "(\<exists>l \<in> set ls. \<forall>a. parse_addr l \<noteq> Ok a) \<Longrightarrow> \<not> is_ok (kcov_lines ls m)"
proof (induction ls arbitrary: m)
  case (Cons l ls)
  then show ?case by (cases "parse_addr l") auto
qed simp

text \<open>The text of an LCov record, and what the parser makes of it.\<close>

definition lcov_record_lines :: "string \<Rightarrow> lcov_trace_one_file \<Rightarrow> string list" where
  "lcov_record_lines file_name ls =
     [''SF:'' @ file_name]
     @ map (\<lambda>(l, c). ''DA:'' @ show_nat (unat l) @ '','' @ show_nat (unat c)) ls
     @ [''end_of_record'']"

definition trimmed :: "string \<Rightarrow> bool" where
  "trimmed s \<longleftrightarrow> s \<noteq> [] \<and> \<not> is_white (hd s) \<and> \<not> is_white (last s)"

lemma lcov_line_SF: "trimmed file_name \<Longrightarrow> lcov_line_of (''SF:'' @ file_name) = Some (SourceFileName file_name)"
  by (simp add: lcov_line_of_def trimmed_def is_white_def Let_def)

lemma parse_word_show:
  "parse_u32_word (show_nat (unat l)) = Some l" "parse_u64_word (show_nat (unat c)) = Some c"
proof -
  have si: "show_nat n = show_int (int n)" for n by (simp add: show_int_def)
  have "unat l < 2 ^ 32" "unat c < 2 ^ 64"
    using unsigned_less [of l] unsigned_less [of c] by simp_all
  then have "int (unat l) < int (2 ^ 32)" "int (unat c) < int (2 ^ 64)" by (simp_all only: of_nat_less_iff)
  then have "int (unat l) \<le> 2 ^ 32 - 1" "int (unat c) \<le> 2 ^ 64 - 1" by simp_all
  then have "parse_u32 (show_nat (unat l)) = Ok (int (unat l))"
      "parse_int 0 (2 ^ 64 - 1) (show_nat (unat c)) = Ok (int (unat c))"
    unfolding si parse_u32_def using parse_int_show [of 0 "int (unat l)"] parse_int_show [of 0 "int (unat c)"]
    by (metis of_nat_0_le_iff order_refl)+
  then show "parse_u32_word (show_nat (unat l)) = Some l" "parse_u64_word (show_nat (unat c)) = Some c"
    by (simp_all add: parse_u32_word_def parse_u64_word_def)
qed

lemma lcov_line_DA:
  assumes "0 < c"
  shows "lcov_line_of (''DA:'' @ show_nat (unat l) @ '','' @ show_nat (unat c)) = Some (LineExecutionCount l c)"
proof -
  have no: "CHR '','' \<notin> set (show_nat n)" for n by (rule show_nat_no) (simp add: no_digit_def)
  have "\<not> is_white (last (show_nat (unat c)))"
    using show_int_ends [of "int (unat c)"] by (simp add: show_int_def)
  then have "trim (''DA:'' @ show_nat (unat l) @ '','' @ show_nat (unat c))
      = ''DA:'' @ show_nat (unat l) @ '','' @ show_nat (unat c)"
    by (intro trim_clean) (simp add: is_white_def)
  moreover have "str_split (CHR '','') (show_nat (unat l) @ '','' @ show_nat (unat c))
      = [show_nat (unat l), show_nat (unat c)]"
    using str_split_append_sep [of "CHR '',''" "show_nat (unat l)" "show_nat (unat c)"] no
    by (simp add: str_split_no_sep)
  ultimately show ?thesis
    using assms by (simp add: lcov_line_of_def parse_word_show)
qed

lemma lcov_lines_DA:
  "\<forall>(l, c) \<in> set ls. 0 < c \<Longrightarrow>
   lcov_lines (map (\<lambda>(l, c). ''DA:'' @ show_nat (unat l) @ '','' @ show_nat (unat c)) ls @ rest) cur tr lcov
   = lcov_lines rest cur (foldl (\<lambda>tr (l, c). AList.update l c tr) tr ls) lcov"
proof (induction ls arbitrary: tr)
  case (Cons lc ls)
  obtain l c where "lc = (l, c)" by (cases lc)
  then show ?case using Cons lcov_line_DA [of c l] by simp
qed simp

lemma lcov_record:
  assumes "trimmed file_name" and "\<forall>(l, c) \<in> set ls. 0 < c"
  shows "lcov_lines (lcov_record_lines file_name ls @ rest) None [] lcov
    = lcov_lines rest None [] (AList.update file_name (foldl (\<lambda>tr (l, c). AList.update l c tr) [] ls) lcov)"
proof -
  have "lcov_line_of ''end_of_record'' = Some EndOfRecord" by code_simp
  then show ?thesis
    using lcov_line_SF [OF assms(1)] lcov_lines_DA [OF assms(2)]
    by (simp add: lcov_record_lines_def)
qed

text \<open>The text of a whole trace parses back, when no file and no line of a file occurs twice.\<close>

lemma update_fresh: "k \<notin> fst ` set al \<Longrightarrow> AList.update k v al = al @ [(k, v)]"
  by (induction al) auto

lemma foldl_update_fresh:
  "distinct (map fst (acc @ ls)) \<Longrightarrow> foldl (\<lambda>tr (l, c). AList.update l c tr) acc ls = acc @ ls"
proof (induction ls arbitrary: acc)
  case (Cons lc ls)
  obtain l c where lc: "lc = (l, c)" by (cases lc)
  have "distinct (map fst ((acc @ [lc]) @ ls))" using Cons.prems by simp
  from Cons.IH [OF this] show ?case using Cons.prems lc by (simp add: update_fresh)
qed simp

definition lcov_record_ok :: "string \<times> lcov_trace_one_file \<Rightarrow> bool" where
  "lcov_record_ok r \<longleftrightarrow> trimmed (fst r) \<and> keys_distinct (snd r) \<and> (\<forall>(l, c) \<in> set (snd r). 0 < c)"

lemma lcov_records:
  "\<forall>r \<in> set rs. lcov_record_ok r \<Longrightarrow> distinct (map fst (done' @ rs)) \<Longrightarrow>
   lcov_lines (concat (map (\<lambda>(f, ls). lcov_record_lines f ls) rs)) None [] done' = done' @ rs"
proof (induction rs arbitrary: done')
  case (Cons r rs)
  obtain f ls where r: "r = (f, ls)" by (cases r)
  have ok: "trimmed f" "\<forall>(l, c) \<in> set ls. 0 < c" "keys_distinct ls"
    using Cons.prems(1) r by (auto simp: lcov_record_ok_def)
  have "foldl (\<lambda>tr (l, c). AList.update l c tr) [] ls = ls"
    using foldl_update_fresh [of "[]" ls] ok(3) by simp
  moreover have "AList.update f ls done' = done' @ [r]"
    using Cons.prems(2) r by (intro trans [OF update_fresh]) auto
  moreover have "lcov_lines (concat (map (\<lambda>(f, ls). lcov_record_lines f ls) rs)) None [] (done' @ [r]) = done' @ r # rs"
    using Cons.IH [of "done' @ [r]"] Cons.prems by simp
  ultimately show ?case using lcov_record [OF ok(1,2)] r by simp
qed simp

subsection \<open>Locations of a line\<close>

text \<open>
  A location keeps the short hash of the file in its upper half and the line number in its lower half:
  the addition cannot carry.
\<close>

lemma unat_location_hash:
  "unat (location_hash h l)
   = unat (xor (ucast (drop_bit 32 h)) (ucast h) :: u32) * 2 ^ 32 + unat l"
proof -
  let ?s = "xor (ucast (drop_bit 32 h)) (ucast h) :: u32"
  have s: "unat ?s < 2 ^ 32" and l: "unat l < 2 ^ 32" using unsigned_less [of ?s] unsigned_less [of l] by simp_all
  have up: "unat (ucast ?s :: u64) = unat ?s" "unat (ucast l :: u64) = unat l"
    using s l by (simp_all add: unsigned_ucast_eq take_bit_nat_eq_self)
  have "unat ?s * 2 ^ 32 < 2 ^ 64" using s by simp
  then have short: "unat (short_file_hash h) = unat ?s * 2 ^ 32"
    unfolding short_file_hash_def Let_def unsigned_push_bit_eq up
    by (simp add: push_bit_eq_mult take_bit_nat_eq_self)
  have "unat ?s * 2 ^ 32 + unat l < 2 ^ 64" using s l by simp
  then show ?thesis using short up by (simp add: location_hash_def unat_word_ariths)
qed

lemma location_hash_inj:
  "location_hash h l = location_hash h l' \<longleftrightarrow> l = l'"
proof
  assume "location_hash h l = location_hash h l'"
  then have "unat l = unat l'" by (metis unat_location_hash add_left_cancel)
  then show "l = l'" by (simp add: word_unat_eq_iff)
qed simp

end
