(* ===== verification/World.thy ===== *)
theory World
  imports Feedback Dash Mutator
begin

text \<open>
  The outside of the program: processes, files, the clock, the log and the channels between threads.

  \<^item> Each use of the outside is a \<open>call\<close>. The world keeps the calls made so far, and an
    \<open>environment\<close> answers each call from that history, so that it may answer the same call
    differently at different times. Nothing is assumed about the answers.
  \<^item> The functions of \<open>serde_json\<close>, \<open>regex\<close>, \<open>twox-hash\<close>, \<open>rand\<close> and \<open>base64\<close> that the code uses, and the
    \<open>Debug\<close> format of a process, which the standard library leaves open, are fields of the
    environment as well.
  \<^item> A method with effects is a \<open>prog\<close>: from a state it returns an outcome and the state it leaves,
    whatever the outcome; \<open>None\<close> is a method that does not return. A component's state extends the
    record \<open>world\<close>, as its struct owns the handles of the outside.
  \<^item> \<open>anyhow\<close> is an error with the contexts added on its way up, outermost first.

  The locale \<open>state_preorder\<close> propagates a relation between the states before and after through the
  combinators; \<open>appends\<close> is its main instance.
\<close>

subsection \<open>Programs\<close>

type_synonym ('s, 'e, 'a) prog = "'s \<Rightarrow> (('e, 'a) res \<times> 's) option"

type_synonym anyhow = "string list"
type_synonym u16 = "16 word"

definition return :: "'a \<Rightarrow> ('s, 'e, 'a) prog" where
  "return a = (\<lambda>s. Some (Ok a, s))"

definition throw :: "'e \<Rightarrow> ('s, 'e, 'a) prog" where
  "throw e = (\<lambda>s. Some (Err e, s))"

definition panic :: "('s, 'e, 'a) prog" where
  "panic = (\<lambda>s. Some (Crash Panicked, s))"

definition lift_res :: "('e, 'a) res \<Rightarrow> ('s, 'e, 'a) prog" where
  "lift_res r = (\<lambda>s. Some (r, s))"

definition then_do :: "('s, 'e, 'a) prog \<Rightarrow> ('a \<Rightarrow> ('s, 'e, 'b) prog) \<Rightarrow> ('s, 'e, 'b) prog" where
  "then_do m f = (\<lambda>s. case m s of
     None \<Rightarrow> None
   | Some (Ok a, s') \<Rightarrow> f a s'
   | Some (Err e, s') \<Rightarrow> Some (Err e, s')
   | Some (Crash c, s') \<Rightarrow> Some (Crash c, s'))"

definition map_error :: "('e \<Rightarrow> 'f) \<Rightarrow> ('s, 'e, 'a) prog \<Rightarrow> ('s, 'f, 'a) prog" where
  "map_error f m = (\<lambda>s. map_option (\<lambda>(r, s'). (map_err f r, s')) (m s))"

definition with_context :: "string \<Rightarrow> ('s, anyhow, 'a) prog \<Rightarrow> ('s, anyhow, 'a) prog" where
  "with_context c = map_error (\<lambda>e. c # e)"

text \<open>\<open>unwrap_or(())\<close> and \<open>unwrap()\<close>.\<close>

definition ignore_error :: "('s, 'e, unit) prog \<Rightarrow> ('s, 'f, unit) prog" where
  "ignore_error m = (\<lambda>s. map_option (\<lambda>(r, s').
     (case r of Crash c \<Rightarrow> Crash c | _ \<Rightarrow> Ok (), s')) (m s))"

definition unwrap_prog :: "('s, 'e, 'a) prog \<Rightarrow> ('s, 'f, 'a) prog" where
  "unwrap_prog m = (\<lambda>s. map_option (\<lambda>(r, s').
     (case r of Ok a \<Rightarrow> Ok a | Err _ \<Rightarrow> Crash Panicked | Crash c \<Rightarrow> Crash c, s')) (m s))"

text \<open>The result of a call as a value, for a \<open>match\<close> on it.\<close>

definition attempt :: "('s, 'e, 'a) prog \<Rightarrow> ('s, 'f, 'e + 'a) prog" where
  "attempt m = (\<lambda>s. map_option (\<lambda>(r, s').
     (case r of Ok a \<Rightarrow> Ok (Inr a) | Err e \<Rightarrow> Ok (Inl e) | Crash c \<Rightarrow> Crash c, s')) (m s))"

definition gets :: "('s \<Rightarrow> 'a) \<Rightarrow> ('s, 'e, 'a) prog" where
  "gets f = (\<lambda>s. Some (Ok (f s), s))"

definition modify :: "('s \<Rightarrow> 's) \<Rightarrow> ('s, 'e, unit) prog" where
  "modify f = (\<lambda>s. Some (Ok (), f s))"

definition do_when :: "bool \<Rightarrow> ('s, 'e, unit) prog \<Rightarrow> ('s, 'e, unit) prog" where
  "do_when b m = (if b then m else return ())"

primrec for_each :: "'a list \<Rightarrow> ('a \<Rightarrow> ('s, 'e, unit) prog) \<Rightarrow> ('s, 'e, unit) prog" where
  "for_each [] f = return ()"
| "for_each (x # xs) f = then_do (f x) (\<lambda>_. for_each xs f)"

lemma then_do_run [simp]:
  "m s = None \<Longrightarrow> then_do m f s = None"
  "m s = Some (Ok a, s') \<Longrightarrow> then_do m f s = f a s'"
  "m s = Some (Err e, s') \<Longrightarrow> then_do m f s = Some (Err e, s')"
  "m s = Some (Crash c, s') \<Longrightarrow> then_do m f s = Some (Crash c, s')"
  by (simp_all add: then_do_def)

lemma prog_run [simp]:
  "return a s = Some (Ok a, s)" "throw e s = Some (Err e, s)" "panic s = Some (Crash Panicked, s)"
  "lift_res r s = Some (r, s)" "gets f s = Some (Ok (f s), s)" "modify g s = Some (Ok (), g s)"
  by (simp_all add: return_def throw_def panic_def lift_res_def gets_def modify_def)

lemma map_error_run [simp]:
  "m s = None \<Longrightarrow> map_error f m s = None"
  "m s = Some (r, s') \<Longrightarrow> map_error f m s = Some (map_err f r, s')"
  by (simp_all add: map_error_def)

lemma with_context_run [simp]:
  "m s = None \<Longrightarrow> with_context c m s = None"
  "m s = Some (r, s') \<Longrightarrow> with_context c m s = Some (map_err (\<lambda>e. c # e) r, s')"
  by (simp_all add: with_context_def)

lemma ignore_error_run [simp]:
  "m s = Some (Ok u, s') \<Longrightarrow> ignore_error m s = Some (Ok (), s')"
  "m s = Some (Err e, s') \<Longrightarrow> ignore_error m s = Some (Ok (), s')"
  by (simp_all add: ignore_error_def)

lemma unwrap_prog_run [simp]:
  "m s = Some (Ok a, s') \<Longrightarrow> unwrap_prog m s = Some (Ok a, s')"
  "m s = Some (Err e, s') \<Longrightarrow> unwrap_prog m s = Some (Crash Panicked, s')"
  by (simp_all add: unwrap_prog_def)

lemma attempt_run [simp]:
  "m s = None \<Longrightarrow> attempt m s = None"
  "m s = Some (Ok a, s') \<Longrightarrow> attempt m s = Some (Ok (Inr a), s')"
  "m s = Some (Err e, s') \<Longrightarrow> attempt m s = Some (Ok (Inl e), s')"
  "m s = Some (Crash c, s') \<Longrightarrow> attempt m s = Some (Crash c, s')"
  by (simp_all add: attempt_def)

lemma then_do_return [simp]: "then_do (return a) f = f a"
  by (rule ext) simp

lemma then_do_assoc: "then_do (then_do m f) g = then_do m (\<lambda>a. then_do (f a) g)"
  by (rule ext) (auto simp: then_do_def split: option.splits res.splits)

lemma do_when_simps [simp]: "do_when True m = m" "do_when False m = return ()"
  by (simp_all add: do_when_def)

text \<open>The successful runs of a sequence, and all its runs.\<close>

lemma then_do_Ok:
  "then_do m f s = Some (Ok b, s'') \<longleftrightarrow> (\<exists>a s'. m s = Some (Ok a, s') \<and> f a s' = Some (Ok b, s''))"
  by (auto simp: then_do_def split: option.splits res.splits)

lemma then_do_cases:
  assumes "then_do m f s = Some (r, s'')"
  obtains a s' where "m s = Some (Ok a, s')" "f a s' = Some (r, s'')"
    | e where "m s = Some (Err e, s'')" "r = Err e"
    | c where "m s = Some (Crash c, s'')" "r = Crash c"
  using assms by (auto simp: then_do_def split: option.splits res.splits)

lemma then_do_OkE:
  assumes "then_do m f s = Some (Ok b, s'')"
  obtains a s' where "m s = Some (Ok a, s')" and "f a s' = Some (Ok b, s'')"
  using assms unfolding then_do_Ok by blast

lemma map_error_Ok: "map_error f m s = Some (Ok a, s') \<longleftrightarrow> m s = Some (Ok a, s')"
  by (auto simp: map_error_def)

lemma with_context_Ok: "with_context c m s = Some (Ok a, s') \<longleftrightarrow> m s = Some (Ok a, s')"
  by (simp add: with_context_def map_error_Ok)

lemma for_each_append: "for_each (xs @ ys) f = then_do (for_each xs f) (\<lambda>_. for_each ys f)"
  by (induction xs) (simp_all add: then_do_assoc)

lemmas Ok_runs = then_do_Ok map_error_Ok with_context_Ok

text \<open>Loops that may not end are least fixed points; the combinators are monotone.\<close>

lemma mono_then_do [partial_function_mono]:
  assumes "mono_option (\<lambda>f. m f s)" and "\<And>a s'. mono_option (\<lambda>f. k f a s')"
  shows "mono_option (\<lambda>f. then_do (m f) (k f) s)"
proof (rule monotoneI)
  fix f g :: "'a \<Rightarrow> 'b option"
  assume fg: "option.le_fun f g"
  have m: "flat_ord None (m f s) (m g s)" and k: "\<And>a s'. flat_ord None (k f a s') (k g a s')"
    using assms fg by (auto dest: monotoneD)
  show "flat_ord None (then_do (m f) (k f) s) (then_do (m g) (k g) s)"
  proof (cases "m f s")
    case None
    then show ?thesis by (simp add: flat_ord_def)
  next
    case (Some p)
    then have eq: "m g s = m f s" using m by (auto simp: flat_ord_def)
    show ?thesis
    proof (cases p)
      case (Pair r s')
      then show ?thesis using Some eq k by (cases r) (simp_all add: flat_ord_def)
    qed
  qed
qed

subsection \<open>The outside\<close>

record command =
  cmd_program :: string
  cmd_args :: "string list"
  cmd_dir :: "string option"

record proc_output =
  out_stdout :: string
  out_stderr :: string

record black_box_stats =
  bb_crashes :: u64
  bb_executions :: u64

record grey_box_stats =
  gb_corpus_size :: u64
  gb_fst_coverage_size :: u64
  gb_fst_coverage_type :: coverage_type
  gb_snd_coverage_size :: u64
  gb_snd_coverage_type :: coverage_type
  gb_crashes :: u64
  gb_executions :: u64

datatype broker_message =
    MsgError u8 anyhow
  | MsgBlackBoxStats u8 black_box_stats
  | MsgGreyBoxStats u8 grey_box_stats
  | MsgInfo u8 string
  | MsgWarn u8 string

datatype log_level = LogInfo | LogWarn | LogError

datatype call =
    Run command
  | Spawn command
  | CreateDirAll string
  | RemoveDirAll string
  | RemoveDir string
  | RemoveFile string
  | WriteFile string string
  | ReadFile string
  | CopyFile string string
  | ReadDir string
  | MonitorConnect string
  | MonitorWrite string
  | PollEvent
  | Clock
  | BindPort
  | Log log_level string
  | Send broker_message
  | SpawnInstance u8
  | StartInstance u8 "u64 option"
  | Receive
  | ReceiveRun
  | InitLogger string
  | Print string
  | OpenAppend string
  | StartMachineThread string
  | SpawnMachine string "(string \<times> string) list" string
  | SendPid u32
  | WaitMachine u32
  | ReceivePid
  | Sleep nat
  | QmpConnect string
  | QmpClone string
  | QmpRead
  | QmpWrite string
  | StartEventThread
  | SendEvent

datatype event_poll = EventReceived | NoEvent | Disconnected

text \<open>Of a \<open>serde_json::Value\<close> only the keys of an object are looked at.\<close>

datatype json = JsonObject "string list" | JsonOther

text \<open>
  \<open>run_command\<close> answers with the exit code (none after a signal) and the output, or with the reason why
  the process could not be run. \<open>perform\<close> answers the calls that yield no value.
\<close>

record environment =
  run_command :: "call list \<Rightarrow> command \<Rightarrow> string + int option \<times> proc_output"
  perform :: "call list \<Rightarrow> call \<Rightarrow> string + unit"
  read_text :: "call list \<Rightarrow> string \<Rightarrow> string + string"
  list_dir :: "call list \<Rightarrow> string \<Rightarrow> string + (string + string) list"
  poll_event :: "call list \<Rightarrow> event_poll"
  bind_port :: "call list \<Rightarrow> string + (string + u16)"
  receive_message :: "call list \<Rightarrow> string + broker_message"
  receive_run :: "call list \<Rightarrow> string + u64 option"
  spawn_machine :: "call list \<Rightarrow> string + u32"
  wait_machine :: "call list \<Rightarrow> string + string"
  receive_pid :: "call list \<Rightarrow> string + u32"
  read_json :: "call list \<Rightarrow> string + json"
  decode_error :: "json \<Rightarrow> string"
  clock_nanos :: "call list \<Rightarrow> nat"
  debug_command :: "command \<Rightarrow> string"
  show_error :: "anyhow \<Rightarrow> string"
  show_rate :: "nat \<Rightarrow> nat \<Rightarrow> string"
  parse_workload :: "string \<Rightarrow> string + workload"
  show_workload :: "workload \<Rightarrow> string + string"
  workload_name :: "workload \<Rightarrow> string"
  parse_file_infos :: "string \<Rightarrow> string + file_info list"
  show_file_info :: "file_info \<Rightarrow> string"
  regex_match :: "string list \<Rightarrow> string \<Rightarrow> bool"
  file_hash :: "u8 list \<Rightarrow> u64"
  name_hash :: "string \<Rightarrow> u64"

record world =
  env :: environment
  calls :: "call list"

fun of_reply :: "string + 'a \<Rightarrow> (anyhow, 'a) res" where
  "of_reply (Inl e) = Err [e]"
| "of_reply (Inr a) = Ok a"

definition record_call :: "call \<Rightarrow> 'z world_scheme \<Rightarrow> 'z world_scheme" where
  "record_call c s = s\<lparr>calls := calls s @ [c]\<rparr>"

definition call_unit :: "call \<Rightarrow> ('z world_scheme, anyhow, unit) prog" where
  "call_unit c = (\<lambda>s. Some (of_reply (perform (env s) (calls s) c), record_call c s))"

definition call_run :: "command \<Rightarrow> ('z world_scheme, anyhow, int option \<times> proc_output) prog" where
  "call_run cmd = (\<lambda>s. Some (of_reply (run_command (env s) (calls s) cmd), record_call (Run cmd) s))"

definition call_read :: "string \<Rightarrow> ('z world_scheme, anyhow, string) prog" where
  "call_read path = (\<lambda>s. Some (of_reply (read_text (env s) (calls s) path), record_call (ReadFile path) s))"

definition call_list :: "string \<Rightarrow> ('z world_scheme, anyhow, (string + string) list) prog" where
  "call_list path = (\<lambda>s. Some (of_reply (list_dir (env s) (calls s) path), record_call (ReadDir path) s))"

definition call_poll :: "('z world_scheme, 'e, event_poll) prog" where
  "call_poll = (\<lambda>s. Some (Ok (poll_event (env s) (calls s)), record_call PollEvent s))"

definition call_clock :: "('z world_scheme, 'e, nat) prog" where
  "call_clock = (\<lambda>s. Some (Ok (clock_nanos (env s) (calls s)), record_call Clock s))"

definition call_bind :: "('z world_scheme, anyhow, string + u16) prog" where
  "call_bind = (\<lambda>s. Some (of_reply (bind_port (env s) (calls s)), record_call BindPort s))"

definition call_receive :: "('z world_scheme, anyhow, broker_message) prog" where
  "call_receive = (\<lambda>s. Some (of_reply (receive_message (env s) (calls s)), record_call Receive s))"

definition call_receive_run :: "('z world_scheme, anyhow, u64 option) prog" where
  "call_receive_run = (\<lambda>s. Some (of_reply (receive_run (env s) (calls s)), record_call ReceiveRun s))"

definition call_spawn_machine ::
    "string \<Rightarrow> (string \<times> string) list \<Rightarrow> string \<Rightarrow> ('z world_scheme, anyhow, u32) prog" where
  "call_spawn_machine script vars log_file = (\<lambda>s.
     Some (of_reply (spawn_machine (env s) (calls s)), record_call (SpawnMachine script vars log_file) s))"

definition call_wait_machine :: "u32 \<Rightarrow> ('z world_scheme, anyhow, string) prog" where
  "call_wait_machine pid = (\<lambda>s. Some (of_reply (wait_machine (env s) (calls s)), record_call (WaitMachine pid) s))"

definition call_receive_pid :: "('z world_scheme, anyhow, u32) prog" where
  "call_receive_pid = (\<lambda>s. Some (of_reply (receive_pid (env s) (calls s)), record_call ReceivePid s))"

definition call_read_json :: "('z world_scheme, anyhow, json) prog" where
  "call_read_json = (\<lambda>s. Some (of_reply (read_json (env s) (calls s)), record_call QmpRead s))"

text \<open>The log cannot fail.\<close>

definition log_message :: "log_level \<Rightarrow> string \<Rightarrow> ('z world_scheme, 'e, unit) prog" where
  "log_message l msg = modify (record_call (Log l msg))"

definition asks :: "(environment \<Rightarrow> 'a) \<Rightarrow> ('z world_scheme, 'e, 'a) prog" where
  "asks f = gets (\<lambda>s. f (env s))"

text \<open>\<open>Instant::elapsed().as_secs()\<close>\<close>

definition elapsed_secs :: "nat \<Rightarrow> ('z world_scheme, 'e, nat) prog" where
  "elapsed_secs start = then_do call_clock (\<lambda>now. return ((now - start) div 10 ^ 9))"

subsection \<open>Relations between the states before and after\<close>

definition steps :: "('s \<Rightarrow> 's \<Rightarrow> bool) \<Rightarrow> ('s, 'e, 'a) prog \<Rightarrow> bool" where
  "steps R m \<longleftrightarrow> (\<forall>s r s'. m s = Some (r, s') \<longrightarrow> R s s')"

lemma stepsD: "steps R m \<Longrightarrow> m s = Some (r, s') \<Longrightarrow> R s s'"
  by (auto simp: steps_def)

locale state_preorder =
  fixes R :: "'s \<Rightarrow> 's \<Rightarrow> bool"
  assumes refl: "R s s" and trans: "R s s' \<Longrightarrow> R s' s'' \<Longrightarrow> R s s''"
begin

lemma still: "steps R (return a)" "steps R (throw e)" "steps R panic" "steps R (lift_res r)" "steps R (gets f)"
  by (auto simp: steps_def refl)

lemma then_do: "steps R m \<Longrightarrow> (\<And>a. steps R (f a)) \<Longrightarrow> steps R (then_do m f)"
  unfolding steps_def by (meson then_do_cases trans)

lemma then_do_lift: "(\<And>a. r = Ok a \<Longrightarrow> steps R (f a)) \<Longrightarrow> steps R (then_do (lift_res r) f)"
  by (cases r) (auto simp: steps_def refl then_do_def)

lemma map_error: "steps R m \<Longrightarrow> steps R (map_error f m)"
  by (auto simp: steps_def map_error_def)

lemma with_context: "steps R m \<Longrightarrow> steps R (with_context c m)"
  by (simp add: with_context_def map_error)

lemma ignore_error: "steps R m \<Longrightarrow> steps R (ignore_error m)"
  by (auto simp: steps_def ignore_error_def)

lemma unwrap_prog: "steps R m \<Longrightarrow> steps R (unwrap_prog m)"
  by (auto simp: steps_def unwrap_prog_def)

lemma attempt: "steps R m \<Longrightarrow> steps R (attempt m)"
  by (auto simp: steps_def attempt_def)

lemma do_when: "(b \<Longrightarrow> steps R m) \<Longrightarrow> steps R (do_when b m)"
  by (simp add: do_when_def still)

lemma for_each: "(\<And>x. x \<in> set xs \<Longrightarrow> steps R (f x)) \<Longrightarrow> steps R (for_each xs f)"
  by (induction xs) (simp_all add: still then_do)

lemma branch: "(b \<Longrightarrow> steps R m) \<Longrightarrow> (\<not> b \<Longrightarrow> steps R m') \<Longrightarrow> steps R (if b then m else m')"
  by simp

lemma option: "(x = None \<Longrightarrow> steps R m) \<Longrightarrow> (\<And>a. x = Some a \<Longrightarrow> steps R (f a)) \<Longrightarrow>
    steps R (case x of None \<Rightarrow> m | Some a \<Rightarrow> f a)"
  by (cases x) simp_all

lemmas rules = then_do_lift still then_do map_error with_context ignore_error unwrap_prog attempt do_when for_each branch option

end

text \<open>Only calls of a kind are made, and nothing else of the state changes.\<close>

definition appends :: "(call \<Rightarrow> bool) \<Rightarrow> 'z world_scheme \<Rightarrow> 'z world_scheme \<Rightarrow> bool" where
  "appends A s s' \<longleftrightarrow> (\<exists>cs. s' = s\<lparr>calls := calls s @ cs\<rparr> \<and> (\<forall>c \<in> set cs. A c))"

interpretation appends: state_preorder "appends A" for A
proof
  show "appends A s s" for s :: "'a world_scheme" by (simp add: appends_def exI [of _ "[]"])
next
  fix s s' s'' :: "'a world_scheme"
  assume "appends A s s'" "appends A s' s''"
  then obtain cs ds where "s' = s\<lparr>calls := calls s @ cs\<rparr>" "s'' = s'\<lparr>calls := calls s' @ ds\<rparr>"
      "\<forall>c \<in> set cs. A c" "\<forall>c \<in> set ds. A c"
    by (auto simp: appends_def)
  then show "appends A s s''" by (auto simp: appends_def intro!: exI [of _ "cs @ ds"])
qed

named_theorems emits "which calls the programs make"

declare appends.rules [emits]

lemma appends_record_call: "A c \<Longrightarrow> appends A s (record_call c s)"
  by (auto simp: appends_def record_call_def intro!: exI [of _ "[c]"])

lemma emits_calls [emits]:
  "A c \<Longrightarrow> steps (appends A) (call_unit c)"
  "A (Run cmd) \<Longrightarrow> steps (appends A) (call_run cmd)"
  "A (ReadFile path) \<Longrightarrow> steps (appends A) (call_read path)"
  "A (ReadDir path) \<Longrightarrow> steps (appends A) (call_list path)"
  "A PollEvent \<Longrightarrow> steps (appends A) call_poll"
  "A Clock \<Longrightarrow> steps (appends A) call_clock"
  "A BindPort \<Longrightarrow> steps (appends A) call_bind"
  "A Receive \<Longrightarrow> steps (appends A) call_receive"
  "A ReceiveRun \<Longrightarrow> steps (appends A) call_receive_run"
  "A (SpawnMachine script vars log_file) \<Longrightarrow> steps (appends A) (call_spawn_machine script vars log_file)"
  "A (WaitMachine pid) \<Longrightarrow> steps (appends A) (call_wait_machine pid)"
  "A ReceivePid \<Longrightarrow> steps (appends A) call_receive_pid"
  "A QmpRead \<Longrightarrow> steps (appends A) call_read_json"
  "A (Log l msg) \<Longrightarrow> steps (appends A) (log_message l msg)"
  "steps (appends A) (asks f)"
  by (auto simp: steps_def call_unit_def call_run_def call_read_def call_list_def call_poll_def call_clock_def
      call_bind_def call_receive_def call_receive_run_def call_spawn_machine_def call_wait_machine_def
      call_receive_pid_def call_read_json_def log_message_def asks_def appends_record_call appends.refl)

lemma emits_elapsed_secs [emits]: "A Clock \<Longrightarrow> steps (appends A) (elapsed_secs start)"
  unfolding elapsed_secs_def by (intro emits)

lemma appends_mono: "appends A s s' \<Longrightarrow> (\<And>c. A c \<Longrightarrow> B c) \<Longrightarrow> appends B s s'"
  by (auto simp: appends_def)

lemma appends_env [simp]: "appends A s s' \<Longrightarrow> env s' = env s"
  by (auto simp: appends_def)

end
