(* ===== verification/Config.thy ===== *)
theory Config
  imports World
begin

text \<open>
  \<open>config.rs\<close>: the configuration file. The weights of \<open>operation_weights\<close> and \<open>mutation_weights\<close> are the
  lists that the generator and the mutations take.
\<close>

datatype scheduler_kind = QueueKind | FastKind

record greybox_config =
  max_mutations :: u16
  save_corpus :: bool
  scheduler_of :: scheduler_kind
  m_constant :: u64

record qemu_config =
  launch_script :: string
  ssh_private_key_path :: string
  os_image :: string
  boot_wait_time :: u8
  log_path :: string
  direct_boot :: bool
  kernel_image_path :: string
  root_disk_partition :: string

record dash_config =
  dash_enabled :: bool
  debug_binary_path :: string
  release_binary_path :: string
  dash_size :: bool
  dash_file_hardlink :: bool
  dash_dir_hardlink :: bool
  dash_mode :: bool

record config =
  cf_greybox :: greybox_config
  cf_operation_weights :: operation_weights
  cf_mutation_weights :: mutation_weights
  cf_max_workload_length :: u16
  cf_fs_name :: string
  cf_heartbeat_interval :: u16
  cf_timeout :: u8
  cf_qemu :: qemu_config
  cf_dash :: dash_config

end
