(* ===== verification/Command.thy ===== *)
theory Command
  imports Config
begin

text \<open>
  \<open>path.rs\<close> and \<open>command.rs\<close>: paths on the host and on the guest, and the two ways to run commands there.

  \<^item> A \<open>Path\<close> is its string; \<open>join\<close> is \<open>Path::join\<close>.
  \<^item> A \<open>dyn CommandInterface\<close> is the record of its methods; \<open>local_command_interface\<close> and
    \<open>remote_command_interface\<close> are the two implementations.
  \<^item> \<open>exec_local\<close> runs a process and reads its status; with a timeout the process is \<open>timeout\<close>.

  The locale \<open>command_contract\<close> states what the callers rely on: no method runs a process under
  \<open>timeout\<close> except an execution with a timeout, which does so exactly once, and only such an
  execution can time out.
\<close>

subsection \<open>Paths\<close>

type_synonym local_path = string
type_synonym remote_path = string

definition TMP_DIR_PREFIX :: string where
  "TMP_DIR_PREFIX = ''diffuzzer''"

definition join :: "string \<Rightarrow> string \<Rightarrow> string" where
  "join base path =
     (if path \<noteq> [] \<and> hd path = CHR ''/'' then path
      else if base \<noteq> [] \<and> last base \<noteq> CHR ''/'' then base @ ''/'' @ path
      else base @ path)"

definition in_quotes :: "string \<Rightarrow> string" where
  "in_quotes s = [CHR 0x27] @ s @ [CHR 0x27]"

definition remote_new_tmp :: "string \<Rightarrow> remote_path" where
  "remote_new_tmp nm = join ''/tmp'' (TMP_DIR_PREFIX @ ''-'' @ nm)"

definition local_create_new_tmp :: "string \<Rightarrow> ('z world_scheme, anyhow, local_path) prog" where
  "local_create_new_tmp nm =
     (let dir = join ''/tmp'' (TMP_DIR_PREFIX @ ''-'' @ nm)
      in then_do (ignore_error (call_unit (RemoveDir dir))) (\<lambda>_.
         then_do (with_context (''failed to create local temporary directory at '' @ in_quotes dir)
           (call_unit (CreateDirAll dir))) (\<lambda>_.
         return dir)))"

subsection \<open>UTF-8\<close>

definition byte_in :: "nat \<Rightarrow> nat \<Rightarrow> char \<Rightarrow> bool" where
  "byte_in lo hi c \<longleftrightarrow> lo \<le> (of_char c :: nat) \<and> (of_char c :: nat) \<le> hi"

text \<open>\<open>String::from_utf8\<close> accepts exactly the well-formed sequences.\<close>

fun utf8_valid :: "string \<Rightarrow> bool" where
  "utf8_valid [] = True"
| "utf8_valid (c # cs) =
     (if byte_in 0 127 c then utf8_valid cs
      else case cs of
        [] \<Rightarrow> False
      | c1 # cs1 \<Rightarrow>
          if byte_in 194 223 c then byte_in 128 191 c1 \<and> utf8_valid cs1
          else case cs1 of
            [] \<Rightarrow> False
          | c2 # cs2 \<Rightarrow>
              if byte_in 224 224 c then byte_in 160 191 c1 \<and> byte_in 128 191 c2 \<and> utf8_valid cs2
              else if byte_in 237 237 c then byte_in 128 159 c1 \<and> byte_in 128 191 c2 \<and> utf8_valid cs2
              else if byte_in 225 239 c then byte_in 128 191 c1 \<and> byte_in 128 191 c2 \<and> utf8_valid cs2
              else case cs2 of
                [] \<Rightarrow> False
              | c3 # cs3 \<Rightarrow>
                  (byte_in 240 240 c \<and> byte_in 144 191 c1 \<or> byte_in 241 243 c \<and> byte_in 128 191 c1
                    \<or> byte_in 244 244 c \<and> byte_in 128 143 c1)
                  \<and> byte_in 128 191 c2 \<and> byte_in 128 191 c3 \<and> utf8_valid cs3)"

definition from_utf8 :: "string \<Rightarrow> (anyhow, string) res" where
  "from_utf8 bytes = (if utf8_valid bytes then Ok bytes else Err [''invalid utf-8 sequence''])"

subsection \<open>Running a process\<close>

datatype exec_error = ExecIoError string | ExecTimedOut string

fun show_exec_error :: "exec_error \<Rightarrow> string" where
  "show_exec_error (ExecIoError msg) = ''execution error: '' @ msg"
| "show_exec_error (ExecTimedOut msg) = ''timed out: '' @ msg"

definition exec_context :: "string \<Rightarrow> ('s, exec_error, 'a) prog \<Rightarrow> ('s, anyhow, 'a) prog" where
  "exec_context c = map_error (\<lambda>e. [c, show_exec_error e])"

definition command_new :: "string \<Rightarrow> command" where
  "command_new prg = \<lparr>cmd_program = prg, cmd_args = [], cmd_dir = None\<rparr>"

definition args :: "string list \<Rightarrow> command \<Rightarrow> command" where
  "args xs cmd = cmd\<lparr>cmd_args := cmd_args cmd @ xs\<rparr>"

definition under_timeout :: "u8 option \<Rightarrow> command \<Rightarrow> command" where
  "under_timeout timeout cmd =
     (case timeout of
        None \<Rightarrow> cmd
      | Some secs \<Rightarrow>
          \<lparr>cmd_program = ''timeout'', cmd_args = show_nat (unat secs) # cmd_program cmd # cmd_args cmd,
           cmd_dir = cmd_dir cmd\<rparr>)"

text \<open>The \<open>match\<close> on the status.\<close>

definition exec_status ::
    "string \<Rightarrow> u8 option \<Rightarrow> int option \<Rightarrow> proc_output \<Rightarrow> (exec_error, proc_output) res" where
  "exec_status shown timeout code out =
     (case code of
        None \<Rightarrow> Err (ExecIoError (''local command '' @ shown @ '' execution terminated by signal''))
      | Some c \<Rightarrow>
          if c = 0 then Ok out
          else if c = 124 \<and> timeout \<noteq> None then
            Err (ExecTimedOut (''local command '' @ shown @ '' timed out''))
          else Err (ExecIoError (''local command '' @ shown @ '' execution ended with error:'' @ [newline]
            @ (if utf8_valid (out_stderr out) then out_stderr out else ''<invalid UTF-8 string>''))))"

definition exec_local :: "command \<Rightarrow> u8 option \<Rightarrow> ('z world_scheme, exec_error, proc_output) prog" where
  "exec_local cmd timeout =
     then_do (asks debug_command) (\<lambda>show_command.
     then_do (map_error (\<lambda>e. ExecIoError
         (''failed to run local command: '' @ show_command cmd @ [newline] @ concat e))
       (call_run (under_timeout timeout cmd))) (\<lambda>(code, out).
     lift_res (exec_status (show_command cmd) timeout code out)))"

subsection \<open>The trait\<close>

record 's command_interface =
  ci_create_dir_all :: "remote_path \<Rightarrow> ('s, anyhow, unit) prog"
  ci_remove_dir_all :: "remote_path \<Rightarrow> ('s, anyhow, unit) prog"
  ci_copy_to_remote :: "local_path \<Rightarrow> remote_path \<Rightarrow> ('s, anyhow, unit) prog"
  ci_copy_from_remote :: "remote_path \<Rightarrow> local_path \<Rightarrow> ('s, anyhow, unit) prog"
  ci_copy_dir_from_remote :: "remote_path \<Rightarrow> local_path \<Rightarrow> ('s, anyhow, unit) prog"
  ci_write :: "remote_path \<Rightarrow> string \<Rightarrow> ('s, anyhow, unit) prog"
  ci_read_to_string :: "remote_path \<Rightarrow> ('s, anyhow, string) prog"
  ci_exec :: "command \<Rightarrow> u8 option \<Rightarrow> ('s, exec_error, proc_output) prog"
  ci_exec_in_dir :: "command \<Rightarrow> remote_path \<Rightarrow> u8 option \<Rightarrow> ('s, exec_error, proc_output) prog"
  ci_exec_background :: "command \<Rightarrow> ('s, exec_error, unit) prog"

definition EXECUTOR_SOURCE_DIR :: string where
  "EXECUTOR_SOURCE_DIR = ''./executor''"

text \<open>The C++ source is copied twice, as in the code.\<close>

definition setup_remote_dir :: "'s command_interface \<Rightarrow> ('s, anyhow, remote_path) prog" where
  "setup_remote_dir cmdi =
     (let remote_dir = remote_new_tmp ''remote'';
          executor_dir = EXECUTOR_SOURCE_DIR;
          copy = (\<lambda>nm. ci_copy_to_remote cmdi (join executor_dir nm) (join remote_dir nm))
      in then_do (ignore_error (ci_remove_dir_all cmdi remote_dir)) (\<lambda>_.
         then_do (with_context (''failed to create remote directory at '' @ in_quotes remote_dir)
           (ci_create_dir_all cmdi remote_dir)) (\<lambda>_.
         then_do (copy ''makefile'') (\<lambda>_.
         then_do (copy ''executor.h'') (\<lambda>_.
         then_do (copy ''executor.cpp'') (\<lambda>_.
         then_do (copy ''executor.cpp'') (\<lambda>_.
         then_do (copy ''test.c'') (\<lambda>_.
         then_do (exec_context ''failed to make test binary''
           (ci_exec cmdi (args [''-C'', remote_dir] (command_new ''make'')) None)) (\<lambda>_.
         return remote_dir)))))))))"

subsection \<open>On the host\<close>

definition local_copy_file ::
    "string \<Rightarrow> string \<Rightarrow> ('z world_scheme, anyhow, unit) prog" where
  "local_copy_file src dst =
     with_context (''failed to copy local file from '' @ in_quotes src @ '' to '' @ in_quotes dst)
       (call_unit (CopyFile src dst))"

definition local_copy_dir :: "remote_path \<Rightarrow> local_path \<Rightarrow> ('z world_scheme, anyhow, unit) prog" where
  "local_copy_dir remote_dir local_dir =
     then_do (ignore_error (call_unit (RemoveDirAll local_dir))) (\<lambda>_.
     then_do (call_unit (CreateDirAll local_dir)) (\<lambda>_.
     then_do (call_list remote_dir) (\<lambda>entries.
     for_each entries (\<lambda>entry.
       then_do (lift_res (of_reply entry)) (\<lambda>nm.
       call_unit (CopyFile (join remote_dir nm) (join local_dir nm)))))))"

definition local_exec_background :: "command \<Rightarrow> ('z world_scheme, exec_error, unit) prog" where
  "local_exec_background cmd =
     then_do (asks debug_command) (\<lambda>show_command.
     map_error (\<lambda>e. ExecIoError
         (''failed to run local command in background: '' @ show_command cmd @ [newline] @ concat e))
       (call_unit (Spawn cmd)))"

definition local_command_interface :: "('z world_scheme) command_interface" where
  "local_command_interface =
     \<lparr>ci_create_dir_all = (\<lambda>path. with_context (''failed to create local dir at '' @ in_quotes path)
        (call_unit (CreateDirAll path))),
      ci_remove_dir_all = (\<lambda>path. with_context (''failed to remove local dir at '' @ in_quotes path)
        (call_unit (RemoveDirAll path))),
      ci_copy_to_remote = local_copy_file,
      ci_copy_from_remote = local_copy_file,
      ci_copy_dir_from_remote = local_copy_dir,
      ci_write = (\<lambda>path contents. with_context (''failed to write local file '' @ in_quotes path)
        (call_unit (WriteFile path contents))),
      ci_read_to_string = (\<lambda>path. with_context (''failed to read local file '' @ in_quotes path)
        (call_read path)),
      ci_exec = exec_local,
      ci_exec_in_dir = (\<lambda>cmd dir. exec_local (cmd\<lparr>cmd_dir := Some dir\<rparr>)),
      ci_exec_background = local_exec_background\<rparr>"

subsection \<open>On the guest, over SSH\<close>

record remote_options =
  ro_key_path :: string
  ro_ssh_port :: u16
  ro_tmp_file :: local_path

definition remote_new :: "qemu_config \<Rightarrow> u16 \<Rightarrow> local_path \<Rightarrow> remote_options" where
  "remote_new conf port tmp_dir =
     \<lparr>ro_key_path = ssh_private_key_path conf, ro_ssh_port = port, ro_tmp_file = join tmp_dir ''ssh-tmp''\<rparr>"

definition connection_args :: "remote_options \<Rightarrow> string list" where
  "connection_args opts =
     [''-q'', ''-i'', ro_key_path opts, ''-o'', ''StrictHostKeyChecking no'', ''-o'', ''ControlMaster auto'',
      ''-o'', ''ControlPath /tmp/diffuzzer-ssh-%r@%h:%p'', ''-o'', ''ControlPersist 1m'']"

definition copy_common :: "remote_options \<Rightarrow> command" where
  "copy_common opts =
     args (connection_args opts @ [''-P'', show_nat (unat (ro_ssh_port opts))]) (command_new ''scp'')"

definition exec_common :: "remote_options \<Rightarrow> command" where
  "exec_common opts =
     args (connection_args opts @ [''-p'', show_nat (unat (ro_ssh_port opts)), ''root@localhost''])
       (command_new ''ssh'')"

definition remote_name :: "remote_path \<Rightarrow> string" where
  "remote_name path = ''root@localhost:'' @ path"

fun remote_error :: "string \<Rightarrow> exec_error \<Rightarrow> exec_error" where
  "remote_error shown (ExecIoError v) = ExecIoError (''remote command error: '' @ shown @ [newline] @ v)"
| "remote_error shown (ExecTimedOut v) = ExecTimedOut (''remote command error: '' @ shown @ [newline] @ v)"

text \<open>The SSH command around a command, with the words before and after it.\<close>

definition remote_run ::
    "remote_options \<Rightarrow> string list \<Rightarrow> command \<Rightarrow> string list \<Rightarrow> u8 option \<Rightarrow>
     ('z world_scheme, exec_error, proc_output) prog" where
  "remote_run opts before cmd after timeout =
     then_do (asks debug_command) (\<lambda>show_command.
     map_error (remote_error (show_command cmd))
       (exec_local (args (before @ [show_command cmd] @ after) (exec_common opts)) timeout))"

definition remote_unit_command ::
    "remote_options \<Rightarrow> string \<Rightarrow> command \<Rightarrow> ('z world_scheme, anyhow, unit) prog" where
  "remote_unit_command opts msg cmd =
     then_do (exec_context msg (remote_run opts [''-t''] cmd [] None)) (\<lambda>_. return ())"

definition remote_copy ::
    "string \<Rightarrow> command \<Rightarrow> ('z world_scheme, anyhow, unit) prog" where
  "remote_copy msg scp = then_do (exec_context msg (exec_local scp None)) (\<lambda>_. return ())"

definition remote_copy_to ::
    "remote_options \<Rightarrow> local_path \<Rightarrow> remote_path \<Rightarrow> ('z world_scheme, anyhow, unit) prog" where
  "remote_copy_to opts local_p remote_p =
     remote_copy (''failed to copy file from '' @ in_quotes local_p @ '' (local) to '' @ in_quotes remote_p @ '' (remote)'')
       (args [local_p, remote_name remote_p] (copy_common opts))"

definition remote_copy_from ::
    "remote_options \<Rightarrow> remote_path \<Rightarrow> local_path \<Rightarrow> ('z world_scheme, anyhow, unit) prog" where
  "remote_copy_from opts remote_p local_p =
     remote_copy (''failed to copy file to '' @ in_quotes local_p @ '' (local) from '' @ in_quotes remote_p @ '' (remote)'')
       (args [remote_name remote_p, local_p] (copy_common opts))"

definition remote_copy_dir ::
    "remote_options \<Rightarrow> remote_path \<Rightarrow> local_path \<Rightarrow> ('z world_scheme, anyhow, unit) prog" where
  "remote_copy_dir opts remote_p local_p =
     then_do (ignore_error (call_unit (RemoveDirAll local_p))) (\<lambda>_.
     remote_copy (''failed to copy file from '' @ in_quotes local_p @ '' (local) to '' @ in_quotes remote_p @ '' (remote)'')
       (args [''-r'', remote_name remote_p, local_p] (copy_common opts)))"

definition remote_write ::
    "remote_options \<Rightarrow> remote_path \<Rightarrow> string \<Rightarrow> ('z world_scheme, anyhow, unit) prog" where
  "remote_write opts path contents =
     (let tmp_file = ro_tmp_file opts
      in then_do (with_context (''failed to write to temporary file at '' @ in_quotes tmp_file)
           (call_unit (WriteFile tmp_file contents))) (\<lambda>_.
         then_do (remote_copy_to opts tmp_file path) (\<lambda>_.
         with_context (''failed to remove temporary file at '' @ in_quotes tmp_file)
           (call_unit (RemoveFile tmp_file)))))"

definition remote_read_to_string ::
    "remote_options \<Rightarrow> remote_path \<Rightarrow> ('z world_scheme, anyhow, string) prog" where
  "remote_read_to_string opts path =
     (let tmp_file = ro_tmp_file opts
      in then_do (remote_copy_from opts path tmp_file) (\<lambda>_.
         then_do (with_context (''failed to read from temprary file at '' @ in_quotes tmp_file)
           (call_read tmp_file)) (\<lambda>s.
         then_do (with_context (''failed to remove temporary file at '' @ in_quotes tmp_file)
           (call_unit (RemoveFile tmp_file))) (\<lambda>_.
         return s))))"

definition remote_command_interface :: "remote_options \<Rightarrow> ('z world_scheme) command_interface" where
  "remote_command_interface opts =
     \<lparr>ci_create_dir_all = (\<lambda>path. remote_unit_command opts (''failed to create remote dir at '' @ in_quotes path)
        (args [''-p'', path] (command_new ''mkdir''))),
      ci_remove_dir_all = (\<lambda>path. remote_unit_command opts (''failed to remove remote dir at '' @ in_quotes path)
        (args [''-rf'', path] (command_new ''rm''))),
      ci_copy_to_remote = remote_copy_to opts,
      ci_copy_from_remote = remote_copy_from opts,
      ci_copy_dir_from_remote = remote_copy_dir opts,
      ci_write = remote_write opts,
      ci_read_to_string = remote_read_to_string opts,
      ci_exec = (\<lambda>cmd. remote_run opts [''-t''] cmd []),
      ci_exec_in_dir = (\<lambda>cmd dir. remote_run opts [''-t'', ''cd'', dir, ''&&''] cmd []),
      ci_exec_background = (\<lambda>cmd.
        then_do (remote_run opts [''-t''] cmd [''>/dev/null'', ''2>&1'', ''&''] None) (\<lambda>_. return ()))\<rparr>"

datatype command_interface_options = LocalOptions | RemoteOptions u16 local_path

definition launch_cmdi :: "config \<Rightarrow> command_interface_options \<Rightarrow> ('z world_scheme) command_interface" where
  "launch_cmdi conf opts =
     (case opts of
        RemoteOptions port tmp_dir \<Rightarrow> remote_command_interface (remote_new (cf_qemu conf) port tmp_dir)
      | LocalOptions \<Rightarrow> local_command_interface)"

definition fresh_tcp_port :: "('z world_scheme, anyhow, u16) prog" where
  "fresh_tcp_port =
     then_do (with_context ''failed to bind TCP port'' call_bind) (\<lambda>addr.
     case addr of
       Inl e \<Rightarrow> throw [''failed to get listener local address'', e]
     | Inr port \<Rightarrow> return port)"

subsection \<open>What the callers rely on\<close>

fun is_test_run :: "call \<Rightarrow> bool" where
  "is_test_run (Run cmd) = (cmd_program cmd = ''timeout'')"
| "is_test_run _ = False"

fun is_monitor_write :: "call \<Rightarrow> bool" where
  "is_monitor_write (MonitorWrite _) = True"
| "is_monitor_write _ = False"

definition is_plain :: "call \<Rightarrow> bool" where
  "is_plain c \<longleftrightarrow> \<not> is_test_run c \<and> \<not> is_monitor_write c"

lemma is_plain_simps [simp]:
  "is_plain (Run cmd) \<longleftrightarrow> cmd_program cmd \<noteq> ''timeout''"
  "is_plain (Spawn cmd)" "is_plain (CreateDirAll p)" "is_plain (RemoveDirAll p)" "is_plain (RemoveDir p)"
  "is_plain (RemoveFile p)" "is_plain (WriteFile p x)" "is_plain (ReadFile p)" "is_plain (CopyFile p q)"
  "is_plain (ReadDir p)" "is_plain (MonitorConnect p)" "\<not> is_plain (MonitorWrite x)" "is_plain PollEvent"
  "is_plain Clock" "is_plain BindPort" "is_plain (Log l x)" "is_plain (Send msg)"
  "is_plain (SpawnInstance i)" "is_plain (StartInstance i n)" "is_plain Receive" "is_plain ReceiveRun"
  "is_plain (InitLogger p)" "is_plain (Print x)"
  "is_plain (OpenAppend p)" "is_plain (StartMachineThread x)" "is_plain (SpawnMachine p vars q)" "is_plain (SendPid pid)"
  "is_plain (WaitMachine pid)" "is_plain ReceivePid" "is_plain (Sleep secs)" "is_plain (QmpConnect p)" "is_plain (QmpClone p)"
  "is_plain QmpRead" "is_plain (QmpWrite x)" "is_plain StartEventThread" "is_plain SendEvent"
  by (simp_all add: is_plain_def)

abbreviation quiet :: "('z world_scheme, 'e, 'a) prog \<Rightarrow> bool" where
  "quiet m \<equiv> steps (appends is_plain) m"

text \<open>\<open>n\<close> runs of a test and \<open>k\<close> commands to the monitor.\<close>

definition counts_calls :: "nat \<Rightarrow> nat \<Rightarrow> call list \<Rightarrow> bool" where
  "counts_calls n k cs \<longleftrightarrow> length (filter is_test_run cs) = n \<and> length (filter is_monitor_write cs) = k"

lemma counts_calls_append: "counts_calls m j cs \<Longrightarrow> counts_calls n k ds \<Longrightarrow> counts_calls (m + n) (j + k) (cs @ ds)"
  by (simp add: counts_calls_def)

lemma counts_calls_zero: "counts_calls 0 0 cs \<longleftrightarrow> (\<forall>c \<in> set cs. is_plain c)"
  by (auto simp: counts_calls_def is_plain_def filter_empty_conv)

lemma counts_calls_Nil [simp]: "counts_calls n k [] \<longleftrightarrow> n = 0 \<and> k = 0"
  by (auto simp: counts_calls_def)

lemma counts_calls_single [simp]: "counts_calls n k [c] \<longleftrightarrow> n = of_bool (is_test_run c) \<and> k = of_bool (is_monitor_write c)"
  by (auto simp: counts_calls_def)

definition test_runs :: "nat \<Rightarrow> nat \<Rightarrow> 'z world_scheme \<Rightarrow> 'z world_scheme \<Rightarrow> bool" where
  "test_runs n k s s' \<longleftrightarrow> (\<exists>cs. s' = s\<lparr>calls := calls s @ cs\<rparr> \<and> counts_calls n k cs)"

lemma test_runs_zero: "test_runs 0 0 s s' \<longleftrightarrow> appends is_plain s s'"
  unfolding test_runs_def appends_def by (simp add: counts_calls_zero)

lemma test_runs_trans: "test_runs m j s s' \<Longrightarrow> test_runs n k s' s'' \<Longrightarrow> test_runs (m + n) (j + k) s s''"
  unfolding test_runs_def
proof (elim exE conjE)
  fix cs ds
  assume "s' = s\<lparr>calls := calls s @ cs\<rparr>" "counts_calls m j cs"
    "s'' = s'\<lparr>calls := calls s' @ ds\<rparr>" "counts_calls n k ds"
  then show "\<exists>cs. s'' = s\<lparr>calls := calls s @ cs\<rparr> \<and> counts_calls (m + n) (j + k) cs"
    by (intro exI [of _ "cs @ ds"]) (simp add: counts_calls_append)
qed

locale command_contract =
  fixes cmdi :: "('z world_scheme) command_interface"
  assumes quiet_create_dir_all: "quiet (ci_create_dir_all cmdi path)"
    and quiet_remove_dir_all: "quiet (ci_remove_dir_all cmdi path)"
    and quiet_copy_to_remote: "quiet (ci_copy_to_remote cmdi local_p path)"
    and quiet_copy_from_remote: "quiet (ci_copy_from_remote cmdi path local_p)"
    and quiet_copy_dir_from_remote: "quiet (ci_copy_dir_from_remote cmdi path local_p)"
    and quiet_write: "quiet (ci_write cmdi path contents)"
    and quiet_read_to_string: "quiet (ci_read_to_string cmdi path)"
    and quiet_exec: "cmd_program cmd \<noteq> ''timeout'' \<Longrightarrow> quiet (ci_exec cmdi cmd None)"
    and timed_exec_runs_once: "steps (test_runs 1 0) (ci_exec_in_dir cmdi cmd path (Some secs))"
    and untimed_exec_ends: "ci_exec cmdi cmd None s = Some (Err e, s') \<Longrightarrow> e \<noteq> ExecTimedOut msg"
begin

lemmas quiet_methods =
  quiet_create_dir_all quiet_remove_dir_all quiet_copy_to_remote quiet_copy_from_remote
  quiet_copy_dir_from_remote quiet_write quiet_read_to_string quiet_exec

lemma quiet_setup_remote_dir: "quiet (setup_remote_dir cmdi)"
  unfolding setup_remote_dir_def Let_def exec_context_def
  by (intro emits quiet_methods) (simp_all add: args_def command_new_def)

end

lemma emits_exec_context [emits]: "steps (appends A) m \<Longrightarrow> steps (appends A) (exec_context c m)"
  unfolding exec_context_def by (intro emits)

lemma program_simps [simp]:
  "cmd_program (args xs cmd) = cmd_program cmd" "cmd_program (command_new prg) = prg"
  "cmd_program (copy_common opts) = ''scp''" "cmd_program (exec_common opts) = ''ssh''"
  by (simp_all add: args_def command_new_def copy_common_def exec_common_def)

lemma quiet_exec_local: "cmd_program cmd \<noteq> ''timeout'' \<Longrightarrow> quiet (exec_local cmd None)"
  unfolding exec_local_def split_def under_timeout_def by (intro emits) simp

lemma quiet_remote_run: "quiet (remote_run opts before cmd after None)"
  unfolding remote_run_def by (intro emits quiet_exec_local) simp

lemma quiet_remote_copy: "cmd_program scp \<noteq> ''timeout'' \<Longrightarrow> quiet (remote_copy msg scp)"
  unfolding remote_copy_def by (intro emits quiet_exec_local)

lemma exec_local_run:
  "\<exists>r. exec_local cmd timeout s = Some (r, record_call (Run (under_timeout timeout cmd)) s)
     \<and> (timeout = None \<longrightarrow> (\<forall>msg. r \<noteq> Err (ExecTimedOut msg)))"
  by (cases "run_command (env s) (calls s) (under_timeout timeout cmd)")
    (auto simp: exec_local_def asks_def call_run_def exec_status_def then_do_def map_error_def
      split: option.splits)

lemma test_runs_record: "test_runs (of_bool (is_test_run c)) (of_bool (is_monitor_write c)) s (record_call c s)"
  unfolding test_runs_def record_call_def by (rule exI [of _ "[c]"]) simp

lemma exec_local_once: "steps (test_runs 1 0) (exec_local cmd (Some secs))"
proof (unfold steps_def, intro allI impI)
  fix s r and s' :: "'a world_scheme"
  assume "exec_local cmd (Some secs) s = Some (r, s')"
  then have "s' = record_call (Run (under_timeout (Some secs) cmd)) s"
    using exec_local_run [of cmd "Some secs" s] by auto
  then show "test_runs 1 0 s s'"
    using test_runs_record [of "Run (under_timeout (Some secs) cmd)" s] by (simp add: under_timeout_def)
qed

lemma exec_local_ends: "exec_local cmd None s = Some (Err e, s') \<Longrightarrow> e \<noteq> ExecTimedOut msg"
  using exec_local_run [of cmd None s] by auto

lemma steps_map_error: "steps R m \<Longrightarrow> steps R (map_error f m)"
  by (auto simp: steps_def map_error_def)

lemma remote_run_eq:
  "remote_run opts before cmd after timeout s =
     (let shown = debug_command (env s) cmd
      in map_error (remote_error shown) (exec_local (args (before @ [shown] @ after) (exec_common opts)) timeout) s)"
  by (simp add: remote_run_def asks_def Let_def)

lemma remote_run_once: "steps (test_runs 1 0) (remote_run opts before cmd after (Some secs))"
  by (auto simp: steps_def remote_run_eq Let_def map_error_def dest: stepsD [OF exec_local_once])

lemma remote_run_ends: "remote_run opts before cmd after None s = Some (Err e, s') \<Longrightarrow> e \<noteq> ExecTimedOut msg"
proof -
  let ?shown = "debug_command (env s) cmd"
  let ?cmd = "args (before @ [?shown] @ after) (exec_common opts)"
  assume run: "remote_run opts before cmd after None s = Some (Err e, s')"
  obtain r where r: "exec_local ?cmd None s = Some (r, record_call (Run ?cmd) s)"
      and ends: "\<forall>m. r \<noteq> Err (ExecTimedOut m)"
    using exec_local_run [of ?cmd None s] by (auto simp: under_timeout_def)
  have "map_err (remote_error ?shown) r = Err e" using run r by (simp add: remote_run_eq Let_def)
  then show ?thesis using ends by (cases r) (auto elim!: remote_error.elims)
qed

interpretation local_commands: command_contract local_command_interface
  unfolding local_command_interface_def
proof (unfold_locales, simp_all only: command_interface.simps)
  show "quiet (local_copy_dir path local_p)" for path local_p
    unfolding local_copy_dir_def by (intro emits) simp_all
  show "quiet (local_copy_file path local_p)" for path local_p
    unfolding local_copy_file_def by (intro emits) simp
  then show "quiet (local_copy_file local_p path)" for path local_p .
qed (auto intro!: emits quiet_exec_local exec_local_once [unfolded One_nat_def] dest: exec_local_ends)

interpretation remote_commands: command_contract "remote_command_interface opts" for opts
  unfolding remote_command_interface_def
proof (unfold_locales, simp_all only: command_interface.simps)
  fix path local_p contents cmd secs
  show "quiet (remote_copy_to opts local_p path)" "quiet (remote_copy_from opts path local_p)"
    unfolding remote_copy_to_def remote_copy_from_def by (intro quiet_remote_copy; simp)+
  then show "quiet (remote_write opts path contents)" "quiet (remote_read_to_string opts path)"
    unfolding remote_write_def remote_read_to_string_def Let_def
    by (auto intro!: emits simp: remote_copy_to_def remote_copy_from_def quiet_remote_copy)
  show "quiet (remote_copy_dir opts path local_p)"
    unfolding remote_copy_dir_def by (intro emits quiet_remote_copy) simp_all
  show "quiet (remote_unit_command opts msg cmd)" for msg cmd
    unfolding remote_unit_command_def by (intro emits quiet_remote_run)
  then show "quiet (remote_unit_command opts msg cmd)" for msg cmd .
qed (auto intro!: quiet_remote_run remote_run_once [unfolded One_nat_def] dest: remote_run_ends)

end
