(* ===== verification/Handle.thy ===== *)
theory Handle
  imports Command
begin

text \<open>
  \<open>fuzzing/broker.rs\<close>: the statistics of the instances and the handle on which a fuzzer reports. A handle
  is either the log (\<open>FakeHandle\<close>, with the start of the run) or the channel to the broker of several
  instances (\<open>RealHandle\<close>, with the number of the instance).
\<close>

subsection \<open>Statistics\<close>

fun show_coverage_type :: "coverage_type \<Rightarrow> string" where
  "show_coverage_type CoverageNone = ''None''"
| "show_coverage_type CoverageKCov = ''KCov''"
| "show_coverage_type CoverageLCov = ''LCov''"

definition show_two :: "nat \<Rightarrow> string" where
  "show_two n = (if n < 10 then ''0'' @ show_nat n else show_nat n)"

text \<open>The end of both lines of statistics; the rate is the quotient in floating point.\<close>

definition show_progress :: "(nat \<Rightarrow> nat \<Rightarrow> string) \<Rightarrow> u64 \<Rightarrow> u64 \<Rightarrow> nat \<Rightarrow> string" where
  "show_progress rate crashes executions secs =
     ''crashes: '' @ show_u64 crashes @ '', executions: '' @ show_u64 executions
     @ '', exec/s: '' @ rate (unat executions) secs
     @ '', time: '' @ show_two (secs div (60 * 60)) @ ''h:'' @ show_two (secs div 60 mod 60) @ ''m:''
     @ show_two (secs mod 60) @ ''s''"

definition black_box_display :: "nat \<Rightarrow> black_box_stats \<Rightarrow> ('z world_scheme, 'e, string) prog" where
  "black_box_display start stats =
     then_do (elapsed_secs start) (\<lambda>secs.
     then_do (asks show_rate) (\<lambda>rate.
     return (show_progress rate (bb_crashes stats) (bb_executions stats) secs)))"

definition grey_box_display :: "nat \<Rightarrow> grey_box_stats \<Rightarrow> ('z world_scheme, 'e, string) prog" where
  "grey_box_display start stats =
     then_do (elapsed_secs start) (\<lambda>secs.
     then_do (asks show_rate) (\<lambda>rate.
     return (''corpus: '' @ show_u64 (gb_corpus_size stats)
       @ '', coverage: '' @ show_u64 (gb_fst_coverage_size stats)
       @ '' ('' @ show_coverage_type (gb_fst_coverage_type stats) @ '')''
       @ '' + '' @ show_u64 (gb_snd_coverage_size stats)
       @ '' ('' @ show_coverage_type (gb_snd_coverage_type stats) @ ''), ''
       @ show_progress rate (gb_crashes stats) (gb_executions stats) secs)))"

definition black_box_aggregate :: "black_box_stats list \<Rightarrow> black_box_stats" where
  "black_box_aggregate stats =
     \<lparr>bb_crashes = foldl (\<lambda>acc s. acc + bb_crashes s) 0 stats,
      bb_executions = foldl (\<lambda>acc s. acc + bb_executions s) 0 stats\<rparr>"

text \<open>\<open>iter().max()\<close>\<close>

definition list_max :: "u64 list \<Rightarrow> u64 option" where
  "list_max xs = (if xs = [] then None else Some (foldl max (hd xs) (tl xs)))"

definition grey_box_aggregate :: "grey_box_stats list \<Rightarrow> ('e, grey_box_stats) res" where
  "grey_box_aggregate stats =
     and_then (unwrap (list_max (map gb_corpus_size stats))) (\<lambda>corpus_size.
     and_then (unwrap (list_max (map gb_fst_coverage_size stats))) (\<lambda>fst_coverage_size.
     and_then (unwrap (vec_get stats 0)) (\<lambda>first_stats.
     and_then (unwrap (list_max (map gb_snd_coverage_size stats))) (\<lambda>snd_coverage_size.
     Ok \<lparr>gb_corpus_size = corpus_size, gb_fst_coverage_size = fst_coverage_size,
         gb_fst_coverage_type = gb_fst_coverage_type first_stats,
         gb_snd_coverage_size = snd_coverage_size,
         gb_snd_coverage_type = gb_snd_coverage_type first_stats,
         gb_crashes = foldl (\<lambda>acc s. acc + gb_crashes s) 0 stats,
         gb_executions = foldl (\<lambda>acc s. acc + gb_executions s) 0 stats\<rparr>))))"

subsection \<open>The handle\<close>

datatype broker_handle = FakeHandle nat | RealHandle u8

definition send_message :: "broker_message \<Rightarrow> ('z world_scheme, anyhow, unit) prog" where
  "send_message msg = with_context ''failed to send broker message'' (call_unit (Send msg))"

fun handle_error :: "broker_handle \<Rightarrow> anyhow \<Rightarrow> ('z world_scheme, anyhow, unit) prog" where
  "handle_error (FakeHandle _) err = then_do (asks show_error) (\<lambda>show_err. log_message LogError (show_err err))"
| "handle_error (RealHandle n) err = send_message (MsgError n err)"

fun handle_info :: "broker_handle \<Rightarrow> string \<Rightarrow> ('z world_scheme, anyhow, unit) prog" where
  "handle_info (FakeHandle _) msg = log_message LogInfo msg"
| "handle_info (RealHandle n) msg = send_message (MsgInfo n msg)"

fun handle_warn :: "broker_handle \<Rightarrow> string \<Rightarrow> ('z world_scheme, anyhow, unit) prog" where
  "handle_warn (FakeHandle _) msg = log_message LogWarn msg"
| "handle_warn (RealHandle n) msg = send_message (MsgWarn n msg)"

fun handle_black_box_stats :: "broker_handle \<Rightarrow> black_box_stats \<Rightarrow> ('z world_scheme, anyhow, unit) prog" where
  "handle_black_box_stats (FakeHandle start) stats = then_do (black_box_display start stats) (log_message LogInfo)"
| "handle_black_box_stats (RealHandle n) stats = send_message (MsgBlackBoxStats n stats)"

fun handle_grey_box_stats :: "broker_handle \<Rightarrow> grey_box_stats \<Rightarrow> ('z world_scheme, anyhow, unit) prog" where
  "handle_grey_box_stats (FakeHandle start) stats = then_do (grey_box_display start stats) (log_message LogInfo)"
| "handle_grey_box_stats (RealHandle n) stats = send_message (MsgGreyBoxStats n stats)"

fun handle_id :: "broker_handle \<Rightarrow> u8" where
  "handle_id (FakeHandle _) = 0"
| "handle_id (RealHandle n) = n"

text \<open>A handle logs, reads the clock and sends; it does nothing else.\<close>

fun is_report :: "call \<Rightarrow> bool" where
  "is_report Clock = True"
| "is_report (Log _ _) = True"
| "is_report (Send _) = True"
| "is_report _ = False"

lemma reports [emits]:
  assumes "\<And>c. is_report c \<Longrightarrow> A c"
  shows "steps (appends A) (handle_error h err)" "steps (appends A) (handle_info h msg)"
    "steps (appends A) (handle_warn h msg)" "steps (appends A) (handle_black_box_stats h bs)"
    "steps (appends A) (handle_grey_box_stats h gs)"
  by (cases h; auto simp: send_message_def black_box_display_def grey_box_display_def intro!: emits assms)+

lemma report_plain [simp]: "is_report c \<Longrightarrow> is_plain c"
  by (cases c) simp_all

end
