(* ===== verification/Supervisor.thy ===== *)
theory Supervisor
  imports Handle
begin

text \<open>
  \<open>supervisor.rs\<close>: the system in which the tests run. A \<open>dyn Supervisor\<close> is the record of its methods.
  \<open>native_supervisor\<close> does nothing; \<open>qemu_supervisor\<close> saves and loads the snapshot of the machine over its
  monitor and drains the channel of its events.

  \<open>qemu_launch\<close> starts the thread \<open>qemu_thread\<close>, which runs the machine and waits for its end, sleeps while the
  machine boots, and connects to its event socket, which \<open>event_handler_thread\<close> reads from then on. A thread is a
  program over its own state; what the launching thread sees of the others are the answers of the environment.
\<close>

record 's supervisor =
  sv_load_snapshot :: "('s, anyhow, unit) prog"
  sv_save_snapshot :: "('s, anyhow, unit) prog"
  sv_reset_events :: "('s, anyhow, unit) prog"
  sv_had_panic_event :: "('s, anyhow, bool) prog"

definition native_supervisor :: "'s supervisor" where
  "native_supervisor =
     \<lparr>sv_load_snapshot = return (), sv_save_snapshot = return (), sv_reset_events = return (),
      sv_had_panic_event = return False\<rparr>"

definition SNAPSHOT_TAG :: string where
  "SNAPSHOT_TAG = ''fresh''"

text \<open>The loops of the event handler end when the channel is empty, which may never happen.\<close>

partial_function (option) event_handler_had_panic_event ::
    "bool \<Rightarrow> ('z world_scheme, anyhow, bool) prog" where
  "event_handler_had_panic_event panicked s =
     then_do call_poll (\<lambda>ev s'. case ev of
       EventReceived \<Rightarrow> event_handler_had_panic_event True s'
     | NoEvent \<Rightarrow> return panicked s'
     | Disconnected \<Rightarrow> throw [''event channel disconnected''] s') s"

partial_function (option) event_handler_reset :: "('z world_scheme, anyhow, unit) prog" where
  "event_handler_reset s =
     then_do call_poll (\<lambda>ev s'. case ev of
       EventReceived \<Rightarrow> event_handler_reset s'
     | NoEvent \<Rightarrow> return () s'
     | Disconnected \<Rightarrow> throw [''event channel disconnected''] s') s"

record qemu_options =
  qo_ssh_port :: u16
  qo_qmp_socket_path :: local_path
  qo_monitor_socket_path :: local_path

definition monitor_stream :: "qemu_options \<Rightarrow> ('z world_scheme, anyhow, unit) prog" where
  "monitor_stream opts =
     with_context (''failed to connect to monitor at '' @ in_quotes (qo_monitor_socket_path opts))
       (call_unit (MonitorConnect (qo_monitor_socket_path opts)))"

definition monitor_command :: "broker_handle \<Rightarrow> qemu_options \<Rightarrow> string \<Rightarrow> string \<Rightarrow> ('z world_scheme, anyhow, unit) prog" where
  "monitor_command broker opts msg line =
     then_do (handle_info broker msg) (\<lambda>_.
     then_do (monitor_stream opts) (\<lambda>_.
     call_unit (MonitorWrite (line @ [newline]))))"

definition qemu_supervisor :: "broker_handle \<Rightarrow> qemu_options \<Rightarrow> ('z world_scheme) supervisor" where
  "qemu_supervisor broker opts =
     \<lparr>sv_load_snapshot = monitor_command broker opts ''load vm snapshot'' (''loadvm '' @ SNAPSHOT_TAG),
      sv_save_snapshot = monitor_command broker opts ''save vm snapshot'' (''savevm '' @ SNAPSHOT_TAG),
      sv_reset_events = event_handler_reset,
      sv_had_panic_event = event_handler_had_panic_event False\<rparr>"

datatype supervisor_options = NativeOptions | QemuOptions qemu_options

subsection \<open>Launching the machine\<close>

definition json_string :: "string \<Rightarrow> string" where
  "json_string s = [CHR 0x22] @ s @ [CHR 0x22]"

definition show_bool :: "bool \<Rightarrow> string" where
  "show_bool b = (if b then ''true'' else ''false'')"

definition machine_environment :: "qemu_config \<Rightarrow> qemu_options \<Rightarrow> (string \<times> string) list" where
  "machine_environment conf opts =
     [(''OS_IMAGE'', os_image conf),
      (''SSH_PORT'', show_nat (unat (qo_ssh_port opts))),
      (''QMP_SOCKET_PATH'', qo_qmp_socket_path opts),
      (''MONITOR_SOCKET_PATH'', qo_monitor_socket_path opts),
      (''DIRECT_BOOT'', show_bool (direct_boot conf)),
      (''KERNEL_IMAGE_PATH'', kernel_image_path conf),
      (''ROOT_DISK_PARTITION'', root_disk_partition conf)]"

definition qemu_thread ::
    "qemu_config \<Rightarrow> qemu_options \<Rightarrow> broker_handle \<Rightarrow> ('z world_scheme, anyhow, unit) prog" where
  "qemu_thread conf opts broker =
     then_do (attempt (with_context (''failed to run qemu vm from script '' @ in_quotes (launch_script conf))
       (call_spawn_machine (launch_script conf) (machine_environment conf opts) (log_path conf)))) (\<lambda>child.
     case child of
       Inr pid \<Rightarrow>
         then_do (unwrap_prog (call_unit (SendPid pid))) (\<lambda>_.
         then_do (attempt (call_wait_machine pid)) (\<lambda>finished.
         case finished of
           Inr status \<Rightarrow>
             unwrap_prog (handle_error broker [''qemu finished unexpectedly ('' @ status @ ''), check log at ''
               @ in_quotes (log_path conf)])
         | Inl err \<Rightarrow>
             unwrap_prog (handle_error broker [''qemu finished with error, check log at ''
               @ in_quotes (log_path conf) @ '':'' @ [newline] @ concat err])))
     | Inl err \<Rightarrow> unwrap_prog (handle_error broker err))"

definition is_event :: "json \<Rightarrow> bool" where
  "is_event value \<longleftrightarrow> (case value of JsonObject keys \<Rightarrow> ''event'' \<in> set keys | JsonOther \<Rightarrow> False)"

text \<open>The thread of the event handler ends in a panic, when the socket is closed or the channel has no receiver.\<close>

partial_function (option) event_handler_thread :: "('z world_scheme, anyhow, unit) prog" where
  "event_handler_thread s =
     then_do (unwrap_prog (with_context ''failed to deserialize response'' call_read_json)) (\<lambda>value s1.
       then_do (do_when (is_event value) (unwrap_prog (call_unit SendEvent)))
         (\<lambda>_. event_handler_thread) s1) s"

text \<open>\<open>ReturnMessage\<close> is an object with the key \<open>return\<close>.\<close>

definition return_message :: "(json \<Rightarrow> string) \<Rightarrow> json \<Rightarrow> (anyhow, unit) res" where
  "return_message decode_err value =
     (case value of
        JsonObject keys \<Rightarrow> if ''return'' \<in> set keys then Ok () else Err [decode_err value]
      | JsonOther \<Rightarrow> Err [decode_err value])"

definition event_handler_launch :: "local_path \<Rightarrow> ('z world_scheme, anyhow, unit) prog" where
  "event_handler_launch socket_path =
     then_do (with_context (''failed to connect to unix socket at '' @ in_quotes socket_path)
       (call_unit (QmpConnect socket_path))) (\<lambda>_.
     then_do (call_unit (QmpClone socket_path)) (\<lambda>_.
     then_do (with_context ''failed to deserialize response'' call_read_json) (\<lambda>_.
     then_do (call_unit (QmpWrite (''{ '' @ json_string ''execute'' @ '': '' @ json_string ''qmp_capabilities'' @ '' }''))) (\<lambda>_.
     then_do (asks decode_error) (\<lambda>decode_err.
     then_do (with_context ''failed to deserialize return message''
       (then_do call_read_json (\<lambda>value. lift_res (return_message decode_err value)))) (\<lambda>_.
     unwrap_prog (call_unit StartEventThread)))))))"

record qemu_machine =
  qm_options :: qemu_options
  qm_process_id :: u32
  qm_broker :: broker_handle

definition qemu_launch ::
    "qemu_config \<Rightarrow> qemu_options \<Rightarrow> broker_handle \<Rightarrow> ('z world_scheme, anyhow, qemu_machine) prog" where
  "qemu_launch conf opts broker =
     then_do (with_context (''failed to open QEMU log file at '' @ in_quotes (log_path conf))
       (call_unit (OpenAppend (log_path conf)))) (\<lambda>_.
     then_do (with_context ''failed to create qemu thread''
       (call_unit (StartMachineThread (''qemu-process-instance-'' @ show_nat (unat (handle_id broker)))))) (\<lambda>_.
     then_do (handle_info broker (''wait for VM to init ('' @ show_nat (unat (boot_wait_time conf)) @ ''s)'')) (\<lambda>_.
     then_do (modify (record_call (Sleep (unat (boot_wait_time conf))))) (\<lambda>_.
     then_do (with_context ''failed to launch event handler''
       (event_handler_launch (qo_qmp_socket_path opts))) (\<lambda>_.
     then_do call_receive_pid (\<lambda>process_id.
     return \<lparr>qm_options = opts, qm_process_id = process_id, qm_broker = broker\<rparr>))))))"

definition launch_supervisor ::
    "config \<Rightarrow> supervisor_options \<Rightarrow> broker_handle \<Rightarrow>
     ('z world_scheme, anyhow, ('z world_scheme) supervisor) prog" where
  "launch_supervisor conf opts broker =
     (case opts of
        QemuOptions o' \<Rightarrow> 
          then_do (with_context ''failed to launch QEMU supervisor'' (qemu_launch (cf_qemu conf) o' broker)) (\<lambda>m.
          return (qemu_supervisor (qm_broker m) (qm_options m)))
      | NativeOptions \<Rightarrow> return native_supervisor)"

definition launch_cmdi_and_supervisor ::
    "bool \<Rightarrow> config \<Rightarrow> local_path \<Rightarrow> broker_handle \<Rightarrow>
     ('z world_scheme, anyhow, ('z world_scheme) command_interface \<times> ('z world_scheme) supervisor) prog" where
  "launch_cmdi_and_supervisor no_qemu conf tmp_dir broker =
     then_do (with_context ''failed to get fresh port for SSH connection'' fresh_tcp_port) (\<lambda>ssh_port.
     let monitor_socket_path = join tmp_dir ''qemu-monitor.sock'';
         qmp_socket_path = join tmp_dir ''qemu-qmp.sock'';
         cmdi = launch_cmdi conf (if no_qemu then LocalOptions else RemoteOptions ssh_port tmp_dir);
         supervisor_opts = (if no_qemu then NativeOptions
           else QemuOptions \<lparr>qo_ssh_port = ssh_port, qo_qmp_socket_path = qmp_socket_path,
             qo_monitor_socket_path = monitor_socket_path\<rparr>)
     in then_do (launch_supervisor conf supervisor_opts broker) (\<lambda>sv.
        return (cmdi, sv)))"

text \<open>Before it kills the machine the destructor checks that the process is still QEMU.\<close>

fun str_contains :: "string \<Rightarrow> string \<Rightarrow> bool" where
  "str_contains pat [] \<longleftrightarrow> pat = []"
| "str_contains pat (c # cs) \<longleftrightarrow> take (length pat) (c # cs) = pat \<or> str_contains pat cs"

definition check_pid_match :: "u32 \<Rightarrow> ('z world_scheme, 'e, bool) prog" where
  "check_pid_match process_id = (\<lambda>s. map_option (\<lambda>(r, s').
     (case r of
        Ok out \<Rightarrow> Ok (str_contains ''qemu'' (if utf8_valid (out_stdout out) then out_stdout out else []))
      | Err _ \<Rightarrow> Ok (str_contains ''qemu'' [])
      | Crash c \<Rightarrow> Crash c, s'))
     (exec_local (args [''-p'', show_nat (unat process_id), ''-o'', ''comm=''] (command_new ''ps'')) None s))"

definition qemu_drop :: "u32 \<Rightarrow> ('z world_scheme, 'e, unit) prog" where
  "qemu_drop process_id =
     then_do (check_pid_match process_id) (\<lambda>matches.
     if \<not> matches then return ()
     else ignore_error (then_do (exec_local (args [show_nat (unat process_id)] (command_new ''kill'')) None)
            (\<lambda>_. return ())))"

subsection \<open>The events\<close>

text \<open>The state after a number of polls, and the next event then.\<close>

definition polled :: "nat \<Rightarrow> 'z world_scheme \<Rightarrow> 'z world_scheme" where
  "polled n s = s\<lparr>calls := calls s @ replicate n PollEvent\<rparr>"

definition event_after :: "nat \<Rightarrow> 'z world_scheme \<Rightarrow> event_poll" where
  "event_after n s = poll_event (env s) (calls s @ replicate n PollEvent)"

lemma polled_0 [simp]: "polled 0 s = s" and event_after_0: "event_after 0 s = poll_event (env s) (calls s)"
  by (simp_all add: polled_def event_after_def)

lemma polled_record [simp]:
  "polled n (record_call PollEvent s) = polled (Suc n) s"
  "event_after n (record_call PollEvent s) = event_after (Suc n) s"
  by (simp_all add: polled_def event_after_def record_call_def replicate_append_same [symmetric])

text \<open>What draining the channel yields: it ends at the first poll without an event.\<close>

definition drained :: "nat \<Rightarrow> 'z world_scheme \<Rightarrow> bool" where
  "drained n s \<longleftrightarrow> (\<forall>k < n. event_after k s = EventReceived) \<and> event_after n s \<noteq> EventReceived"

lemma drained_Suc:
  "event_after 0 s = EventReceived \<Longrightarrow> drained n (record_call PollEvent s) \<Longrightarrow> drained (Suc n) s"
  unfolding drained_def by (auto simp: less_Suc_eq_0_disj)

lemma had_panic_event_drains:
  "event_handler_had_panic_event b s = Some y \<Longrightarrow>
   \<exists>n. drained n s \<and> snd y = polled (Suc n) s
     \<and> fst y = (if event_after n s = NoEvent then Ok (b \<or> 0 < n) else Err [''event channel disconnected''])"
proof (induction b s y rule: event_handler_had_panic_event.raw_induct [rotated, consumes 1])
  case (1 rec b s y)
  have polled1: "record_call PollEvent s = polled (Suc 0) s" by (simp add: polled_def record_call_def)
  show ?case
  proof (cases "event_after 0 s")
    case EventReceived
    then have "rec True (record_call PollEvent s) = Some y"
      using 1(2) by (simp add: call_poll_def event_after_0)
    then obtain n where "drained n (record_call PollEvent s)"
        "snd y = polled (Suc n) (record_call PollEvent s)"
        "fst y = (if event_after n (record_call PollEvent s) = NoEvent then Ok True else Err [''event channel disconnected''])"
      using 1(1) by fastforce
    then show ?thesis using drained_Suc [OF EventReceived] by (intro exI [of _ "Suc n"]) simp
  qed (use 1(2) in \<open>auto simp: call_poll_def event_after_0 drained_def polled1 intro!: exI [of _ 0]\<close>)
qed

lemma reset_drains:
  "event_handler_reset s = Some y \<Longrightarrow>
   \<exists>n. drained n s \<and> snd y = polled (Suc n) s
     \<and> fst y = (if event_after n s = NoEvent then Ok () else Err [''event channel disconnected''])"
proof (induction s y rule: event_handler_reset.raw_induct [rotated, consumes 1])
  case (1 rec s y)
  have polled1: "record_call PollEvent s = polled (Suc 0) s" by (simp add: polled_def record_call_def)
  show ?case
  proof (cases "event_after 0 s")
    case EventReceived
    then have "rec (record_call PollEvent s) = Some y"
      using 1(2) by (simp add: call_poll_def event_after_0)
    then obtain n where "drained n (record_call PollEvent s)"
        "snd y = polled (Suc n) (record_call PollEvent s)"
        "fst y = (if event_after n (record_call PollEvent s) = NoEvent then Ok () else Err [''event channel disconnected''])"
      using 1(1) by fastforce
    then show ?thesis using drained_Suc [OF EventReceived] by (intro exI [of _ "Suc n"]) simp
  qed (use 1(2) in \<open>auto simp: call_poll_def event_after_0 drained_def polled1 intro!: exI [of _ 0]\<close>)
qed

text \<open>And conversely it ends when the channel runs empty.\<close>

lemma had_panic_event_ends:
  "drained n s \<Longrightarrow> event_handler_had_panic_event b s \<noteq> None"
proof (induction n arbitrary: b s)
  case 0
  then show ?case
    by (subst event_handler_had_panic_event.simps)
      (auto simp: call_poll_def drained_def event_after_0 split: event_poll.splits)
next
  case (Suc n)
  then have "event_after 0 s = EventReceived" "drained n (record_call PollEvent s)"
    by (auto simp: drained_def)
  then show ?case using Suc.IH [of "record_call PollEvent s" True]
    by (subst event_handler_had_panic_event.simps) (simp add: call_poll_def event_after_0)
qed

lemma polls_only: "appends (\<lambda>c. c = PollEvent) s (polled n s)"
  unfolding appends_def polled_def by (rule exI [of _ "replicate n PollEvent"]) simp

lemma quiet_polled: "appends is_plain s (polled n s)"
  by (rule appends_mono [OF polls_only]) simp

text \<open>
  The contract of a supervisor: it runs no test, and \<open>w\<close> commands to the monitor load the snapshot.
\<close>

locale supervisor_contract =
  fixes sv :: "('z world_scheme) supervisor" and w :: nat
  assumes load_snapshot_writes: "sv_load_snapshot sv s = Some (Ok (), s') \<Longrightarrow> test_runs 0 w s s'"
    and load_snapshot_runs_no_test: "steps (appends (\<lambda>c. \<not> is_test_run c)) (sv_load_snapshot sv)"
    and quiet_reset_events: "quiet (sv_reset_events sv)"
    and quiet_had_panic_event: "quiet (sv_had_panic_event sv)"

interpretation native_supervisor: supervisor_contract native_supervisor 0
  by unfold_locales (auto simp: native_supervisor_def test_runs_zero appends.refl intro: emits)

lemma quiet_handle_info: "quiet (handle_info broker msg)"
  by (intro emits) (rule report_plain)

lemma monitor_command_writes:
  assumes "monitor_command broker opts msg line s = Some (Ok (), s')"
  shows "test_runs 0 1 s s'"
proof -
  obtain s1 s2 where 1: "handle_info broker msg s = Some (Ok (), s1)" and 2: "monitor_stream opts s1 = Some (Ok (), s2)"
    and 3: "call_unit (MonitorWrite (line @ [newline])) s2 = Some (Ok (), s')"
    using assms by (auto simp: monitor_command_def then_do_Ok)
  have a: "test_runs 0 0 s s1"
    unfolding test_runs_zero by (rule stepsD [OF quiet_handle_info 1])
  have q: "quiet (monitor_stream opts)" unfolding monitor_stream_def by (intro emits) simp
  have b: "test_runs 0 0 s1 s2" unfolding test_runs_zero by (rule stepsD [OF q 2])
  have "s' = record_call (MonitorWrite (line @ [newline])) s2" using 3 by (simp add: call_unit_def)
  then have c: "test_runs 0 1 s2 s'"
    using test_runs_record [of "MonitorWrite (line @ [newline])" s2] by simp
  show ?thesis using test_runs_trans [OF test_runs_trans [OF a b] c] by simp
qed

lemma quiet_drains: "quiet event_handler_reset" "quiet (event_handler_had_panic_event b)"
  using quiet_polled by (auto simp: steps_def dest!: reset_drains had_panic_event_drains)

interpretation qemu_supervisor: supervisor_contract "qemu_supervisor broker opts" 1 for broker opts
proof (unfold_locales, unfold qemu_supervisor_def supervisor.simps)
  show "test_runs 0 1 s s'"
    if "monitor_command broker opts ''load vm snapshot'' (''loadvm '' @ SNAPSHOT_TAG) s = Some (Ok (), s')" for s s'
    using that by (rule monitor_command_writes)
  have "\<not> is_test_run c" if "is_report c" for c using that by (cases c) simp_all
  then show "steps (appends (\<lambda>c. \<not> is_test_run c))
      (monitor_command broker opts ''load vm snapshot'' (''loadvm '' @ SNAPSHOT_TAG))"
    unfolding monitor_command_def monitor_stream_def by (intro emits) simp_all
qed (rule quiet_drains)+

end
