(* ===== verification/Mount.thy ===== *)
theory Mount
  imports Supervisor
begin

text \<open>
  \<open>mount/\<close> and \<open>filesystems.rs\<close>: the file systems under test, how they are mounted on a RAM disk and how
  they are found by name. The implementors of \<open>FileSystemMount\<close> are the values of \<open>fs_mount\<close>; a method
  without default is \<open>None\<close> where the trait has \<open>todo!()\<close>.
\<close>

datatype fs_mount = Ext4 | Btrfs | F2FS | Xfs | LittleFS | BcacheFS

definition DEVICE :: string where "DEVICE = ''/dev/ram0''"

definition RAM_DISK_SIZE :: nat where "RAM_DISK_SIZE = 1000000"

fun mount_name :: "fs_mount \<Rightarrow> string" where
  "mount_name Ext4 = ''Ext4''"
| "mount_name Btrfs = ''Btrfs''"
| "mount_name F2FS = ''F2FS''"
| "mount_name Xfs = ''XFS''"
| "mount_name LittleFS = ''LittleFS''"
| "mount_name BcacheFS = ''BcacheFS''"

fun mkfs_cmd :: "fs_mount \<Rightarrow> string option" where
  "mkfs_cmd Ext4 = Some ''mkfs.ext4''"
| "mkfs_cmd Btrfs = Some ''mkfs.btrfs''"
| "mkfs_cmd F2FS = Some ''mkfs.f2fs''"
| "mkfs_cmd Xfs = Some ''mkfs.xfs''"
| "mkfs_cmd LittleFS = None"
| "mkfs_cmd BcacheFS = None"

fun mkfs_opts :: "fs_mount \<Rightarrow> string option" where
  "mkfs_opts F2FS = Some ''extra_attr,inode_checksum,sb_checksum,compression''"
| "mkfs_opts _ = None"

fun mount_t :: "fs_mount \<Rightarrow> string option" where
  "mount_t Ext4 = Some ''ext4''"
| "mount_t Btrfs = Some ''btrfs''"
| "mount_t F2FS = Some ''f2fs''"
| "mount_t Xfs = Some ''xfs''"
| "mount_t LittleFS = None"
| "mount_t BcacheFS = None"

fun mount_opts :: "fs_mount \<Rightarrow> string option" where
  "mount_opts F2FS = Some ''compress_algorithm=zstd:6,compress_chksum,atgc,gc_merge,lazytime''"
| "mount_opts _ = None"

definition lost_found :: string where
  "lost_found = ''^/?lost'' @ [CHR 0x5C] @ ''+found($|/)''"

fun get_internal_dirs :: "fs_mount \<Rightarrow> string list" where
  "get_internal_dirs Ext4 = [lost_found]"
| "get_internal_dirs F2FS = [lost_found]"
| "get_internal_dirs BcacheFS = [lost_found]"
| "get_internal_dirs _ = []"

fun mount_coverage_type :: "fs_mount \<Rightarrow> coverage_type" where
  "mount_coverage_type LittleFS = CoverageLCov"
| "mount_coverage_type _ = CoverageKCov"

fun source_dir :: "fs_mount \<Rightarrow> remote_path option" where
  "source_dir LittleFS = Some ''/root/littlefs-fuse''"
| "source_dir _ = None"

subsection \<open>Mounting\<close>

definition exec_unit ::
    "'s command_interface \<Rightarrow> string \<Rightarrow> command \<Rightarrow> ('s, anyhow, unit) prog" where
  "exec_unit cmdi msg cmd = then_do (exec_context msg (ci_exec cmdi cmd None)) (\<lambda>_. return ())"

definition setup_modprobe :: "'s command_interface \<Rightarrow> ('s, anyhow, unit) prog" where
  "setup_modprobe cmdi =
     exec_unit cmdi (''failed to load module '' @ in_quotes ''brd'')
       (args [''brd'', ''rd_nr=1'', ''rd_size='' @ show_nat RAM_DISK_SIZE] (command_new ''modprobe''))"

definition option_args :: "string \<Rightarrow> string option \<Rightarrow> string list" where
  "option_args flag opts = (case opts of None \<Rightarrow> [] | Some o' \<Rightarrow> [flag, o'])"

definition mount_failed :: "remote_path \<Rightarrow> string" where
  "mount_failed path = ''failed to mount filesystem at '' @ in_quotes path"

definition format_failed :: string where
  "format_failed = ''failed to format device '' @ in_quotes DEVICE"

text \<open>The default method.\<close>

definition default_setup :: "fs_mount \<Rightarrow> 's command_interface \<Rightarrow> remote_path \<Rightarrow> ('s, anyhow, unit) prog" where
  "default_setup fs cmdi path =
     then_do (with_context ''failed to create mountpoint'' (ci_create_dir_all cmdi path)) (\<lambda>_.
     then_do (setup_modprobe cmdi) (\<lambda>_.
     then_do (lift_res (unwrap (mkfs_cmd fs))) (\<lambda>mkfs.
     then_do (exec_unit cmdi ''failed to make filesystem''
       (args (option_args ''-O'' (mkfs_opts fs) @ [DEVICE]) (command_new mkfs))) (\<lambda>_.
     then_do (lift_res (unwrap (mount_t fs))) (\<lambda>t.
     exec_unit cmdi (mount_failed path)
       (args ([''-t'', t] @ option_args ''-o'' (mount_opts fs) @ [DEVICE, path]) (command_new ''mount'')))))))"

definition littlefs_setup :: "'s command_interface \<Rightarrow> remote_path \<Rightarrow> ('s, anyhow, unit) prog" where
  "littlefs_setup cmdi path =
     then_do (with_context ''failed to create mountpoint'' (ci_create_dir_all cmdi path)) (\<lambda>_.
     then_do (setup_modprobe cmdi) (\<lambda>_.
     then_do (lift_res (ok_or [''Source directory with binary missing''] (source_dir LittleFS))) (\<lambda>dir.
     let lfs_path = join dir ''lfs''
     in then_do (exec_unit cmdi format_failed (args [''--format'', DEVICE] (command_new lfs_path))) (\<lambda>_.
        exec_unit cmdi (mount_failed path) (args [DEVICE, path] (command_new lfs_path))))))"

definition bcachefs_setup :: "'s command_interface \<Rightarrow> remote_path \<Rightarrow> ('s, anyhow, unit) prog" where
  "bcachefs_setup cmdi path =
     then_do (with_context ''failed to create mountpoint'' (ci_create_dir_all cmdi path)) (\<lambda>_.
     then_do (setup_modprobe cmdi) (\<lambda>_.
     then_do (exec_unit cmdi format_failed (args [''format'', DEVICE] (command_new ''bcachefs''))) (\<lambda>_.
     exec_unit cmdi (mount_failed path)
       (args [''-t'', ''bcachefs'', DEVICE, path] (command_new ''mount'')))))"

definition mount_setup :: "fs_mount \<Rightarrow> 's command_interface \<Rightarrow> remote_path \<Rightarrow> ('s, anyhow, unit) prog" where
  "mount_setup fs =
     (case fs of LittleFS \<Rightarrow> littlefs_setup | BcacheFS \<Rightarrow> bcachefs_setup | _ \<Rightarrow> default_setup fs)"

definition mount_teardown :: "fs_mount \<Rightarrow> 's command_interface \<Rightarrow> remote_path \<Rightarrow> ('s, anyhow, unit) prog" where
  "mount_teardown fs cmdi path =
     then_do (exec_unit cmdi (''failed to unmount filesystem at '' @ in_quotes path)
       (args [''-fl'', path] (command_new ''umount''))) (\<lambda>_.
     then_do (exec_unit cmdi (''failed to remove module '' @ in_quotes ''brd'')
       (args [''brd''] (command_new ''rmmod''))) (\<lambda>_.
     with_context ''failed to remove mountpoint'' (ci_remove_dir_all cmdi path)))"

subsection \<open>Lookup by name\<close>

text \<open>\<open>to_lowercase\<close>, on ASCII letters.\<close>

definition char_lower :: "char \<Rightarrow> char" where
  "char_lower c = (let n = (of_char c :: nat) in if 65 \<le> n \<and> n \<le> 90 then char_of (n + 32) else c)"

definition to_lowercase :: "string \<Rightarrow> string" where
  "to_lowercase s = map char_lower s"

definition FILESYSTEMS :: "fs_mount list" where
  "FILESYSTEMS = [Ext4, Btrfs, F2FS, Xfs, LittleFS, BcacheFS]"

definition filesystems_available :: "string list" where
  "filesystems_available = map (\<lambda>fs. to_lowercase (mount_name fs)) FILESYSTEMS"

definition mount_from :: "string \<Rightarrow> ('e, fs_mount) res" where
  "mount_from value =
     (case find (\<lambda>fs. to_lowercase (mount_name fs) = to_lowercase value) FILESYSTEMS of
        None \<Rightarrow> Crash Panicked
      | Some fs \<Rightarrow> Ok fs)"

lemma all_filesystems: "fs \<in> set FILESYSTEMS"
  by (cases fs) (simp_all add: FILESYSTEMS_def)

lemma filesystem_names: "distinct filesystems_available"
  by code_simp

lemma mount_from_name:
  "(mount_from value :: ('e, fs_mount) res) = Ok fs \<longleftrightarrow> to_lowercase value = to_lowercase (mount_name fs)"
proof -
  let ?name = "\<lambda>fs. to_lowercase (mount_name fs)"
  have inj: "?name fs = ?name fs' \<Longrightarrow> fs = fs'" for fs fs'
    using filesystem_names all_filesystems unfolding filesystems_available_def
    by (auto simp: distinct_map dest: inj_onD)
  show ?thesis
  proof
    assume "mount_from value = (Ok fs :: ('e, fs_mount) res)"
    then have "find (\<lambda>fs. ?name fs = to_lowercase value) FILESYSTEMS = Some fs"
      by (auto simp: mount_from_def split: option.splits)
    then show "to_lowercase value = ?name fs" by (auto simp: find_Some_iff)
  next
    assume v: "to_lowercase value = ?name fs"
    show "mount_from value = (Ok fs :: ('e, fs_mount) res)"
    proof (cases "find (\<lambda>fs. ?name fs = to_lowercase value) FILESYSTEMS")
      case None
      then show ?thesis using all_filesystems [of fs] v by (auto simp: find_None_iff)
    next
      case (Some fs')
      then have "?name fs' = ?name fs" using v by (auto simp: find_Some_iff)
      then show ?thesis using Some inj by (simp add: mount_from_def)
    qed
  qed
qed

lemma mount_from_accepts:
  "((mount_from value :: ('e, fs_mount) res) \<noteq> Crash Panicked) = (to_lowercase value \<in> set filesystems_available)"
proof -
  have "(\<exists>fs. (mount_from value :: ('e, fs_mount) res) = Ok fs) = (to_lowercase value \<in> set filesystems_available)"
    using all_filesystems by (auto simp: mount_from_name filesystems_available_def)
  moreover have "((mount_from value :: ('e, fs_mount) res) \<noteq> Crash Panicked) = (\<exists>fs. (mount_from value :: ('e, fs_mount) res) = Ok fs)"
    by (auto simp: mount_from_def split: option.splits)
  ultimately show ?thesis by simp
qed

subsection \<open>Mounting runs no test and does not panic\<close>

lemma quiet_default_names: "mkfs_cmd fs = Some c \<Longrightarrow> c \<noteq> ''timeout''"
  by (cases fs) auto

context command_contract
begin

lemma quiet_exec_unit: "cmd_program cmd \<noteq> ''timeout'' \<Longrightarrow> quiet (exec_unit cmdi msg cmd)"
  unfolding exec_unit_def by (intro emits quiet_methods)

lemma quiet_mount_setup: "quiet (mount_setup fs cmdi path)"
proof -
  have default: "quiet (default_setup fs cmdi path)" for fs
    unfolding default_setup_def setup_modprobe_def
    by (intro emits quiet_methods quiet_exec_unit appends.then_do_lift)
      (auto dest: quiet_default_names)
  have "quiet (littlefs_setup cmdi path)" "quiet (bcachefs_setup cmdi path)"
    unfolding littlefs_setup_def bcachefs_setup_def setup_modprobe_def Let_def
    by (intro emits quiet_methods quiet_exec_unit; simp add: join_def)+
  with default show ?thesis by (cases fs) (simp_all add: mount_setup_def)
qed

lemma quiet_mount_teardown: "quiet (mount_teardown fs cmdi path)"
  unfolding mount_teardown_def by (intro emits quiet_methods quiet_exec_unit) simp_all

end

end
