(* ===== verification/Markdown.thy ===== *)
theory Markdown
  imports Trace Dash "HOL-Library.Sublist"
begin

text \<open>
  \<open>markdown.rs\<close> and \<open>reason.rs\<close>: the report on a difference. A \<open>Markdown\<close> and a \<open>Reason\<close> are the text written
  so far. The \<open>Debug\<close> text of a file info is the parameter \<open>show_info\<close>.
\<close>

subsection \<open>Replacing in a string\<close>

text \<open>\<open>str::replace\<close> for a pattern that is not empty: left to right, without overlaps.\<close>

function str_replace :: "string \<Rightarrow> string \<Rightarrow> string \<Rightarrow> string" where
  "str_replace pat new [] = []"
| "str_replace pat new (c # cs) =
     (if pat \<noteq> [] \<and> take (length pat) (c # cs) = pat
      then new @ str_replace pat new (drop (length pat) (c # cs))
      else c # str_replace pat new cs)"
  by pat_completeness auto
termination
  by (relation "measure (\<lambda>(pat, new, s). length s)") (auto simp: Suc_le_eq)

declare str_replace.simps(2) [simp del]

definition backtick :: char where "backtick = CHR 0x60"

definition fence :: string where "fence = [backtick, backtick, backtick]"

subsection \<open>Markdown\<close>

type_synonym markdown = string

definition language_of :: "string \<Rightarrow> string" where
  "language_of lang = str_replace [backtick] ''?'' lang"

definition underlined :: "char \<Rightarrow> string \<Rightarrow> string" where
  "underlined c title =
     (let text = str_replace [newline] '' '' title
      in text @ [newline] @ replicate (length text) c @ [newline, newline])"

definition md_new :: "string \<Rightarrow> markdown" where
  "md_new title = underlined (CHR ''='') title"

definition md_heading :: "string \<Rightarrow> markdown \<Rightarrow> markdown" where
  "md_heading title md = md @ underlined (CHR ''-'') title"

definition md_paragraph :: "string \<Rightarrow> markdown \<Rightarrow> markdown" where
  "md_paragraph body md = md @ str_replace [newline] [newline, newline] (trim body) @ [newline, newline]"

definition md_codeblock :: "string \<Rightarrow> string \<Rightarrow> markdown \<Rightarrow> markdown" where
  "md_codeblock lang code md =
     md @ fence @ lang @ [newline] @ str_replace fence ''???'' code @ [newline] @ fence @ [newline, newline]"

subsection \<open>Reasons\<close>

type_synonym reason = markdown

definition reason_new :: reason where
  "reason_new = md_new ''Reason''"

definition add_trace_rows :: "trace_row list \<Rightarrow> reason \<Rightarrow> reason" where
  "add_trace_rows rws md =
     md_codeblock (language_of ''csv'')
       (trim (trace_header @ [newline] @ concat (map (\<lambda>row. tr_source row @ [newline]) rws))) md"

fun add_one_trace_diff :: "trace_diff \<Rightarrow> reason \<Rightarrow> reason" where
  "add_one_trace_diff (TraceRowIsDifferent row row') md =
     md_codeblock (language_of ''csv'')
       (trace_header @ [newline] @ tr_source row @ [newline] @ tr_source row') md"
| "add_one_trace_diff DifferentLength md = md_paragraph ''Traces have different lengths'' md"

definition add_trace_diff :: "trace_diff list \<Rightarrow> reason \<Rightarrow> reason" where
  "add_trace_diff ds md = foldl (\<lambda>md d. add_one_trace_diff d md) md ds"

fun add_one_dash_diff :: "(file_info \<Rightarrow> string) \<Rightarrow> file_diff \<Rightarrow> reason \<Rightarrow> reason" where
  "add_one_dash_diff show_info (FileIsDifferent f f') md =
     md_codeblock (language_of ''json'') (show_info f @ [newline] @ show_info f')
       (md_paragraph ''File with different hash:'' md)"
| "add_one_dash_diff show_info (OnlyOneExists f) md =
     md_codeblock (language_of ''json'') (show_info f) (md_paragraph ''File exists only in one FS:'' md)"

definition add_dash_diff :: "(file_info \<Rightarrow> string) \<Rightarrow> file_diff list \<Rightarrow> reason \<Rightarrow> reason" where
  "add_dash_diff show_info ds md = foldl (\<lambda>md d. add_one_dash_diff show_info d md) md ds"

subsection \<open>A code block cannot be closed from within\<close>

lemma str_replace_char: "str_replace [c] [d] s = map (\<lambda>x. if x = c then d else x) s"
  by (induction s) (simp_all add: str_replace.simps(2))

lemma replaced_fence_start:
  "prefix [backtick] (str_replace fence ''???'' s) \<Longrightarrow> \<exists>s'. s = backtick # s' \<and>
     str_replace fence ''???'' s = backtick # str_replace fence ''???'' s' \<and> \<not> prefix fence s"
  by (cases s) (auto simp: str_replace.simps(2) backtick_def fence_def prefix_def take_Suc_conv_app_nth
      split: if_splits)

lemma no_fence_at_start: "\<not> prefix fence (str_replace fence ''???'' s)"
proof
  let ?r = "str_replace fence ''???''"
  assume f: "prefix fence (?r s)"
  then have "prefix [backtick] (?r s)" by (auto simp: fence_def prefix_def)
  then obtain s1 where s: "s = backtick # s1" "?r s = backtick # ?r s1" "\<not> prefix fence s"
    using replaced_fence_start by blast
  then have "prefix [backtick, backtick] (?r s1)" using f by (simp add: fence_def)
  then obtain s2 where s1: "s1 = backtick # s2" "?r s1 = backtick # ?r s2"
    using replaced_fence_start [of s1] by (auto simp: prefix_def)
  then have "prefix [backtick] (?r s2)" using f s by (simp add: fence_def)
  then obtain s3 where "s2 = backtick # s3" using replaced_fence_start [of s2] by blast
  then show False using s s1 by (simp add: fence_def)
qed

lemma no_fence_inside: "\<not> sublist fence (str_replace fence ''???'' s)"
proof (induction "fence" "''???''" s rule: str_replace.induct)
  case (2 c cs)
  have start: "\<not> prefix fence (str_replace fence ''???'' (c # cs))" by (rule no_fence_at_start)
  show ?case
  proof (cases "take (length fence) (c # cs) = fence")
    case True
    have q: "CHR ''?'' \<noteq> backtick" by (simp add: backtick_def)
    have "\<not> sublist fence (''???'' @ t)" if "\<not> sublist fence t" for t
      using that q by (auto simp: sublist_Cons_right fence_def)
    then show ?thesis using True 2(1) by (simp add: str_replace.simps(2) fence_def)
  next
    case False
    then show ?thesis using 2(2) start
      by (simp add: str_replace.simps(2) sublist_Cons_right)
  qed
qed (simp add: fence_def)

lemma replaced_length: "length (str_replace fence ''???'' s) = length s"
proof (induction "fence" "''???''" s rule: str_replace.induct)
  case (2 c cs)
  show ?case
  proof (cases "take (length fence) (c # cs) = fence")
    case True
    then have "length (c # cs) \<ge> 3" by (metis length_take fence_def length_Cons list.size(3) min.cobounded1 numeral_3_eq_3)
    then show ?thesis using 2(1) True by (simp add: str_replace.simps(2) fence_def)
  qed (use 2(2) in \<open>simp add: str_replace.simps(2)\<close>)
qed simp

lemma replaced_nothing: "\<not> sublist fence s \<Longrightarrow> str_replace fence ''???'' s = s"
proof (induction "fence" "''???''" s rule: str_replace.induct)
  case (2 c cs)
  have "take (length fence) (c # cs) \<noteq> fence"
    using 2(3) by (metis prefix_imp_sublist take_is_prefix)
  moreover have "\<not> sublist fence cs" using 2(3) by (simp add: sublist_Cons_right)
  ultimately show ?case using 2(2) by (simp add: str_replace.simps(2))
qed simp

lemma language_no_backtick: "backtick \<notin> set (language_of lang)"
  unfolding language_of_def
proof (induction "[backtick]" "''?''" lang rule: str_replace.induct)
  case (2 c cs)
  then show ?case by (cases "c = backtick") (auto simp: str_replace.simps(2) backtick_def)
qed simp

end
