(* ===== verification/Encode.thy ===== *)
theory Encode
  imports Mutator "HOL-Library.Sublist"
begin

text \<open>
  \<open>abstract_fs/encode.rs\<close>: a workload as the C program that the executor runs. One variable \<open>fd_i\<close> is
  declared for every descriptor up to the largest one an \<open>Open\<close> assigns.
\<close>

definition quote :: string where
  "quote = [CHR 0x22]"

definition nl :: string where
  "nl = [CHR 0x0A]"

definition descriptor_to_var :: "fd_index \<Rightarrow> string" where
  "descriptor_to_var des = ''fd_'' @ show_nat (fd_ix des)"

definition encode_mode :: "mode \<Rightarrow> string" where
  "encode_mode m = (if m = [] then show_nat 0 else str_join '' | '' (map show_mode_flag m))"

definition quoted :: "string \<Rightarrow> string" where
  "quoted s = quote @ s @ quote"

fun encode_op :: "operation \<Rightarrow> string" where
  "encode_op (OpCreate path m) = ''do_create('' @ quoted path @ '', '' @ encode_mode m @ '');'' @ nl"
| "encode_op (OpMkDir path m) = ''do_mkdir('' @ quoted path @ '', '' @ encode_mode m @ '');'' @ nl"
| "encode_op (OpRemove path) = ''do_remove('' @ quoted path @ '');'' @ nl"
| "encode_op (OpHardlink old_path new_path) =
     ''do_hardlink('' @ quoted old_path @ '', '' @ quoted new_path @ '');'' @ nl"
| "encode_op (OpRename old_path new_path) =
     ''do_rename('' @ quoted old_path @ '', '' @ quoted new_path @ '');'' @ nl"
| "encode_op (OpOpen path des) = descriptor_to_var des @ '' = do_open('' @ quoted path @ '');'' @ nl"
| "encode_op (OpClose des) = ''do_close('' @ descriptor_to_var des @ '');'' @ nl"
| "encode_op (OpRead des sz) = ''do_read('' @ descriptor_to_var des @ '', '' @ show_u64 sz @ '');'' @ nl"
| "encode_op (OpWrite des src_offset sz) =
     ''do_write('' @ descriptor_to_var des @ '', '' @ show_u64 src_offset @ '', '' @ show_u64 sz @ '');'' @ nl"
| "encode_op (OpFSync des) = ''do_fsync('' @ descriptor_to_var des @ '');'' @ nl"
| "encode_op (OpSymlink tgt linkpath) =
     ''do_symlink('' @ quoted tgt @ '', '' @ quoted linkpath @ '');'' @ nl"

text \<open>The loop that finds how many descriptors there are.\<close>

fun descriptors_n :: "operation list \<Rightarrow> nat \<Rightarrow> nat" where
  "descriptors_n [] n = n"
| "descriptors_n (OpOpen path des # os) n = descriptors_n os (max n (fd_ix des + 1))"
| "descriptors_n (op # os) n = descriptors_n os n"

definition encode_declarations :: "nat \<Rightarrow> string" where
  "encode_declarations n =
     (if n > 0 then nl @ ''int '' @ str_join '', '' (map (\<lambda>it. ''fd_'' @ show_nat it) [0..<n]) @ '';'' @ nl @ nl
      else nl @ ''// no descriptors'' @ nl @ nl)"

definition encode_c :: "workload \<Rightarrow> string" where
  "encode_c w =
     ''#include '' @ quoted ''executor.h'' @ nl
     @ encode_declarations (descriptors_n (ops w) 0)
     @ ''void test_workload()'' @ nl @ ''{'' @ nl
     @ concat (map encode_op (ops w)) @ ''}''"

subsection \<open>Every variable is declared before it is used\<close>

fun op_fd :: "operation \<Rightarrow> fd_index option" where
  "op_fd (OpOpen _ des) = Some des"
| "op_fd (OpClose des) = Some des"
| "op_fd (OpRead des _) = Some des"
| "op_fd (OpWrite des _ _) = Some des"
| "op_fd (OpFSync des) = Some des"
| "op_fd _ = None"

definition opened_fds :: "operation list \<Rightarrow> fd_index list" where
  "opened_fds os = concat (map (\<lambda>op. case op of OpOpen _ des \<Rightarrow> [des] | _ \<Rightarrow> []) os)"

lemma descriptors_n_mono: "n \<le> descriptors_n os n"
proof (induction os n rule: descriptors_n.induct)
  case (2 path des os n)
  then show ?case by (simp add: max.bounded_iff)
qed simp_all

lemma descriptors_n_opened: "des \<in> set (opened_fds os) \<Longrightarrow> fd_ix des < descriptors_n os n"
proof (induction os n rule: descriptors_n.induct)
  case (2 path d os n)
  then show ?case using descriptors_n_mono [of "max n (fd_ix d + 1)" os]
    by (auto simp: opened_fds_def)
qed (auto simp: opened_fds_def)

text \<open>
  The descriptors of a file system are those its recording opened, in order; an operation on a
  descriptor needs one of them.
\<close>

definition fds_match :: "abstract_fs \<Rightarrow> bool" where
  "fds_match fs \<longleftrightarrow>
     opened_fds (ops (recording fs)) = map FileDescriptorIndex [0..<length (descriptors fs)]
     \<and> (\<forall>op \<in> set (ops (recording fs)). \<forall>des. op_fd op = Some des \<longrightarrow> fd_ix des < length (descriptors fs))"

lemma opened_fds_append [simp]: "opened_fds (xs @ ys) = opened_fds xs @ opened_fds ys"
  by (simp add: opened_fds_def)

lemma open_descriptor_range: "open_descriptor fs d = Ok e \<Longrightarrow> fd_ix d < length (descriptors fs)"
  by (cases e) (simp add: open_descriptor_Ok opened_as_def)

text \<open>One operation: it keeps the descriptors, or opens the next one.\<close>

lemma apply_op_fds:
  assumes "apply_op op fs = (Ok (), fs')"
  shows "\<exists>op'. ops (recording fs') = ops (recording fs) @ [op']
    \<and> (\<forall>des. op_fd op' = Some des \<longrightarrow> fd_ix des < length (descriptors fs'))
    \<and> (opened_fds [op'] = [] \<and> length (descriptors fs') = length (descriptors fs)
       \<or> opened_fds [op'] = [FileDescriptorIndex (length (descriptors fs))]
         \<and> length (descriptors fs') = Suc (length (descriptors fs)))"
proof (cases op)
  case (OpMkDir p m)
  then show ?thesis using assms
    by (auto simp: forget_Ok opened_fds_def elim!: mkdir_spec)
next
  case (OpCreate p m)
  then show ?thesis using assms
    by (auto simp: forget_Ok opened_fds_def elim!: create_spec)
next
  case (OpRemove p)
  then show ?thesis using assms by (auto simp: opened_fds_def elim!: remove_spec)
next
  case (OpHardlink p q)
  then show ?thesis using assms by (auto simp: forget_Ok opened_fds_def elim!: hardlink_spec)
next
  case (OpSymlink t p)
  then show ?thesis using assms by (auto simp: forget_Ok opened_fds_def elim!: make_symlink_spec)
next
  case (OpRename p q)
  then show ?thesis using assms
    by (auto simp: forget_Ok opened_fds_def rename_def Let_def split: if_splits)
next
  case (OpOpen p d)
  then show ?thesis using assms
    by (auto simp: forget_Ok opened_fds_def open_file_def Let_def split: if_splits)
next
  case (OpClose d)
  then show ?thesis using assms
    by (auto simp: opened_fds_def close_fd_def dest: open_descriptor_range)
next
  case (OpRead d n)
  then show ?thesis using assms
    by (auto simp: forget_Ok opened_fds_def read_fd_def Let_def dest: open_descriptor_range split: if_splits)
next
  case (OpWrite d s n)
  then show ?thesis using assms
    by (auto simp: opened_fds_def write_fd_def Let_def dest: open_descriptor_range split: if_splits)
next
  case (OpFSync d)
  then show ?thesis using assms
    by (auto simp: opened_fds_def fsync_fd_def dest: open_descriptor_range)
qed

lemma apply_op_fds_match:
  assumes "fds_match fs" and "apply_op op fs = (Ok (), fs')"
  shows "fds_match fs'"
  using apply_op_fds [OF assms(2)] assms(1) unfolding fds_match_def
  by (auto split: if_splits) (metis less_SucI)+

lemma replay_ops_fds_match:
  "replay_ops os fs = (Ok (), fs') \<Longrightarrow> fds_match fs \<Longrightarrow> fds_match fs'"
proof (induction os arbitrary: fs)
  case (Cons op os)
  obtain r fs1 where run: "apply_op op fs = (r, fs1)" by (cases "apply_op op fs")
  then have "r = Ok ()" using Cons.prems(1) by (cases r) auto
  then show ?case using Cons run apply_op_fds_match by auto
qed simp

lemma recorded_fds_declared:
  assumes "replay w fs_new = (Ok (), fs)" and "recording fs = w"
    and "op \<in> set (ops w)" and "op_fd op = Some des"
  shows "fd_ix des < descriptors_n (ops w) 0"
proof -
  have "fds_match fs_new" by (simp add: fds_match_def fs_new_def opened_fds_def)
  then have m: "fds_match fs"
    using assms(1) replay_ops_fds_match unfolding replay_def by blast
  then have "fd_ix des < length (descriptors fs)" using assms(2-4) by (auto simp: fds_match_def)
  then have "FileDescriptorIndex (fd_ix des) \<in> FileDescriptorIndex ` {0..<length (descriptors fs)}"
    by (intro imageI) simp
  then have "FileDescriptorIndex (fd_ix des) \<in> set (opened_fds (ops w))"
    using m assms(2) by (simp add: fds_match_def del: fd_index.collapse)
  then show ?thesis
    using descriptors_n_opened [of "FileDescriptorIndex (fd_ix des)" "ops w" 0] by simp
qed

text \<open>Exactly as many variables are declared as descriptors are opened.\<close>

lemma recorded_fds_exact:
  assumes "replay w fs_new = (Ok (), fs)" and "recording fs = w"
  shows "descriptors_n (ops w) 0 = length (descriptors fs)"
proof -
  have "fds_match fs_new" by (simp add: fds_match_def fs_new_def opened_fds_def)
  then have m: "fds_match fs"
    using assms(1) replay_ops_fds_match unfolding replay_def by blast
  have bound: "descriptors_n os n \<le> max n k" if "\<forall>d \<in> set (opened_fds os). fd_ix d < k" for os n k
    using that
  proof (induction os n rule: descriptors_n.induct)
    case (2 path d os n)
    then show ?case by (auto simp: opened_fds_def max_def split: if_splits)
  qed (auto simp: opened_fds_def)
  have "descriptors_n (ops w) 0 \<le> length (descriptors fs)"
    using bound [of "ops w" "length (descriptors fs)" 0] m assms(2) by (auto simp: fds_match_def)
  moreover have "length (descriptors fs) \<le> descriptors_n (ops w) 0"
  proof (cases "length (descriptors fs)")
    case (Suc k)
    then have "FileDescriptorIndex k \<in> set (opened_fds (ops w))"
      using m assms(2) by (simp add: fds_match_def)
    then show ?thesis
      using descriptors_n_opened [of "FileDescriptorIndex k" "ops w" 0] Suc by simp
  qed simp
  ultimately show ?thesis by simp
qed

text \<open>A descriptor is opened by the operation that uses it or by one before it.\<close>

definition opened_before_use :: "operation list \<Rightarrow> bool" where
  "opened_before_use os \<longleftrightarrow>
     (\<forall>xs op ys des. os = xs @ op # ys \<longrightarrow> op_fd op = Some des \<longrightarrow> des \<in> set (opened_fds (xs @ [op])))"

lemma opened_before_use_snoc:
  assumes "opened_before_use os" and "\<And>des. op_fd op = Some des \<Longrightarrow> des \<in> set (opened_fds (os @ [op]))"
  shows "opened_before_use (os @ [op])"
  unfolding opened_before_use_def
proof (intro allI impI)
  fix xs op1 ys des
  assume "os @ [op] = xs @ op1 # ys" "op_fd op1 = Some des"
  then show "des \<in> set (opened_fds (xs @ [op1]))"
    using assms unfolding opened_before_use_def by (cases ys rule: rev_cases) auto
qed

lemma replay_ops_opened_before_use:
  "replay_ops os fs = (Ok (), fs') \<Longrightarrow> fds_match fs \<Longrightarrow> opened_before_use (ops (recording fs)) \<Longrightarrow>
   opened_before_use (ops (recording fs'))"
proof (induction os arbitrary: fs)
  case (Cons op os)
  obtain r fs1 where run: "apply_op op fs = (r, fs1)" by (cases "apply_op op fs")
  then have run: "apply_op op fs = (Ok (), fs1)" using Cons.prems(1) by (cases r) auto
  have match: "fds_match fs1" using Cons.prems(2) run by (rule apply_op_fds_match)
  obtain op' where op': "ops (recording fs1) = ops (recording fs) @ [op']"
    "\<forall>des. op_fd op' = Some des \<longrightarrow> fd_ix des < length (descriptors fs1)"
    using apply_op_fds [OF run] by blast
  have "des \<in> set (opened_fds (ops (recording fs1)))" if "op_fd op' = Some des" for des
  proof -
    have "FileDescriptorIndex (fd_ix des) \<in> FileDescriptorIndex ` {0..<length (descriptors fs1)}"
      using op'(2) that by (intro imageI) simp
    then show ?thesis using match by (simp add: fds_match_def)
  qed
  then have "opened_before_use (ops (recording fs1))"
    using Cons.prems(3) unfolding op'(1) by (intro opened_before_use_snoc) auto
  then show ?case using Cons.IH [OF _ match] Cons.prems(1) run by simp
qed simp

lemma recorded_opened_before_use:
  assumes "replay w fs_new = (Ok (), fs)" and "recording fs = w"
  shows "opened_before_use (ops w)"
proof -
  have "fds_match fs_new" "opened_before_use (ops (recording fs_new))"
    by (simp_all add: fds_match_def fs_new_def opened_fds_def opened_before_use_def)
  then show ?thesis
    using assms replay_ops_opened_before_use unfolding replay_def by blast
qed

text \<open>The declared variables are those of the opened descriptors, each once.\<close>

lemma recorded_variables:
  assumes "replay w fs_new = (Ok (), fs)" and "recording fs = w"
  shows "map (\<lambda>it. ''fd_'' @ show_nat it) [0..<descriptors_n (ops w) 0] = map descriptor_to_var (opened_fds (ops w))"
proof -
  have "fds_match fs_new" by (simp add: fds_match_def fs_new_def opened_fds_def)
  then have "fds_match fs" using assms(1) replay_ops_fds_match unfolding replay_def by blast
  then show ?thesis
    using recorded_fds_exact [OF assms] assms(2) by (simp add: fds_match_def descriptor_to_var_def)
qed

lemma distinct_variables: "distinct (map (\<lambda>it. ''fd_'' @ show_nat it) [0..<n])"
  by (simp add: distinct_map inj_on_def show_nat_inject)

lemma op_fd_in_text: "op_fd op = Some des \<Longrightarrow> sublist (descriptor_to_var des) (encode_op op)"
  by (cases op) (auto simp: sublist_Cons_right)

end
