(* ===== verification/Save.thy ===== *)
theory Save
  imports Mount Markdown Encode
begin

text \<open>
  \<open>compile.rs\<close>, \<open>save.rs\<close> and \<open>fuzzing/outcome.rs\<close>: compiling the test program of a workload, what the run of
  a test yields, and the files of a report.
\<close>

subsection \<open>Outcomes\<close>

record completed =
  co_stdout :: string
  co_stderr :: string
  co_dir :: local_path

datatype outcome = OutcomeCompleted completed | OutcomeTimedOut | OutcomePanicked

record diff_completed =
  dc_dash_diff :: "file_diff list"
  dc_trace_diff :: "trace_diff list"
  dc_fst_outcome :: completed
  dc_snd_outcome :: completed
  dc_fst_trace :: trace
  dc_snd_trace :: trace

definition dash_interesting :: "diff_completed \<Rightarrow> bool" where
  "dash_interesting diff \<longleftrightarrow> dc_dash_diff diff \<noteq> []"

definition trace_interesting :: "diff_completed \<Rightarrow> bool" where
  "trace_interesting diff \<longleftrightarrow> dc_trace_diff diff \<noteq> []"

definition any_interesting :: "diff_completed \<Rightarrow> bool" where
  "any_interesting diff \<longleftrightarrow> dash_interesting diff \<or> trace_interesting diff"

datatype diff_outcome =
    DiffCompleted diff_completed
  | FirstTimedOut string u8
  | SecondTimedOut string u8
  | FirstPanicked string
  | SecondPanicked string

context state_preorder
begin

lemma outcome_cases:
  "(\<And>c. steps R (f c)) \<Longrightarrow> steps R m \<Longrightarrow> steps R m' \<Longrightarrow>
   steps R (case out of OutcomeCompleted c \<Rightarrow> f c | OutcomeTimedOut \<Rightarrow> m | OutcomePanicked \<Rightarrow> m')"
  by (cases out) simp_all

end

subsection \<open>Compilation\<close>

definition TEST_SOURCE_FILENAME :: string where "TEST_SOURCE_FILENAME = ''test.c''"

definition TEST_EXE_FILENAME :: string where "TEST_EXE_FILENAME = ''test.out''"

definition compile :: "'s command_interface \<Rightarrow> remote_path \<Rightarrow> workload \<Rightarrow> ('s, anyhow, remote_path) prog" where
  "compile cmdi dir w =
     (let test_path = join dir TEST_SOURCE_FILENAME;
          test_exec = join dir TEST_EXE_FILENAME
      in then_do (with_context (''failed to write test source at '' @ in_quotes test_path)
           (ci_write cmdi test_path (encode_c w))) (\<lambda>_.
         then_do (exec_context ''failed to compile test''
           (ci_exec cmdi (args [''-C'', dir] (command_new ''make'')) None)) (\<lambda>_.
         return test_exec)))"

subsection \<open>Saving\<close>

definition TEST_FILE_NAME :: string where "TEST_FILE_NAME = ''test.json''"

definition TRACE_FILENAME :: string where "TRACE_FILENAME = ''trace.csv''"

definition save_testcase ::
    "('z world_scheme) command_interface \<Rightarrow> local_path \<Rightarrow> remote_path option \<Rightarrow> workload \<Rightarrow>
     ('z world_scheme, anyhow, unit) prog" where
  "save_testcase cmdi output_dir binary_path input =
     (let source_path = join output_dir TEST_SOURCE_FILENAME;
          binary_copy_path = join output_dir TEST_EXE_FILENAME;
          json_path = join output_dir TEST_FILE_NAME
      in then_do (with_context (''failed to save source file to '' @ in_quotes source_path)
           (call_unit (WriteFile source_path (encode_c input)))) (\<lambda>_.
         then_do (case binary_path of
             None \<Rightarrow> return ()
           | Some path \<Rightarrow>
               with_context (''failed to copy binary test executable from '' @ in_quotes path
                   @ '' to '' @ in_quotes binary_copy_path)
                 (ci_copy_from_remote cmdi path binary_copy_path)) (\<lambda>_.
         then_do (asks show_workload) (\<lambda>show_json.
         then_do (with_context (''failed to copy workload as json at '' @ in_quotes json_path)
           (lift_res (of_reply (show_json input)))) (\<lambda>json.
         call_unit (WriteFile json_path json))))))"

definition save_completed ::
    "local_path \<Rightarrow> string \<Rightarrow> completed \<Rightarrow> ('z world_scheme, anyhow, unit) prog" where
  "save_completed output_dir fs_name0 out =
     (let fs_name = to_lowercase fs_name0;
          trace_path = join (co_dir out) TRACE_FILENAME;
          trace_copy_path = join output_dir (fs_name @ ''.'' @ TRACE_FILENAME);
          stdout_path = join output_dir (fs_name @ ''.stdout.txt'');
          stderr_path = join output_dir (fs_name @ ''.stderr.txt'')
      in then_do (with_context (''failed to copy trace from '' @ in_quotes trace_path
             @ '' to '' @ in_quotes trace_copy_path) (call_unit (CopyFile trace_path trace_copy_path))) (\<lambda>_.
         then_do (with_context (''failed to save stdout at '' @ in_quotes stdout_path)
           (call_unit (WriteFile stdout_path (co_stdout out)))) (\<lambda>_.
         with_context (''failed to save stderr at '' @ in_quotes stderr_path)
           (call_unit (WriteFile stderr_path (co_stderr out))))))"

definition save_reason :: "local_path \<Rightarrow> reason \<Rightarrow> ('z world_scheme, anyhow, unit) prog" where
  "save_reason output_dir why =
     (let reason_path = join output_dir ''reason.md''
      in with_context (''failed to save source file to '' @ in_quotes reason_path)
           (call_unit (WriteFile reason_path why)))"

subsection \<open>Saving runs no test\<close>

lemma quiet_save_completed: "quiet (save_completed output_dir fs_name out)"
  unfolding save_completed_def Let_def by (intro emits) simp_all

lemma quiet_save_reason: "quiet (save_reason output_dir why)"
  unfolding save_reason_def Let_def by (intro emits) simp_all

context command_contract
begin

lemma quiet_compile: "quiet (compile cmdi dir w)"
  unfolding compile_def Let_def by (intro emits quiet_methods) simp_all

lemma quiet_save_testcase: "quiet (save_testcase cmdi output_dir binary_path input)"
  unfolding save_testcase_def Let_def by (intro emits quiet_methods) simp_all

end

end
