(* ===== verification/Harness.thy ===== *)
theory Harness
  imports Save
begin

text \<open>
  \<open>fuzzing/observer/\<close> and \<open>fuzzing/harness.rs\<close>: one run of a test on one file system.

  The observers are shared: the objective of the runner reads the hash and the listing that an observer
  of a harness has stored. So the dash observers live in the field \<open>observers_heap\<close> of the state and are
  named by their position (\<open>DashRef\<close>); the observer of LCov has no state of its own.

  The relation \<open>rig_runs n k\<close> says that a program runs the test \<open>n\<close> times, sends \<open>k\<close> commands to the
  monitor and changes nothing but
  the calls made and the observers.
\<close>

subsection \<open>Observers\<close>

record dash_observer_state = dash_observer +
  do_dash_path :: "remote_path option"
  do_fs_dir :: remote_path
  do_patterns :: "string list"
  do_flags :: "string list"

datatype observer_ref = DashRef nat | LCovRef remote_path

record rig = world +
  observers_heap :: "dash_observer_state list"

fun show_parse_int_error :: "parse_int_error \<Rightarrow> string" where
  "show_parse_int_error EmptyInt = ''cannot parse integer from empty string''"
| "show_parse_int_error InvalidDigit = ''invalid digit found in string''"
| "show_parse_int_error PosOverflow = ''number too large to fit in target type''"
| "show_parse_int_error NegOverflow = ''number too small to fit in target type''"

definition dash_flags :: "dash_config \<Rightarrow> string list" where
  "dash_flags conf =
     (if dash_mode conf then [''-m''] else []) @ (if dash_size conf then [''-s''] else [])
     @ (if dash_dir_hardlink conf then [''-d''] else []) @ (if dash_file_hardlink conf then [''-f''] else [])"

text \<open>\<open>DashObserver::create\<close>, in a release build.\<close>

definition dash_observer_create ::
    "config \<Rightarrow> ('z world_scheme) command_interface \<Rightarrow> remote_path \<Rightarrow> string list \<Rightarrow>
     ('z world_scheme, anyhow, dash_observer_state) prog" where
  "dash_observer_create conf cmdi fs_dir patterns =
     then_do
       (if dash_enabled (cf_dash conf) then
          (let remote_path = remote_new_tmp ''dash''
           in then_do (with_context ''failed to copy dash binary''
                (ci_copy_to_remote cmdi (release_binary_path (cf_dash conf)) remote_path)) (\<lambda>_.
              return (Some remote_path)))
        else then_do (log_message LogWarn ''dash (differential abstract state hash) observer is disabled'')
               (\<lambda>_. return None)) (\<lambda>dash_path.
     then_do (asks regex_match) (\<lambda>matches.
     return \<lparr>do_hash = 0, do_fs_state = [], do_fs_internal = matches patterns, do_dash_path = dash_path,
       do_fs_dir = fs_dir, do_patterns = patterns, do_flags = dash_flags (cf_dash conf)\<rparr>))"

definition heap_get :: "nat \<Rightarrow> ('z rig_scheme, 'e, dash_observer_state) prog" where
  "heap_get i = (\<lambda>s. Some (unwrap (vec_get (observers_heap s) i), s))"

definition heap_update ::
    "nat \<Rightarrow> (dash_observer_state \<Rightarrow> dash_observer_state) \<Rightarrow> ('z rig_scheme, 'e, unit) prog" where
  "heap_update i f = modify (\<lambda>s. s\<lparr>observers_heap := (observers_heap s)[i := f (observers_heap s ! i)]\<rparr>)"

definition dash_command :: "dash_observer_state \<Rightarrow> remote_path \<Rightarrow> remote_path \<Rightarrow> command" where
  "dash_command ob dash_path output_path =
     args ([''-t'', do_fs_dir ob, ''-o'', output_path] @ do_flags ob
       @ concat (map (\<lambda>pat. [''-e'', pat]) (do_patterns ob))) (command_new dash_path)"

definition dash_post_exec ::
    "nat \<Rightarrow> ('z rig_scheme) command_interface \<Rightarrow> remote_path \<Rightarrow> ('z rig_scheme, anyhow, unit) prog" where
  "dash_post_exec i cmdi output_dir =
     then_do (heap_get i) (\<lambda>ob.
     case do_dash_path ob of
       None \<Rightarrow> return ()
     | Some dash_path \<Rightarrow>
         (let output_path = join output_dir ''dash''
          in then_do (exec_context ''failed to execute Dash''
               (ci_exec cmdi (dash_command ob dash_path output_path) None)) (\<lambda>out.
             then_do (with_context ''failed to convert Dash stdout to string''
               (lift_res (from_utf8 (out_stdout out)))) (\<lambda>hash_text.
             then_do (lift_res (map_err
               (\<lambda>e. [''failed to parse hash '' @ in_quotes hash_text, show_parse_int_error e])
               (parse_int 0 (2 ^ 64 - 1) (trim hash_text)))) (\<lambda>hash.
             then_do (heap_update i (\<lambda>ob. ob\<lparr>do_hash := word_of_int hash\<rparr>)) (\<lambda>_.
             then_do (with_context (''failed to read Dash output file at '' @ in_quotes output_path)
               (ci_read_to_string cmdi output_path)) (\<lambda>fs_state_text.
             then_do (asks parse_file_infos) (\<lambda>parse.
             then_do (with_context ''failed to parse Dash output file''
               (lift_res (of_reply (parse fs_state_text)))) (\<lambda>fs_state.
             heap_update i (\<lambda>ob. ob\<lparr>do_fs_state := fs_state\<rparr>)))))))))) "

definition LCOV_INFO_FILE_NAME :: string where "LCOV_INFO_FILE_NAME = ''lcov.info''"

definition lcov_pre_exec ::
    "remote_path \<Rightarrow> 's command_interface \<Rightarrow> remote_path \<Rightarrow> ('s, anyhow, unit) prog" where
  "lcov_pre_exec src cmdi output_dir =
     then_do (exec_unit cmdi ''failed to generate lcov tracefile''
       (args [''--zerocounters'', ''--directory'', src] (command_new ''lcov''))) (\<lambda>_.
     exec_unit cmdi ''failed to capture initial zero lcov coverage data''
       (args [''--capture'', ''--initial'', ''--directory'', src, ''--output-file'',
          join output_dir LCOV_INFO_FILE_NAME] (command_new ''lcov'')))"

definition lcov_post_teardown ::
    "remote_path \<Rightarrow> 's command_interface \<Rightarrow> remote_path \<Rightarrow> ('s, anyhow, unit) prog" where
  "lcov_post_teardown src cmdi output_dir =
     exec_unit cmdi ''failed to capture lcov coverage data''
       (args [''--capture'', ''--directory'', src, ''--output-file'', join output_dir LCOV_INFO_FILE_NAME]
          (command_new ''lcov''))"

definition read_lcov :: "completed \<Rightarrow> ('z world_scheme, anyhow, string) prog" where
  "read_lcov out = with_context ''failed to read lcov file'' (call_read (join (co_dir out) LCOV_INFO_FILE_NAME))"

text \<open>The methods of the trait; those an observer does not define do nothing.\<close>

fun observer_pre_exec ::
    "('z rig_scheme) command_interface \<Rightarrow> remote_path \<Rightarrow> observer_ref \<Rightarrow> ('z rig_scheme, anyhow, unit) prog" where
  "observer_pre_exec cmdi output_dir (DashRef i) = return ()"
| "observer_pre_exec cmdi output_dir (LCovRef src) = lcov_pre_exec src cmdi output_dir"

fun observer_post_exec ::
    "('z rig_scheme) command_interface \<Rightarrow> remote_path \<Rightarrow> observer_ref \<Rightarrow> ('z rig_scheme, anyhow, unit) prog" where
  "observer_post_exec cmdi output_dir (DashRef i) = dash_post_exec i cmdi output_dir"
| "observer_post_exec cmdi output_dir (LCovRef src) = return ()"

fun observer_post_teardown ::
    "('z rig_scheme) command_interface \<Rightarrow> remote_path \<Rightarrow> observer_ref \<Rightarrow> ('z rig_scheme, anyhow, unit) prog" where
  "observer_post_teardown cmdi output_dir (DashRef i) = return ()"
| "observer_post_teardown cmdi output_dir (LCovRef src) = lcov_post_teardown src cmdi output_dir"

definition observer_skip_exec :: "observer_ref \<Rightarrow> ('s, 'e, unit) prog" where
  "observer_skip_exec ob = return ()"

subsection \<open>The harness\<close>

record harness =
  h_fs_mount :: fs_mount
  h_fs_dir :: remote_path
  h_exec_dir :: remote_path
  h_outcome_dir :: local_path
  h_timeout :: u8
  h_observers :: "observer_ref list"

definition harness_new ::
    "fs_mount \<Rightarrow> remote_path \<Rightarrow> remote_path \<Rightarrow> local_path \<Rightarrow> u8 \<Rightarrow> observer_ref list \<Rightarrow> harness" where
  "harness_new fs_mnt fs_dir exec_dir outcome_dir timeout observers =
     \<lparr>h_fs_mount = fs_mnt, h_fs_dir = fs_dir, h_exec_dir = exec_dir, h_outcome_dir = outcome_dir,
      h_timeout = timeout, h_observers = observers\<rparr>"

definition harness_teardown ::
    "harness \<Rightarrow> 's command_interface \<Rightarrow> ('s, anyhow, unit) prog" where
  "harness_teardown h cmdi =
     with_context (''failed to teardown fs '' @ in_quotes (mount_name (h_fs_mount h)) @ '' at ''
         @ in_quotes (h_fs_dir h))
       (mount_teardown (h_fs_mount h) cmdi (h_fs_dir h))"

definition harness_prepare ::
    "harness \<Rightarrow> ('z rig_scheme) command_interface \<Rightarrow> ('z rig_scheme) supervisor \<Rightarrow> ('z rig_scheme, anyhow, unit) prog" where
  "harness_prepare h cmdi sv =
     then_do (ignore_error (ci_remove_dir_all cmdi (h_exec_dir h))) (\<lambda>_.
     then_do (with_context ''failed to setup exec directory'' (ci_create_dir_all cmdi (h_exec_dir h))) (\<lambda>_.
     then_do (sv_reset_events sv) (\<lambda>_.
     then_do (with_context (''failed to setup fs '' @ in_quotes (mount_name (h_fs_mount h)) @ '' at ''
         @ in_quotes (h_fs_dir h)) (mount_setup (h_fs_mount h) cmdi (h_fs_dir h))) (\<lambda>_.
     for_each (h_observers h) (\<lambda>ob.
       with_context ''failed to call observer pre-execution callback''
         (observer_pre_exec cmdi (h_exec_dir h) ob))))))"

definition harness_completed ::
    "harness \<Rightarrow> ('z rig_scheme) command_interface \<Rightarrow> bool \<Rightarrow> proc_output \<Rightarrow> ('z rig_scheme, anyhow, outcome) prog" where
  "harness_completed h cmdi keep_fs out =
     then_do (for_each (h_observers h) (\<lambda>ob.
       with_context ''failed to call observer post-execution callback''
         (observer_post_exec cmdi (h_exec_dir h) ob))) (\<lambda>_.
     then_do (do_when (\<not> keep_fs)
       (then_do (harness_teardown h cmdi) (\<lambda>_.
        for_each (h_observers h) (\<lambda>ob.
          with_context ''failed to call observer post-execution callback''
            (observer_post_teardown cmdi (h_exec_dir h) ob))))) (\<lambda>_.
     then_do (with_context ''failed to convert stdout to string'' (lift_res (from_utf8 (out_stdout out)))) (\<lambda>stdout.
     then_do (with_context ''failed to convert stderr to string'' (lift_res (from_utf8 (out_stderr out)))) (\<lambda>stderr.
     then_do (with_context ''failed to copy test output files''
       (ci_copy_dir_from_remote cmdi (h_exec_dir h) (h_outcome_dir h))) (\<lambda>_.
     return (OutcomeCompleted \<lparr>co_stdout = stdout, co_stderr = stderr, co_dir = h_outcome_dir h\<rparr>))))))"

definition harness_timed_out ::
    "harness \<Rightarrow> ('z rig_scheme) command_interface \<Rightarrow> ('z rig_scheme) supervisor \<Rightarrow> bool \<Rightarrow>
     ('z rig_scheme, anyhow, outcome) prog" where
  "harness_timed_out h cmdi sv keep_fs =
     then_do (for_each (h_observers h) observer_skip_exec) (\<lambda>_.
     then_do (sv_had_panic_event sv) (\<lambda>panicked.
     if panicked then return OutcomePanicked
     else then_do (do_when (\<not> keep_fs) (harness_teardown h cmdi)) (\<lambda>_. return OutcomeTimedOut)))"

definition harness_run ::
    "harness \<Rightarrow> ('z rig_scheme) command_interface \<Rightarrow> ('z rig_scheme) supervisor \<Rightarrow> remote_path \<Rightarrow> bool \<Rightarrow>
     ('z rig_scheme, anyhow, outcome) prog" where
  "harness_run h cmdi sv binary_path keep_fs =
     then_do (harness_prepare h cmdi sv) (\<lambda>_.
     then_do (attempt (ci_exec_in_dir cmdi (args [h_fs_dir h] (command_new binary_path)) (h_exec_dir h)
       (Some (h_timeout h)))) (\<lambda>result.
     case result of
       Inr out \<Rightarrow> harness_completed h cmdi keep_fs out
     | Inl (ExecTimedOut _) \<Rightarrow> harness_timed_out h cmdi sv keep_fs
     | Inl (ExecIoError msg) \<Rightarrow>
         then_do (for_each (h_observers h) observer_skip_exec) (\<lambda>_.
         throw [''failed to run test binary: '' @ msg])))"

subsection \<open>One run of the test\<close>

definition dash_paths_ok :: "'z rig_scheme \<Rightarrow> bool" where
  "dash_paths_ok s \<longleftrightarrow> (\<forall>ob \<in> set (observers_heap s). do_dash_path ob \<noteq> Some ''timeout'')"

definition rig_runs :: "nat \<Rightarrow> nat \<Rightarrow> 'z rig_scheme \<Rightarrow> 'z rig_scheme \<Rightarrow> bool" where
  "rig_runs n k s s' \<longleftrightarrow> (dash_paths_ok s \<longrightarrow> dash_paths_ok s' \<and>
     (\<exists>cs obs. s' = s\<lparr>calls := calls s @ cs, observers_heap := obs\<rparr> \<and> counts_calls n k cs))"

lemma rig_runsI:
  assumes "dash_paths_ok s \<Longrightarrow> dash_paths_ok (s\<lparr>calls := calls s @ cs, observers_heap := obs\<rparr>)"
    and "counts_calls n k cs"
  shows "rig_runs n k s (s\<lparr>calls := calls s @ cs, observers_heap := obs\<rparr>)"
  using assms unfolding rig_runs_def by blast

lemma rig_runs_trans:
  assumes "rig_runs m j s s'" and "rig_runs n k s' s''"
  shows "rig_runs (m + n) (j + k) s s''"
proof (unfold rig_runs_def, intro impI)
  assume "dash_paths_ok s"
  then obtain cs obs where 1: "dash_paths_ok s'" "s' = s\<lparr>calls := calls s @ cs, observers_heap := obs\<rparr>"
      "counts_calls m j cs"
    using assms(1) by (auto simp: rig_runs_def)
  then obtain ds obs' where "dash_paths_ok s''" "s'' = s'\<lparr>calls := calls s' @ ds, observers_heap := obs'\<rparr>"
      "counts_calls n k ds"
    using assms(2) by (auto simp: rig_runs_def)
  moreover from this 1 have "s'' = s\<lparr>calls := calls s @ cs @ ds, observers_heap := obs'\<rparr>"
      "counts_calls (m + n) (j + k) (cs @ ds)" by (simp_all add: counts_calls_append)
  ultimately show "dash_paths_ok s'' \<and> (\<exists>cs obs. s'' = s\<lparr>calls := calls s @ cs, observers_heap := obs\<rparr>
      \<and> counts_calls (m + n) (j + k) cs)"
    by blast
qed

lemma rig_runs_refl: "rig_runs 0 0 s s"
  using rig_runsI [where s = s and cs = "[]" and obs = "observers_heap s"] by simp

lemma test_runs_rig: "test_runs n k s s' \<Longrightarrow> rig_runs n k s s'"
  unfolding test_runs_def
proof (elim exE conjE)
  fix cs assume "s' = s\<lparr>calls := calls s @ cs\<rparr>" "counts_calls n k cs"
  then show "rig_runs n k s s'"
    using rig_runsI [where s = s and cs = cs and obs = "observers_heap s"] by (simp add: dash_paths_ok_def)
qed

interpretation rig_quiet: state_preorder "rig_runs 0 0"
  using rig_runs_refl rig_runs_trans [of 0 0 _ _ 0 0] by unfold_locales auto

abbreviation rig_quiet :: "('z rig_scheme, 'e, 'a) prog \<Rightarrow> bool" where
  "rig_quiet m \<equiv> steps (rig_runs 0 0) m"

lemma quiet_rig: "quiet m \<Longrightarrow> rig_quiet m"
  unfolding steps_def test_runs_zero [symmetric] by (blast intro: test_runs_rig)

lemma rig_quiet_heap_get: "rig_quiet (heap_get i)"
  by (simp add: steps_def heap_get_def rig_runs_refl)

lemma rig_quiet_heap_update:
  assumes "\<And>ob. do_dash_path (f ob) = do_dash_path ob"
  shows "rig_quiet (heap_update i f)"
proof -
  have "rig_runs 0 0 s (s\<lparr>observers_heap := (observers_heap s)[i := f (observers_heap s ! i)]\<rparr>)" for s :: "'a rig_scheme"
  proof -
    let ?obs = "(observers_heap s)[i := f (observers_heap s ! i)]"
    have "dash_paths_ok (s\<lparr>calls := calls s @ [], observers_heap := ?obs\<rparr>)" if "dash_paths_ok s"
      using that assms nth_mem [of i "observers_heap s"]
      by (cases "i < length (observers_heap s)")
        (auto simp: dash_paths_ok_def list_update_beyond dest!: subsetD [OF set_update_subset_insert])
    then show ?thesis using rig_runsI [where s = s and cs = "[]" and obs = ?obs] by simp
  qed
  then show ?thesis by (simp add: steps_def heap_update_def modify_def)
qed

lemma rig_quiet_skip: "rig_quiet (observer_skip_exec ob)"
  by (simp add: observer_skip_exec_def rig_quiet.still)

text \<open>An observer read from the heap has a permitted path.\<close>

lemma rig_quiet_with_observer:
  assumes "\<And>ob. do_dash_path ob \<noteq> Some ''timeout'' \<Longrightarrow> rig_quiet (f ob)"
  shows "rig_quiet (then_do (heap_get i) f)"
proof (unfold steps_def, intro allI impI)
  fix s r s'
  assume run: "then_do (heap_get i) f s = Some (r, s')"
  show "rig_runs 0 0 s s'"
  proof (cases "dash_paths_ok s \<and> i < length (observers_heap s)")
    case True
    then have quiet: "rig_quiet (f (observers_heap s ! i))" by (intro assms) (simp add: dash_paths_ok_def)
    have "f (observers_heap s ! i) s = Some (r, s')" using run True by (simp add: heap_get_def vec_get_def then_do_def)
    then show ?thesis by (rule stepsD [OF quiet])
  next
    case False
    show ?thesis
    proof (cases "dash_paths_ok s")
      case True
      then show ?thesis using False run rig_runs_refl by (simp add: heap_get_def vec_get_def then_do_def)
    qed (simp add: rig_runs_def)
  qed
qed

locale rig_contract = command_contract cmdi + supervisor_contract sv w
  for cmdi :: "('z rig_scheme) command_interface" and sv :: "('z rig_scheme) supervisor" and w :: nat
begin

lemmas rig_quiet_methods = quiet_methods [THEN quiet_rig] quiet_exec_unit [THEN quiet_rig]

lemma rig_quiet_exec_context: "rig_quiet m \<Longrightarrow> rig_quiet (exec_context c m)"
  unfolding exec_context_def by (intro rig_quiet.rules)

lemma rig_quiet_asks: "rig_quiet (asks f)"
  by (simp add: asks_def rig_quiet.still)

lemma rig_quiet_dash_post_exec: "rig_quiet (dash_post_exec i cmdi output_dir)"
  unfolding dash_post_exec_def Let_def
  by (intro rig_quiet_with_observer rig_quiet.rules rig_quiet_exec_context rig_quiet_methods
      rig_quiet_heap_update rig_quiet_asks) (simp_all add: dash_command_def)

lemma rig_quiet_observers:
  "rig_quiet (observer_pre_exec cmdi output_dir ob)" "rig_quiet (observer_post_exec cmdi output_dir ob)"
  "rig_quiet (observer_post_teardown cmdi output_dir ob)"
  by (cases ob; auto simp: lcov_pre_exec_def lcov_post_teardown_def
      intro!: rig_quiet.rules rig_quiet_methods rig_quiet_dash_post_exec)+

lemma rig_quiet_harness_parts:
  "rig_quiet (harness_prepare h cmdi sv)" "rig_quiet (harness_teardown h cmdi)"
  "rig_quiet (harness_completed h cmdi keep_fs out)" "rig_quiet (harness_timed_out h cmdi sv keep_fs)"
proof -
  show t: "rig_quiet (harness_teardown h cmdi)"
    unfolding harness_teardown_def by (intro rig_quiet.rules quiet_rig quiet_mount_teardown)
  show "rig_quiet (harness_prepare h cmdi sv)"
    unfolding harness_prepare_def
    by (intro rig_quiet.rules rig_quiet_methods rig_quiet_observers quiet_rig quiet_mount_setup quiet_reset_events)
  show "rig_quiet (harness_completed h cmdi keep_fs out)"
    unfolding harness_completed_def
    by (intro rig_quiet.rules rig_quiet_methods rig_quiet_observers t)
  show "rig_quiet (harness_timed_out h cmdi sv keep_fs)"
    unfolding harness_timed_out_def
    by (intro rig_quiet.rules rig_quiet_skip quiet_rig quiet_had_panic_event t)
qed

text \<open>A run that yields an outcome has run the test exactly once.\<close>

definition after_exec :: "harness \<Rightarrow> bool \<Rightarrow> exec_error + proc_output \<Rightarrow> ('z rig_scheme, anyhow, outcome) prog" where
  "after_exec h keep_fs result =
     (case result of
       Inr out \<Rightarrow> harness_completed h cmdi keep_fs out
     | Inl (ExecTimedOut _) \<Rightarrow> harness_timed_out h cmdi sv keep_fs
     | Inl (ExecIoError msg) \<Rightarrow>
         then_do (for_each (h_observers h) observer_skip_exec) (\<lambda>_.
         throw [''failed to run test binary: '' @ msg]))"

lemma rig_quiet_after_exec: "rig_quiet (after_exec h keep_fs result)"
proof (cases result)
  case (Inl e)
  then show ?thesis
    by (cases e) (auto simp: after_exec_def intro: rig_quiet_harness_parts rig_quiet.rules rig_quiet_skip)
qed (simp add: after_exec_def rig_quiet_harness_parts)

lemma harness_run_exec:
  assumes "harness_run h cmdi sv binary_path keep_fs s = Some (r, s')"
  obtains r0 where "\<not> is_ok r" "harness_prepare h cmdi sv s = Some (r0, s')"
    | s1 r1 s2 where "harness_prepare h cmdi sv s = Some (Ok (), s1)"
        "ci_exec_in_dir cmdi (args [h_fs_dir h] (command_new binary_path)) (h_exec_dir h) (Some (h_timeout h)) s1
           = Some (r1, s2)"
        "case r1 of Ok out \<Rightarrow> after_exec h keep_fs (Inr out) s2 = Some (r, s')
          | Err e \<Rightarrow> after_exec h keep_fs (Inl e) s2 = Some (r, s') | Crash c \<Rightarrow> r = Crash c \<and> s' = s2"
proof -
  let ?exec = "ci_exec_in_dir cmdi (args [h_fs_dir h] (command_new binary_path)) (h_exec_dir h) (Some (h_timeout h))"
  have run: "then_do (harness_prepare h cmdi sv) (\<lambda>_. then_do (attempt ?exec) (after_exec h keep_fs)) s = Some (r, s')"
    using assms unfolding harness_run_def after_exec_def .
  then show thesis
  proof (cases rule: then_do_cases)
    case (1 u s1)
    then show thesis
    proof (cases "?exec s1")
      case (Some p)
      then show thesis using 1 that(2) by (cases p; cases "fst p") auto
    qed simp
  qed (use that(1) in auto)
qed

lemma harness_runs_once:
  assumes "harness_run h cmdi sv binary_path keep_fs s = Some (r, s')"
  shows "rig_runs 1 0 s s' \<or> \<not> is_ok r \<and> rig_runs 0 0 s s'"
  using assms
proof (cases rule: harness_run_exec)
  case (1 r0)
  then show ?thesis using stepsD [OF rig_quiet_harness_parts(1)] by blast
next
  case (2 s1 r1 s2)
  have "rig_runs 0 0 s s1" using stepsD [OF rig_quiet_harness_parts(1) 2(1)] .
  moreover have "rig_runs 1 0 s1 s2" using test_runs_rig [OF stepsD [OF timed_exec_runs_once 2(2)]] .
  moreover have "rig_runs 0 0 s2 s'"
    using 2(3) stepsD [OF rig_quiet_after_exec] rig_runs_refl by (auto split: res.splits)
  ultimately have "rig_runs (0 + 1 + 0) (0 + 0 + 0) s s'" using rig_runs_trans by blast
  then show ?thesis by simp
qed

end

text \<open>The two ways the program is launched, with the commands to the monitor that load the snapshot.\<close>

definition launched :: "('z world_scheme) command_interface \<Rightarrow> ('z world_scheme) supervisor \<Rightarrow> nat \<Rightarrow> bool" where
  "launched cmdi sv w \<longleftrightarrow>
     cmdi = local_command_interface \<and> sv = native_supervisor \<and> w = 0
     \<or> (\<exists>opts broker qopts. cmdi = remote_command_interface opts \<and> sv = qemu_supervisor broker qopts \<and> w = 1)"

text \<open>What \<open>launch_cmdi_and_supervisor\<close> returns is one of the two, and launching runs no test.\<close>

lemma launch_yields_launched:
  assumes "launch_cmdi_and_supervisor no_qemu conf tmp_dir broker s = Some (Ok (cmdi, sv), s')"
  shows "launched cmdi sv (of_bool (\<not> no_qemu))"
  using assms
  by (cases no_qemu)
    (auto simp: launch_cmdi_and_supervisor_def Let_def launch_supervisor_def launch_cmdi_def launched_def Ok_runs)

lemma quiet_launch: "quiet (launch_cmdi_and_supervisor no_qemu conf tmp_dir broker)"
proof -
  have "quiet (event_handler_launch path)" for path
    unfolding event_handler_launch_def by (intro emits) simp_all
  moreover have "quiet (modify (record_call (Sleep n)))" for n
    by (auto simp: steps_def intro!: appends_record_call)
  ultimately have "quiet (qemu_launch qconf opts broker)" for qconf opts
    unfolding qemu_launch_def by (intro emits) (simp_all add: report_plain)
  then have "quiet (launch_supervisor conf opts broker)" for opts
    unfolding launch_supervisor_def by (cases opts) (auto intro!: emits)
  moreover have "quiet (fresh_tcp_port)"
    unfolding fresh_tcp_port_def by (intro emits) (auto split: sum.splits intro: emits)
  ultimately show ?thesis
    unfolding launch_cmdi_and_supervisor_def Let_def by (intro emits)
qed

interpretation native_rig: rig_contract local_command_interface native_supervisor 0 ..

interpretation qemu_rig: rig_contract "remote_command_interface opts" "qemu_supervisor broker qopts" 1
  for opts broker qopts ..

lemma launched_contract: "launched cmdi sv w \<Longrightarrow> rig_contract cmdi sv w"
  unfolding launched_def using native_rig.rig_contract_axioms qemu_rig.rig_contract_axioms by blast

end
