(* ===== verification/Runner.thy ===== *)
theory Runner
  imports Harness
begin

text \<open>
  \<open>fuzzing/runner.rs\<close>: both file systems side by side. The fields of \<open>Runner\<close> that never change are the
  record \<open>runner_parts\<close>; the counters belong to the state. A run yields the first panic or timeout, or the
  differences that the two objectives find.
\<close>

record runner = rig +
  executions :: u64
  crashes :: u64

record 's runner_parts =
  rp_config :: config
  rp_keep_fs :: bool
  rp_cmdi :: "'s command_interface"
  rp_supervisor :: "'s supervisor"
  rp_test_dir :: remote_path
  rp_crashes_path :: local_path
  rp_accidents_path :: local_path
  rp_dash_objective :: dash_objective
  rp_fst_dash :: nat
  rp_snd_dash :: nat
  rp_fst_fs_name :: string
  rp_snd_fs_name :: string
  rp_fst_harness :: harness
  rp_snd_harness :: harness
  rp_broker :: broker_handle

subsection \<open>Creation\<close>

definition fs_dir_of :: "config \<Rightarrow> fs_mount \<Rightarrow> remote_path" where
  "fs_dir_of conf fs = join (join ''/mnt'' (to_lowercase (mount_name fs))) (cf_fs_name conf)"

text \<open>A new observer is a new cell.\<close>

definition heap_push :: "dash_observer_state \<Rightarrow> ('z rig_scheme, 'e, nat) prog" where
  "heap_push ob = (\<lambda>s. Some (Ok (length (observers_heap s)), s\<lparr>observers_heap := observers_heap s @ [ob]\<rparr>))"

definition runner_create ::
    "fs_mount \<Rightarrow> fs_mount \<Rightarrow> local_path \<Rightarrow> config \<Rightarrow> bool \<Rightarrow> ('z runner_scheme) command_interface \<Rightarrow>
     ('z runner_scheme) supervisor \<Rightarrow> local_path \<Rightarrow> broker_handle \<Rightarrow> observer_ref list \<times> observer_ref list \<Rightarrow>
     ('z runner_scheme, anyhow, ('z runner_scheme) runner_parts) prog" where
  "runner_create fst_mount snd_mount crashes_path conf keep_fs cmdi sv local_tmp_dir broker observers =
     then_do (with_context ''failed to setup remote temporary dir'' (setup_remote_dir cmdi)) (\<lambda>remote_tmp_dir.
     let exec_dir = join remote_tmp_dir ''exec'';
         accidents_path = ''./accidents'';
         fst_fs_dir = fs_dir_of conf fst_mount;
         snd_fs_dir = fs_dir_of conf snd_mount
     in then_do (call_unit (CreateDirAll crashes_path)) (\<lambda>_.
        then_do (call_unit (CreateDirAll accidents_path)) (\<lambda>_.
        then_do (with_context ''failed to create first Dash observer''
          (dash_observer_create conf cmdi fst_fs_dir (get_internal_dirs fst_mount))) (\<lambda>fst_ob.
        then_do (heap_push fst_ob) (\<lambda>fst_ref.
        then_do (with_context ''failed to create first Dash observer''
          (dash_observer_create conf cmdi snd_fs_dir (get_internal_dirs snd_mount))) (\<lambda>snd_ob.
        then_do (heap_push snd_ob) (\<lambda>snd_ref.
        let parts =
          \<lparr>rp_config = conf, rp_keep_fs = keep_fs, rp_cmdi = cmdi, rp_supervisor = sv,
           rp_test_dir = remote_tmp_dir, rp_crashes_path = crashes_path, rp_accidents_path = accidents_path,
           rp_dash_objective = dash_objective_new (dash_enabled (cf_dash conf)),
           rp_fst_dash = fst_ref, rp_snd_dash = snd_ref,
           rp_fst_fs_name = mount_name fst_mount, rp_snd_fs_name = mount_name snd_mount,
           rp_fst_harness = harness_new fst_mount fst_fs_dir exec_dir (join local_tmp_dir ''outcome-1'')
             (cf_timeout conf) (fst observers @ [DashRef fst_ref]),
           rp_snd_harness = harness_new snd_mount snd_fs_dir exec_dir (join local_tmp_dir ''outcome-2'')
             (cf_timeout conf) (snd observers @ [DashRef snd_ref]),
           rp_broker = broker\<rparr>
        in then_do (modify (\<lambda>s. s\<lparr>executions := 0, crashes := 0\<rparr>)) (\<lambda>_.
           then_do (with_context ''failed to save snapshot'' (sv_save_snapshot sv)) (\<lambda>_.
           return parts)))))))))"

subsection \<open>Running a test on both file systems\<close>

definition compile_test ::
    "('z runner_scheme) runner_parts \<Rightarrow> workload \<Rightarrow> ('z runner_scheme, anyhow, remote_path) prog" where
  "compile_test parts input =
     with_context ''failed to compile test'' (compile (rp_cmdi parts) (rp_test_dir parts) input)"

fun show_trace_error :: "trace_error \<Rightarrow> string" where
  "show_trace_error EmptyTrace = ''invalid trace, must not be empty''"
| "show_trace_error InvalidColumnNumber = ''invalid column number''"
| "show_trace_error (IntParse _) = ''invalid integer format''"
| "show_trace_error (InvalidErrno s) = ''invalid errno string '' @ in_quotes s"

definition parse_trace :: "local_path \<Rightarrow> ('z world_scheme, anyhow, trace) prog" where
  "parse_trace dir =
     then_do (call_read (join dir TRACE_FILENAME)) (\<lambda>text.
     lift_res (map_err (\<lambda>e. [''failed to parse trace'', show_trace_error e]) (try_parse text)))"

definition runner_diff ::
    "('z runner_scheme) runner_parts \<Rightarrow> completed \<Rightarrow> completed \<Rightarrow> ('z runner_scheme, anyhow, diff_completed) prog" where
  "runner_diff parts fst_outcome snd_outcome =
     then_do (with_context ''failed to parse first trace'' (parse_trace (co_dir fst_outcome))) (\<lambda>fst_trace.
     then_do (with_context ''failed to parse second trace'' (parse_trace (co_dir snd_outcome))) (\<lambda>snd_trace.
     then_do (heap_get (rp_fst_dash parts)) (\<lambda>fst_ob.
     then_do (heap_get (rp_snd_dash parts)) (\<lambda>snd_ob.
     let fst_view = dash_observer.truncate fst_ob;
         snd_view = dash_observer.truncate snd_ob
     in then_do (if dash_is_interesting (rp_dash_objective parts) fst_view snd_view
          then then_do (asks file_hash) (\<lambda>hash.
            lift_res (dash_objective_diff hash (rp_dash_objective parts) fst_view snd_view))
          else return []) (\<lambda>dash_diff.
        return \<lparr>dc_dash_diff = dash_diff, dc_trace_diff = trace_objective_diff fst_trace snd_trace,
          dc_fst_outcome = fst_outcome, dc_snd_outcome = snd_outcome,
          dc_fst_trace = fst_trace, dc_snd_trace = snd_trace\<rparr>)))))"

definition load_snapshot :: "('z runner_scheme) runner_parts \<Rightarrow> ('z runner_scheme, anyhow, unit) prog" where
  "load_snapshot parts = with_context ''failed to load snapshot'' (sv_load_snapshot (rp_supervisor parts))"

definition run_fst :: "('z runner_scheme) runner_parts \<Rightarrow> remote_path \<Rightarrow> ('z runner_scheme, anyhow, outcome) prog" where
  "run_fst parts binary_path =
     with_context (''failed to run first harness '' @ in_quotes (rp_fst_fs_name parts))
       (harness_run (rp_fst_harness parts) (rp_cmdi parts) (rp_supervisor parts) binary_path (rp_keep_fs parts))"

definition run_snd :: "('z runner_scheme) runner_parts \<Rightarrow> remote_path \<Rightarrow> ('z runner_scheme, anyhow, outcome) prog" where
  "run_snd parts binary_path =
     with_context (''failed to run second harness '' @ in_quotes (rp_snd_fs_name parts))
       (harness_run (rp_snd_harness parts) (rp_cmdi parts) (rp_supervisor parts) binary_path (rp_keep_fs parts))"

definition run_harness ::
    "('z runner_scheme) runner_parts \<Rightarrow> remote_path \<Rightarrow> ('z runner_scheme, anyhow, diff_outcome) prog" where
  "run_harness parts binary_path =
     then_do (run_fst parts binary_path) (\<lambda>fst_result.
     case fst_result of
       OutcomePanicked \<Rightarrow>
         then_do (load_snapshot parts) (\<lambda>_. return (FirstPanicked (rp_fst_fs_name parts)))
     | OutcomeTimedOut \<Rightarrow> return (FirstTimedOut (rp_fst_fs_name parts) (cf_timeout (rp_config parts)))
     | OutcomeCompleted fst_outcome \<Rightarrow>
         then_do (run_snd parts binary_path) (\<lambda>snd_result.
         case snd_result of
           OutcomePanicked \<Rightarrow>
             then_do (load_snapshot parts) (\<lambda>_. return (SecondPanicked (rp_snd_fs_name parts)))
         | OutcomeTimedOut \<Rightarrow> return (SecondTimedOut (rp_snd_fs_name parts) (cf_timeout (rp_config parts)))
         | OutcomeCompleted snd_outcome \<Rightarrow>
             then_do (runner_diff parts fst_outcome snd_outcome) (\<lambda>diff. return (DiffCompleted diff))))"

subsection \<open>Reports\<close>

definition create_crash_dir :: "local_path \<Rightarrow> ('z world_scheme, anyhow, unit) prog" where
  "create_crash_dir dir =
     with_context (''failed to create crash directory at '' @ in_quotes dir) (call_unit (CreateDirAll dir))"

definition runner_report_diff ::
    "('z runner_scheme) runner_parts \<Rightarrow> workload \<Rightarrow> string \<Rightarrow> remote_path \<Rightarrow> local_path \<Rightarrow> diff_completed \<Rightarrow>
     reason \<Rightarrow> ('z runner_scheme, anyhow, unit) prog" where
  "runner_report_diff parts input dir_name binary_path crash_root diff why =
     (let crash_dir = join crash_root dir_name
      in then_do (create_crash_dir crash_dir) (\<lambda>_.
         then_do (with_context ''failed to save testcase''
           (save_testcase (rp_cmdi parts) crash_dir (Some binary_path) input)) (\<lambda>_.
         then_do (with_context ''failed to save first outcome''
           (save_completed crash_dir (rp_fst_fs_name parts) (dc_fst_outcome diff))) (\<lambda>_.
         then_do (with_context ''failed to save second outcome''
           (save_completed crash_dir (rp_snd_fs_name parts) (dc_snd_outcome diff))) (\<lambda>_.
         then_do (with_context ''failed to save reason'' (save_reason crash_dir why)) (\<lambda>_.
         handle_info (rp_broker parts) (''diff saved at '' @ in_quotes crash_dir)))))))"

definition runner_report_crash ::
    "('z runner_scheme) runner_parts \<Rightarrow> workload \<Rightarrow> string \<Rightarrow> local_path \<Rightarrow> reason \<Rightarrow>
     ('z runner_scheme, anyhow, unit) prog" where
  "runner_report_crash parts input dir_name crash_root why =
     (let crash_dir = join crash_root dir_name
      in then_do (create_crash_dir crash_dir) (\<lambda>_.
         then_do (with_context ''failed to save testcase''
           (save_testcase (rp_cmdi parts) crash_dir None input)) (\<lambda>_.
         then_do (with_context ''failed to save reason'' (save_reason crash_dir why)) (\<lambda>_.
         handle_info (rp_broker parts) (''crash saved at '' @ in_quotes crash_dir)))))"

subsection \<open>How often the test runs\<close>

text \<open>The harnesses that an outcome says were run.\<close>

fun harnesses_run :: "diff_outcome \<Rightarrow> nat" where
  "harnesses_run (DiffCompleted _) = 2"
| "harnesses_run (FirstTimedOut _ _) = 1"
| "harnesses_run (FirstPanicked _) = 1"
| "harnesses_run (SecondTimedOut _ _) = 2"
| "harnesses_run (SecondPanicked _) = 2"

lemma rig_quiet_runner_diff: "rig_quiet (runner_diff parts fst_outcome snd_outcome)"
  unfolding runner_diff_def parse_trace_def Let_def asks_def
  by (intro rig_quiet.rules rig_quiet_heap_get quiet_rig emits) simp_all

context rig_contract
begin

lemma harness_with_context_once:
  assumes "with_context c (harness_run h cmdi sv binary_path keep_fs) s = Some (Ok out, s')"
  shows "rig_runs 1 0 s s'"
  using assms harness_runs_once [of h binary_path keep_fs s "Ok out" s'] by (simp add: with_context_Ok)

lemma load_snapshot_rig:
  assumes "with_context c (sv_load_snapshot sv) s = Some (Ok (), s')"
  shows "rig_runs 0 w s s'"
  using assms load_snapshot_writes [of s s'] by (simp add: with_context_Ok test_runs_rig)

end

text \<open>
  A run is two runs of the test when the first completes and one otherwise, and the snapshot is
  loaded exactly after a panic.
\<close>

fun snapshots_loaded :: "nat \<Rightarrow> diff_outcome \<Rightarrow> nat" where
  "snapshots_loaded w (FirstPanicked _) = w"
| "snapshots_loaded w (SecondPanicked _) = w"
| "snapshots_loaded w _ = 0"

lemma run_harness_counts:
  assumes "launched (rp_cmdi parts) (rp_supervisor parts) w"
    and run: "run_harness parts binary_path s = Some (Ok out, s')"
  shows "rig_runs (harnesses_run out) (snapshots_loaded w out) s s'"
proof -
  note contract = launched_contract [OF assms(1)]
  note once = rig_contract.harness_with_context_once [OF contract]
  note loads = rig_contract.load_snapshot_rig [OF contract]
  obtain fst_result s1 where fst_run: "run_fst parts binary_path s = Some (Ok fst_result, s1)"
    and rest: "(case fst_result of
       OutcomePanicked \<Rightarrow> then_do (load_snapshot parts) (\<lambda>_. return (FirstPanicked (rp_fst_fs_name parts)))
     | OutcomeTimedOut \<Rightarrow> return (FirstTimedOut (rp_fst_fs_name parts) (cf_timeout (rp_config parts)))
     | OutcomeCompleted fst_outcome \<Rightarrow>
         then_do (run_snd parts binary_path) (\<lambda>snd_result.
         case snd_result of
           OutcomePanicked \<Rightarrow> then_do (load_snapshot parts) (\<lambda>_. return (SecondPanicked (rp_snd_fs_name parts)))
         | OutcomeTimedOut \<Rightarrow> return (SecondTimedOut (rp_snd_fs_name parts) (cf_timeout (rp_config parts)))
         | OutcomeCompleted snd_outcome \<Rightarrow>
             then_do (runner_diff parts fst_outcome snd_outcome) (\<lambda>diff. return (DiffCompleted diff)))) s1
       = Some (Ok out, s')"
    using run unfolding run_harness_def then_do_Ok by blast
  have one: "rig_runs 1 0 s s1" using once fst_run unfolding run_fst_def by blast
  show ?thesis
  proof (cases fst_result)
    case OutcomePanicked
    then obtain s2 where "load_snapshot parts s1 = Some (Ok (), s2)" "out = FirstPanicked (rp_fst_fs_name parts)" "s' = s2"
      using rest by (auto simp: then_do_Ok)
    then show ?thesis using rig_runs_trans [OF one loads] unfolding load_snapshot_def by simp
  next
    case OutcomeTimedOut
    then show ?thesis using rest one by auto
  next
    case (OutcomeCompleted fst_outcome)
    then obtain snd_result s2 where snd_run: "run_snd parts binary_path s1 = Some (Ok snd_result, s2)"
      and rest2: "(case snd_result of
           OutcomePanicked \<Rightarrow> then_do (load_snapshot parts) (\<lambda>_. return (SecondPanicked (rp_snd_fs_name parts)))
         | OutcomeTimedOut \<Rightarrow> return (SecondTimedOut (rp_snd_fs_name parts) (cf_timeout (rp_config parts)))
         | OutcomeCompleted snd_outcome \<Rightarrow>
             then_do (runner_diff parts fst_outcome snd_outcome) (\<lambda>diff. return (DiffCompleted diff))) s2
         = Some (Ok out, s')"
      using rest by (auto simp: then_do_Ok)
    have "rig_runs 1 0 s1 s2" using once snd_run unfolding run_snd_def by blast
    from rig_runs_trans [OF one this] have two: "rig_runs 2 0 s s2" by (simp add: numeral_2_eq_2)
    show ?thesis
    proof (cases snd_result)
      case OutcomePanicked
      then obtain s3 where "load_snapshot parts s2 = Some (Ok (), s3)"
          "out = SecondPanicked (rp_snd_fs_name parts)" "s' = s3"
        using rest2 by (auto simp: then_do_Ok)
      then show ?thesis using rig_runs_trans [OF two loads] unfolding load_snapshot_def by simp
    next
      case OutcomeTimedOut
      then show ?thesis using rest2 two by auto
    next
      case (OutcomeCompleted snd_outcome)
      then obtain diff where "runner_diff parts fst_outcome snd_outcome s2 = Some (Ok diff, s')" "out = DiffCompleted diff"
        using rest2 by (auto simp: then_do_Ok)
      then show ?thesis using rig_runs_trans [OF two stepsD [OF rig_quiet_runner_diff]] by simp
    qed
  qed
qed

end
