(* ===== verification/Fuzzer.thy ===== *)
theory Fuzzer
  imports Runner
begin

text \<open>
  \<open>fuzzing/fuzzer.rs\<close>, \<open>fuzzing/blackbox/fuzzer.rs\<close> and \<open>fuzzing/duo_single.rs\<close>: the loop of a fuzzer. The trait
  \<open>Fuzzer\<close> is parametric: its default methods take the methods \<open>fuzz_one\<close> and \<open>send_stats\<close> of the
  implementor, and the state of an implementor extends the record \<open>runner\<close>, which \<open>runner()\<close> gives access to.

  The locale \<open>counted_fuzzer\<close> is the contract of an implementor: \<open>fuzz_one\<close> leaves the number of executions to
  the trait, and each report of a crash is counted once. From it follows what the counters mean.
\<close>

subsection \<open>The trait\<close>

definition count_execution :: "('z runner_scheme, 'e, unit) prog" where
  "count_execution = modify (\<lambda>s. s\<lparr>executions := executions s + 1\<rparr>)"

definition count_crash :: "('z runner_scheme, 'e, unit) prog" where
  "count_crash = modify (\<lambda>s. s\<lparr>crashes := crashes s + 1\<rparr>)"

definition runs ::
    "('z runner_scheme, anyhow, unit) prog \<Rightarrow> (bool \<Rightarrow> ('z runner_scheme, anyhow, unit) prog) \<Rightarrow>
     ('z runner_scheme, anyhow, unit) prog" where
  "runs fuzz_one send_stats =
     then_do fuzz_one (\<lambda>_. then_do count_execution (\<lambda>_. send_stats True))"

partial_function (option) repeat_forever :: "('s, 'e, unit) prog \<Rightarrow> ('s, 'e, unit) prog" where
  "repeat_forever m s = then_do m (\<lambda>_ s'. repeat_forever m s') s"

definition fuzzer_run ::
    "('z runner_scheme, anyhow, unit) prog \<Rightarrow> (bool \<Rightarrow> ('z runner_scheme, anyhow, unit) prog) \<Rightarrow>
     u64 option \<Rightarrow> ('z runner_scheme, anyhow, unit) prog" where
  "fuzzer_run fuzz_one send_stats test_count =
     (case test_count of
        None \<Rightarrow> repeat_forever (runs fuzz_one send_stats)
      | Some count \<Rightarrow> for_each [0..<unat count] (\<lambda>_. runs fuzz_one send_stats))"

definition diff_reason :: "(file_info \<Rightarrow> string) \<Rightarrow> diff_completed \<Rightarrow> reason" where
  "diff_reason show_info diff =
     (let r0 = reason_new;
          r1 = (if trace_interesting diff
                then add_trace_diff (dc_trace_diff diff) (md_heading ''Trace Difference Found'' r0) else r0)
      in if dash_interesting diff
         then add_dash_diff show_info (dc_dash_diff diff) (md_heading ''Dash Difference Found'' r1) else r1)"

definition do_objective ::
    "('z runner_scheme) runner_parts \<Rightarrow> (bool \<Rightarrow> ('z runner_scheme, anyhow, unit) prog) \<Rightarrow>
     workload \<Rightarrow> remote_path \<Rightarrow> diff_completed \<Rightarrow> ('z runner_scheme, anyhow, bool) prog" where
  "do_objective parts send_stats input binary_path diff =
     (if any_interesting diff then
        then_do (asks show_file_info) (\<lambda>show_info.
        then_do (asks workload_name) (\<lambda>name_of.
        then_do (with_context ''failed to report crash''
          (runner_report_diff parts input (name_of input) binary_path (rp_crashes_path parts) diff
            (diff_reason show_info diff))) (\<lambda>_.
        then_do count_crash (\<lambda>_.
        then_do (send_stats False) (\<lambda>_.
        return True)))))
      else return False)"

definition both_errors :: string where
  "both_errors = ''Both traces contain errors, potential bug in model''"

definition detect_errors ::
    "('z runner_scheme) runner_parts \<Rightarrow> workload \<Rightarrow> remote_path \<Rightarrow> diff_completed \<Rightarrow>
     ('z runner_scheme, anyhow, bool) prog" where
  "detect_errors parts input binary_path diff =
     (let fst_errors = trace_errors (dc_fst_trace diff);
          snd_errors = trace_errors (dc_snd_trace diff)
      in if fst_errors \<noteq> [] \<and> snd_errors \<noteq> [] then
           then_do (log_message LogWarn (to_lowercase both_errors)) (\<lambda>_.
           then_do (asks workload_name) (\<lambda>name_of.
           then_do (with_context ''failed to report accident''
             (runner_report_diff parts input (name_of input) binary_path (rp_accidents_path parts) diff
               (add_trace_rows snd_errors (add_trace_rows fst_errors (md_heading both_errors reason_new))))) (\<lambda>_.
           return True)))
         else return False)"

definition report_crash ::
    "('z runner_scheme) runner_parts \<Rightarrow> (bool \<Rightarrow> ('z runner_scheme, anyhow, unit) prog) \<Rightarrow>
     workload \<Rightarrow> reason \<Rightarrow> ('z runner_scheme, anyhow, unit) prog" where
  "report_crash parts send_stats input why =
     then_do (asks workload_name) (\<lambda>name_of.
     then_do (with_context ''failed to report panic''
       (runner_report_crash parts input (name_of input) (rp_crashes_path parts) why)) (\<lambda>_.
     then_do count_crash (\<lambda>_. send_stats False)))"

text \<open>The reason for a panic or a timeout, as the four arms of each \<open>match\<close> write it.\<close>

definition panic_reason :: "string \<Rightarrow> reason" where
  "panic_reason fs_name = md_heading (''Filesystem '' @ in_quotes fs_name @ '' panicked'') reason_new"

definition timeout_reason :: "string \<Rightarrow> u8 \<Rightarrow> reason" where
  "timeout_reason fs_name timeout =
     md_heading (''Filesystem '' @ in_quotes fs_name @ '' timed out after '' @ show_nat (unat timeout) @ ''s'') reason_new"

text \<open>The \<open>match\<close> of \<open>fuzz_one\<close> in the black box and the duo fuzzers, on a given input.\<close>

definition fuzz_input ::
    "('z runner_scheme) runner_parts \<Rightarrow> (bool \<Rightarrow> ('z runner_scheme, anyhow, unit) prog) \<Rightarrow>
     workload \<Rightarrow> ('z runner_scheme, anyhow, unit) prog" where
  "fuzz_input parts send_stats input =
     then_do (compile_test parts input) (\<lambda>binary_path.
     then_do (run_harness parts binary_path) (\<lambda>out.
     case out of
       DiffCompleted diff \<Rightarrow>
         then_do (detect_errors parts input binary_path diff) (\<lambda>found.
         if found then return ()
         else then_do (do_objective parts send_stats input binary_path diff) (\<lambda>_. return ()))
     | FirstPanicked fs_name \<Rightarrow> report_crash parts send_stats input (panic_reason fs_name)
     | SecondPanicked fs_name \<Rightarrow> report_crash parts send_stats input (panic_reason fs_name)
     | FirstTimedOut fs_name timeout \<Rightarrow> report_crash parts send_stats input (timeout_reason fs_name timeout)
     | SecondTimedOut fs_name timeout \<Rightarrow> report_crash parts send_stats input (timeout_reason fs_name timeout)))"

subsection \<open>The black box fuzzer\<close>

record 'g black_box = runner +
  bx_rng :: 'g
  bx_last_stats :: nat

definition black_box_send_stats ::
    "('z runner_scheme) runner_parts \<Rightarrow> bool \<Rightarrow> (('g, 'y) black_box_scheme, anyhow, unit) prog" where
  "black_box_send_stats parts lazy =
     then_do (gets bx_last_stats) (\<lambda>last_sent.
     then_do (if lazy then elapsed_secs last_sent else return 0) (\<lambda>elapsed.
     if \<not> lazy \<or> elapsed \<ge> unat (cf_heartbeat_interval (rp_config parts)) then
       then_do call_clock (\<lambda>now.
       then_do (modify (\<lambda>s. s\<lparr>bx_last_stats := now\<rparr>)) (\<lambda>_.
       then_do (gets (\<lambda>s. \<lparr>bb_crashes = crashes s, bb_executions = executions s\<rparr>)) (\<lambda>stats.
       unwrap_prog (handle_black_box_stats (rp_broker parts) stats))))
     else return ()))"

text \<open>\<open>generate_new\<close> on the random source of the fuzzer; it has no error of its own.\<close>

definition black_box_generate ::
    "nat \<Rightarrow> 'g rng \<Rightarrow> config \<Rightarrow> (('g, 'y) black_box_scheme, 'e, workload) prog" where
  "black_box_generate fuel rng conf = (\<lambda>s.
     map_option (\<lambda>(r, g).
       (case r of Ok w \<Rightarrow> Ok w | Err _ \<Rightarrow> Crash Panicked | Crash c \<Rightarrow> Crash c, s\<lparr>bx_rng := g\<rparr>))
       (generate_new fuel rng (bx_rng s) (unat (cf_max_workload_length conf)) (cf_operation_weights conf)))"

definition black_box_fuzz_one ::
    "nat \<Rightarrow> 'g rng \<Rightarrow> (('g, 'y) black_box_scheme) runner_parts \<Rightarrow> (('g, 'y) black_box_scheme, anyhow, unit) prog" where
  "black_box_fuzz_one fuel rng parts =
     then_do (black_box_generate fuel rng (rp_config parts)) (\<lambda>input.
     fuzz_input parts (black_box_send_stats parts) input)"

definition black_box_run ::
    "nat \<Rightarrow> 'g rng \<Rightarrow> (('g, 'y) black_box_scheme) runner_parts \<Rightarrow> u64 option \<Rightarrow>
     (('g, 'y) black_box_scheme, anyhow, unit) prog" where
  "black_box_run fuel rng parts = fuzzer_run (black_box_fuzz_one fuel rng parts) (black_box_send_stats parts)"

text \<open>The clock seeds the random source; the crate turns the seed into its state.\<close>

definition black_box_create ::
    "(u64 \<Rightarrow> 'g) \<Rightarrow> config \<Rightarrow> fs_mount \<Rightarrow> fs_mount \<Rightarrow> local_path \<Rightarrow> (('g, 'y) black_box_scheme) command_interface \<Rightarrow>
     (('g, 'y) black_box_scheme) supervisor \<Rightarrow> local_path \<Rightarrow> broker_handle \<Rightarrow>
     (('g, 'y) black_box_scheme, anyhow, (('g, 'y) black_box_scheme) runner_parts) prog" where
  "black_box_create seed conf fst_mount snd_mount crashes_path cmdi sv local_tmp_dir broker =
     then_do (with_context ''failed to create runner''
       (runner_create fst_mount snd_mount crashes_path conf False cmdi sv local_tmp_dir broker ([], []))) (\<lambda>parts.
     then_do call_clock (\<lambda>now.
     then_do call_clock (\<lambda>start.
     then_do (modify (\<lambda>s. s\<lparr>bx_rng := seed (word_of_nat (now div 10 ^ 6)), bx_last_stats := start\<rparr>)) (\<lambda>_.
     return parts))))"

definition black_box_create_without_broker ::
    "(u64 \<Rightarrow> 'g) \<Rightarrow> config \<Rightarrow> fs_mount \<Rightarrow> fs_mount \<Rightarrow> local_path \<Rightarrow> bool \<Rightarrow>
     (('g, 'y) black_box_scheme, anyhow, (('g, 'y) black_box_scheme) runner_parts) prog" where
  "black_box_create_without_broker seed conf fst_mount snd_mount crashes_path no_qemu =
     then_do (local_create_new_tmp ''blackbox'') (\<lambda>local_tmp_dir.
     then_do call_clock (\<lambda>start.
     let broker = FakeHandle start
     in then_do (launch_cmdi_and_supervisor no_qemu conf local_tmp_dir broker) (\<lambda>(cmdi, sv).
        black_box_create seed conf fst_mount snd_mount crashes_path cmdi sv local_tmp_dir broker)))"

subsection \<open>A single test on two file systems\<close>

definition read_workload :: "local_path \<Rightarrow> ('z world_scheme, anyhow, workload) prog" where
  "read_workload test_path =
     then_do (log_message LogInfo (''read testcase at '' @ in_quotes test_path)) (\<lambda>_.
     then_do (with_context ''failed to read testcase'' (call_read test_path)) (\<lambda>input.
     then_do (asks parse_workload) (\<lambda>parse.
     with_context ''failed to parse json'' (lift_res (of_reply (parse input))))))"

definition duo_send_stats :: "bool \<Rightarrow> ('s, 'e, unit) prog" where
  "duo_send_stats lazy = return ()"

definition duo_fuzz_one ::
    "('z runner_scheme) runner_parts \<Rightarrow> local_path \<Rightarrow> ('z runner_scheme, anyhow, unit) prog" where
  "duo_fuzz_one parts test_path =
     then_do (read_workload test_path) (\<lambda>input. fuzz_input parts duo_send_stats input)"

definition duo_create ::
    "config \<Rightarrow> fs_mount \<Rightarrow> fs_mount \<Rightarrow> local_path \<Rightarrow> bool \<Rightarrow> bool \<Rightarrow>
     ('z runner_scheme, anyhow, ('z runner_scheme) runner_parts) prog" where
  "duo_create conf fst_mount snd_mount crashes_path keep_fs no_qemu =
     then_do (local_create_new_tmp ''duo-single'') (\<lambda>local_tmp_dir.
     then_do call_clock (\<lambda>start.
     let broker = FakeHandle start
     in then_do (launch_cmdi_and_supervisor no_qemu conf local_tmp_dir broker) (\<lambda>(cmdi, sv).
        with_context ''failed to create runner''
          (runner_create fst_mount snd_mount crashes_path conf keep_fs cmdi sv local_tmp_dir broker ([], [])))))"

subsection \<open>What the counters count\<close>

definition counted :: "nat \<Rightarrow> 'z runner_scheme \<Rightarrow> 'z runner_scheme \<Rightarrow> bool" where
  "counted k s s' \<longleftrightarrow> (dash_paths_ok s \<longrightarrow>
     dash_paths_ok s' \<and> executions s' = executions s \<and> crashes s' = crashes s + word_of_nat k)"

lemma counted_trans: "counted j s s' \<Longrightarrow> counted k s' s'' \<Longrightarrow> counted (j + k) s s''"
  by (simp add: counted_def add.assoc)

lemma dash_paths_ok_update [simp]:
  "dash_paths_ok (s\<lparr>executions := n\<rparr>) \<longleftrightarrow> dash_paths_ok s"
  "dash_paths_ok (s\<lparr>crashes := n\<rparr>) \<longleftrightarrow> dash_paths_ok s"
  by (simp_all add: dash_paths_ok_def)

interpretation counted: state_preorder "counted 0"
  by unfold_locales (simp_all add: counted_def)

lemma rig_runs_counted: "rig_runs n k s s' \<Longrightarrow> counted 0 s s'"
  by (auto simp: rig_runs_def counted_def)

lemma appends_counted: "steps (appends A) m \<Longrightarrow> steps (counted 0) m"
  unfolding steps_def appends_def counted_def dash_paths_ok_def by fastforce

lemma rig_quiet_counted: "rig_quiet m \<Longrightarrow> steps (counted 0) m"
  by (auto simp: steps_def intro: rig_runs_counted)

text \<open>At most one crash is counted.\<close>

definition at_most_one :: "'z runner_scheme \<Rightarrow> 'z runner_scheme \<Rightarrow> bool" where
  "at_most_one s s' \<longleftrightarrow> counted 0 s s' \<or> counted 1 s s'"

lemma at_most_one_then:
  assumes "steps (counted 0) m" and "\<And>a. steps at_most_one (f a)"
  shows "steps at_most_one (then_do m f)"
proof (unfold steps_def, intro allI impI)
  fix s r s'
  assume "then_do m f s = Some (r, s')"
  then show "at_most_one s s'"
  proof (cases rule: then_do_cases)
    case (1 a s1)
    have "counted 0 s s1" "at_most_one s1 s'" using stepsD [OF assms(1) 1(1)] stepsD [OF assms(2) 1(2)] .
    then show ?thesis unfolding at_most_one_def using counted_trans [of 0 s s1] by fastforce
  qed (use stepsD [OF assms(1)] in \<open>auto simp: at_most_one_def\<close>)
qed

lemma at_most_one_still: "steps (counted 0) m \<Longrightarrow> steps at_most_one m"
  by (auto simp: steps_def at_most_one_def)

lemma count_crash_then:
  assumes "\<And>a. steps (counted 0) (f a)"
  shows "steps at_most_one (then_do count_crash f)"
proof (unfold steps_def, intro allI impI)
  fix s r s'
  assume "then_do count_crash f s = Some (r, s')"
  then have "f () (s\<lparr>crashes := crashes s + 1\<rparr>) = Some (r, s')" by (simp add: count_crash_def then_do_def)
  then have "counted 0 (s\<lparr>crashes := crashes s + 1\<rparr>) s'" by (rule stepsD [OF assms])
  moreover have "counted 1 s (s\<lparr>crashes := crashes s + 1\<rparr>)" by (simp add: counted_def dash_paths_ok_def)
  ultimately show "at_most_one s s'" unfolding at_most_one_def using counted_trans by fastforce
qed

lemma quiet_reports:
  assumes "launched (rp_cmdi parts) (rp_supervisor parts) w"
  shows "quiet (runner_report_diff parts input nm binary_path dir diff why)"
    and "quiet (runner_report_crash parts input nm dir why)"
    and "quiet (compile_test parts input)"
proof -
  have c: "command_contract (rp_cmdi parts)"
    using launched_contract [OF assms] by (simp add: rig_contract_def)
  note quiets = command_contract.quiet_save_testcase [OF c] quiet_save_completed quiet_save_reason
    quiet_handle_info
  show "quiet (runner_report_diff parts input nm binary_path dir diff why)"
    unfolding runner_report_diff_def create_crash_dir_def Let_def by (intro emits quiets) simp
  show "quiet (runner_report_crash parts input nm dir why)"
    unfolding runner_report_crash_def create_crash_dir_def Let_def by (intro emits quiets) simp
  show "quiet (compile_test parts input)"
    unfolding compile_test_def by (intro emits command_contract.quiet_compile [OF c])
qed

lemma run_harness_counted:
  assumes "launched (rp_cmdi parts) (rp_supervisor parts) w"
  shows "steps (counted 0) (run_harness parts binary_path)"
proof -
  have c: "rig_contract (rp_cmdi parts) (rp_supervisor parts) w" by (rule launched_contract [OF assms])
  then have sv: "supervisor_contract (rp_supervisor parts) w" by (simp add: rig_contract_def)
  have harness: "steps (counted 0) (harness_run h (rp_cmdi parts) (rp_supervisor parts) binary_path k)" for h k
    unfolding steps_def using rig_contract.harness_runs_once [OF c] by (blast intro: rig_runs_counted)
  have load: "steps (counted 0) (load_snapshot parts)"
    unfolding load_snapshot_def
    by (intro counted.with_context appends_counted [OF supervisor_contract.load_snapshot_runs_no_test [OF sv]])
  show ?thesis
    unfolding run_harness_def run_fst_def run_snd_def
    by (intro counted.rules counted.outcome_cases harness load rig_quiet_counted [OF rig_quiet_runner_diff])
qed

text \<open>The contract of an implementor of the trait.\<close>

locale counted_fuzzer =
  fixes fuzz_one :: "('z runner_scheme, anyhow, unit) prog"
    and send_stats :: "bool \<Rightarrow> ('z runner_scheme, anyhow, unit) prog"
  assumes fuzz_one_counts: "steps at_most_one fuzz_one"
    and send_stats_counts: "steps (counted 0) (send_stats lazy)"
begin

text \<open>\<open>j\<close> completed iterations, \<open>k\<close> crashes.\<close>

lemma runs_counts:
  assumes "runs fuzz_one send_stats s = Some (Ok (), s')" and "dash_paths_ok s"
  shows "dash_paths_ok s' \<and> executions s' = executions s + 1
    \<and> (\<exists>k \<le> 1. crashes s' = crashes s + word_of_nat k)"
proof -
  obtain s1 where 1: "fuzz_one s = Some (Ok (), s1)"
      and 2: "send_stats True (s1\<lparr>executions := executions s1 + 1\<rparr>) = Some (Ok (), s')"
    using assms(1) by (auto simp: runs_def count_execution_def then_do_Ok)
  have "at_most_one s s1" by (rule stepsD [OF fuzz_one_counts 1])
  then obtain k where k: "k \<le> 1" "counted k s s1" by (auto simp: at_most_one_def)
  from k assms(2) have s1: "dash_paths_ok s1" "executions s1 = executions s" "crashes s1 = crashes s + word_of_nat k"
    by (simp_all add: counted_def)
  have "counted 0 (s1\<lparr>executions := executions s1 + 1\<rparr>) s'" by (rule stepsD [OF send_stats_counts 2])
  then have "dash_paths_ok s' \<and> executions s' = executions s1 + 1 \<and> crashes s' = crashes s1"
    using s1(1) by (simp add: counted_def)
  then show ?thesis using s1 k(1) by (intro conjI exI [of _ k]) simp_all
qed

lemma run_counts:
  assumes "for_each xs (\<lambda>_. runs fuzz_one send_stats) s = Some (Ok (), s')" and "dash_paths_ok s"
  shows "dash_paths_ok s' \<and> executions s' = executions s + word_of_nat (length xs)
    \<and> (\<exists>k \<le> length xs. crashes s' = crashes s + word_of_nat k)"
  using assms
proof (induction xs arbitrary: s)
  case (Cons x xs)
  then obtain s1 where 1: "runs fuzz_one send_stats s = Some (Ok (), s1)"
      and 2: "for_each xs (\<lambda>_. runs fuzz_one send_stats) s1 = Some (Ok (), s')"
    by (auto simp: then_do_Ok)
  obtain j where j: "j \<le> 1" "crashes s1 = crashes s + word_of_nat j"
      and s1: "dash_paths_ok s1" "executions s1 = executions s + 1"
    using runs_counts [OF 1 Cons.prems(2)] by blast
  obtain k where "k \<le> length xs" "crashes s' = crashes s1 + word_of_nat k"
      and "dash_paths_ok s'" "executions s' = executions s1 + word_of_nat (length xs)"
    using Cons.IH [OF 2 s1(1)] by blast
  then show ?case using j s1 by (auto intro!: exI [of _ "j + k"])
qed simp

lemma fuzzer_run_counts:
  assumes "fuzzer_run fuzz_one send_stats (Some n) s = Some (Ok (), s')" and "dash_paths_ok s"
  shows "executions s' = executions s + n \<and> (\<exists>k \<le> unat n. crashes s' = crashes s + word_of_nat k)"
  using run_counts [of "[0..<unat n]" s s'] assms by (simp add: fuzzer_run_def)

end

text \<open>Without a limit the loop ends with an error or a panic only.\<close>

lemma repeat_forever_no_Ok: "repeat_forever m s = Some y \<Longrightarrow> \<not> is_ok (fst y)"
proof (induction m s y rule: repeat_forever.raw_induct [rotated, consumes 1])
  case (1 rec m s y)
  show ?case
  proof (cases "m s")
    case (Some p)
    then show ?thesis using 1 by (cases p; cases "fst p") auto
  qed (use 1 in simp)
qed

subsection \<open>The implementors\<close>

lemma report_crash_counts:
  assumes "launched (rp_cmdi parts) (rp_supervisor parts) w" and "\<And>b. steps (counted 0) (send_stats b)"
  shows "steps at_most_one (report_crash parts send_stats input why)"
  unfolding report_crash_def asks_def
  by (intro at_most_one_then count_crash_then assms(2) counted.rules
      appends_counted [OF quiet_reports(2) [OF assms(1)]])

lemma do_objective_counts:
  assumes "launched (rp_cmdi parts) (rp_supervisor parts) w" and "\<And>b. steps (counted 0) (send_stats b)"
  shows "steps at_most_one (do_objective parts send_stats input binary_path diff)"
proof (cases "any_interesting diff")
  case True
  then show ?thesis
    unfolding do_objective_def asks_def
    by (simp, intro count_crash_then at_most_one_then assms(2) counted.rules
        appends_counted [OF quiet_reports(1) [OF assms(1)]])
qed (simp add: do_objective_def at_most_one_still counted.still)

lemma detect_errors_counts:
  assumes "launched (rp_cmdi parts) (rp_supervisor parts) w"
  shows "steps (counted 0) (detect_errors parts input binary_path diff)"
  unfolding detect_errors_def asks_def log_message_def Let_def
  by (auto simp: steps_def [of "counted 0" "modify f" for f] record_call_def counted_def dash_paths_ok_def
      intro!: counted.rules appends_counted [OF quiet_reports(1) [OF assms(1)]])

text \<open>The rules with which the \<open>match\<close> on an outcome is composed.\<close>

lemma then_at_most_one: "steps at_most_one m \<Longrightarrow> steps at_most_one (then_do m (\<lambda>_. return a))"
  by (auto simp: steps_def elim!: then_do_cases)

lemma diff_outcome_cases:
  assumes "\<And>diff. steps R (f diff)" and "\<And>nm why. steps R (report why)"
  shows "steps R (case out of
       DiffCompleted diff \<Rightarrow> f diff
     | FirstPanicked fs_name \<Rightarrow> report (panic_reason fs_name)
     | SecondPanicked fs_name \<Rightarrow> report (panic_reason fs_name)
     | FirstTimedOut fs_name timeout \<Rightarrow> report (timeout_reason fs_name timeout)
     | SecondTimedOut fs_name timeout \<Rightarrow> report (timeout_reason fs_name timeout))"
  using assms by (cases out) simp_all

lemma fuzz_input_counts:
  assumes "launched (rp_cmdi parts) (rp_supervisor parts) w" and "\<And>b. steps (counted 0) (send_stats b)"
  shows "steps at_most_one (fuzz_input parts send_stats input)"
proof -
  have found: "steps at_most_one (if found then return ()
      else then_do (do_objective parts send_stats input binary_path diff) (\<lambda>_. return ()))" for found binary_path diff
    by (simp add: then_at_most_one do_objective_counts [OF assms] at_most_one_still counted.still)
  show ?thesis
    unfolding fuzz_input_def
    by (intro at_most_one_then diff_outcome_cases found report_crash_counts [OF assms] run_harness_counted [OF assms(1)]
        detect_errors_counts [OF assms(1)] appends_counted [OF quiet_reports(3) [OF assms(1)]])
qed

lemma black_box_send_stats_counts: "steps (counted 0) (black_box_send_stats parts lazy)"
proof -
  have set: "steps (counted 0) (modify (\<lambda>s. s\<lparr>bx_last_stats := now\<rparr>))" for now
    by (simp add: steps_def counted_def dash_paths_ok_def)
  have calls: "steps (counted 0) (elapsed_secs n)" "steps (counted 0) call_clock"
      "steps (counted 0) (handle_black_box_stats h stats)" for n h stats
    by (rule appends_counted [of "\<lambda>_. True"]; intro emits; simp)+
  show ?thesis
    unfolding black_box_send_stats_def by (intro counted.rules calls set)
qed

lemma black_box_generate_counts: "steps (counted 0) (black_box_generate fuel rng conf)"
  by (auto simp: steps_def black_box_generate_def counted_def dash_paths_ok_def)

lemma black_box_counted:
  assumes "launched (rp_cmdi parts) (rp_supervisor parts) w"
  shows "counted_fuzzer (black_box_fuzz_one fuel rng parts) (black_box_send_stats parts)"
  by unfold_locales
    (auto simp: black_box_fuzz_one_def
      intro!: at_most_one_then black_box_generate_counts black_box_send_stats_counts fuzz_input_counts [OF assms])

end
