(* ===== verification/Schedule.thy ===== *)
theory Schedule
  imports Fuzzer
begin

text \<open>
  \<open>fuzzing/greybox/seed.rs\<close>, \<open>schedule.rs\<close> and \<open>mutator.rs\<close>: the seeds of the grey box fuzzer, which of them
  comes next and how it is mutated.

  The arithmetic of \<open>f64\<close> and the weighted draw with such weights are the fields of \<open>float_ops\<close>. The
  locale \<open>scheduler_contract\<close> is the trait \<open>Scheduler\<close>: a choice returns the workload of one seed and counts it.
\<close>

subsection \<open>Seeds\<close>

record seed =
  sd_workload :: workload
  sd_times_choosen :: u64
  sd_fst_coverage :: input_coverage
  sd_snd_coverage :: input_coverage

definition seed_new :: "workload \<Rightarrow> input_coverage \<Rightarrow> input_coverage \<Rightarrow> seed" where
  "seed_new w fst_coverage snd_coverage =
     \<lparr>sd_workload = w, sd_times_choosen = 0, sd_fst_coverage = fst_coverage, sd_snd_coverage = snd_coverage\<rparr>"

definition count_choice :: "nat \<Rightarrow> seed list \<Rightarrow> seed list" where
  "count_choice i corpus = corpus[i := (corpus ! i)\<lparr>sd_times_choosen := sd_times_choosen (corpus ! i) + 1\<rparr>]"

subsection \<open>Schedulers\<close>

definition queue_choose :: "nat \<Rightarrow> seed list \<Rightarrow> (anyhow, workload) res \<times> nat \<times> seed list" where
  "queue_choose next_index0 corpus =
     (let next_index = (if length corpus \<le> next_index0 then 0 else next_index0)
      in case vec_get corpus next_index of
           None \<Rightarrow> (Err [''failed to choose seed''], next_index, corpus)
         | Some next \<Rightarrow> (Ok (sd_workload next), next_index + 1, count_choice next_index corpus))"

record ('f, 'g) float_ops =
  fl_of :: "u64 \<Rightarrow> 'f"
  fl_powf :: "'f \<Rightarrow> 'f \<Rightarrow> 'f"
  fl_div :: "'f \<Rightarrow> 'f \<Rightarrow> 'f"
  fl_less :: "'f \<Rightarrow> 'f \<Rightarrow> bool"
  fl_choose_weighted :: "'f list \<Rightarrow> 'g \<Rightarrow> (string + nat) \<times> 'g"

text \<open>The least count of an address that the input covers; an unknown address counts one.\<close>

definition path_frequency :: "input_coverage \<Rightarrow> coverage_map \<Rightarrow> u64" where
  "path_frequency coverage m =
     (case map (\<lambda>addr. case map_of m addr of None \<Rightarrow> 1 | Some n \<Rightarrow> n) coverage of
        [] \<Rightarrow> 1
      | n # ns \<Rightarrow> foldl min n ns)"

definition seed_power :: "('f, 'g) float_ops \<Rightarrow> u64 \<Rightarrow> input_coverage \<Rightarrow> coverage_map \<Rightarrow> 'f \<Rightarrow> 'f" where
  "seed_power fl times_choosen coverage m bound =
     (let p = fl_div fl (fl_powf fl (fl_of fl 2) (fl_of fl times_choosen)) (fl_of fl (path_frequency coverage m))
      in if fl_less fl p bound then p else bound)"

definition seed_weight ::
    "('f, 'g) float_ops \<Rightarrow> coverage_map \<Rightarrow> coverage_map \<Rightarrow> 'f \<Rightarrow> seed \<Rightarrow> 'f" where
  "seed_weight fl fst_map snd_map bound sd =
     (let fst_power = seed_power fl (sd_times_choosen sd) (sd_fst_coverage sd) fst_map bound;
          snd_power = seed_power fl (sd_times_choosen sd) (sd_snd_coverage sd) snd_map bound
      in fl_div fl (fl_of fl 1) (if fl_less fl fst_power snd_power then fst_power else snd_power))"

definition fast_choose ::
    "('f, 'g) float_ops \<Rightarrow> 'f \<Rightarrow> coverage_map \<Rightarrow> coverage_map \<Rightarrow> 'g \<Rightarrow> seed list \<Rightarrow>
     (anyhow, workload) res \<times> 'g \<times> seed list" where
  "fast_choose fl bound fst_map snd_map g corpus =
     (case fl_choose_weighted fl (map (seed_weight fl fst_map snd_map bound) corpus) g of
        (Inl e, g') \<Rightarrow> (Err [''failed to choose seed'', e], g', corpus)
      | (Inr i, g') \<Rightarrow>
          (case vec_get corpus i of
             None \<Rightarrow> (Crash Panicked, g', corpus)
           | Some next \<Rightarrow> (Ok (sd_workload next), g', count_choice i corpus)))"

datatype ('f, 'g) scheduler = QueueScheduler nat | FastPowerScheduler 'f 'g

definition scheduler_new :: "('f, 'g) float_ops \<Rightarrow> 'g \<Rightarrow> greybox_config \<Rightarrow> ('f, 'g) scheduler" where
  "scheduler_new fl os_seed conf =
     (case scheduler_of conf of
        QueueKind \<Rightarrow> QueueScheduler 0
      | FastKind \<Rightarrow> FastPowerScheduler (fl_of fl (m_constant conf)) os_seed)"

fun scheduler_choose ::
    "('f, 'g) float_ops \<Rightarrow> coverage_map \<Rightarrow> coverage_map \<Rightarrow> ('f, 'g) scheduler \<Rightarrow> seed list \<Rightarrow>
     (anyhow, workload) res \<times> ('f, 'g) scheduler \<times> seed list" where
  "scheduler_choose fl fst_map snd_map (QueueScheduler i) corpus =
     (case queue_choose i corpus of (r, i', corpus') \<Rightarrow> (r, QueueScheduler i', corpus'))"
| "scheduler_choose fl fst_map snd_map (FastPowerScheduler bound g) corpus =
     (case fast_choose fl bound fst_map snd_map g corpus of
        (r, g', corpus') \<Rightarrow> (r, FastPowerScheduler bound g', corpus'))"

subsection \<open>The contract of a scheduler\<close>

locale scheduler_contract =
  fixes pick_seed :: "'st \<Rightarrow> seed list \<Rightarrow> (anyhow, workload) res \<times> 'st \<times> seed list"
  assumes chooses_member: "pick_seed st corpus = (Ok w, st', corpus') \<Longrightarrow>
      \<exists>i < length corpus. w = sd_workload (corpus ! i) \<and> corpus' = count_choice i corpus"
    and failure_keeps: "pick_seed st corpus = (r, st', corpus') \<Longrightarrow> \<not> is_ok r \<Longrightarrow> corpus' = corpus"
begin

lemma workloads_kept:
  assumes "pick_seed st corpus = (r, st', corpus')"
  shows "map sd_workload corpus' = map sd_workload corpus"
proof (cases r)
  case (Ok w)
  then obtain i where "i < length corpus" "corpus' = count_choice i corpus"
    using chooses_member assms by blast
  then show ?thesis by (simp add: count_choice_def map_update list_update_id [of "map _ _", simplified nth_map])
      (metis list_update_id map_update nth_map)
qed (use failure_keeps [OF assms] in auto)

lemma chosen_in_corpus:
  "pick_seed st corpus = (Ok w, st', corpus') \<Longrightarrow> w \<in> sd_workload ` set corpus"
  using chooses_member by fastforce

end

interpretation queue: scheduler_contract queue_choose
  by unfold_locales (auto simp: queue_choose_def Let_def split: option.splits if_splits)

interpretation schedulers: scheduler_contract "scheduler_choose fl fst_map snd_map" for fl fst_map snd_map
proof
  fix st st' and corpus corpus' :: "seed list" and w and r :: "(anyhow, workload) res"
  show "\<exists>i < length corpus. w = sd_workload (corpus ! i) \<and> corpus' = count_choice i corpus"
    if "scheduler_choose fl fst_map snd_map st corpus = (Ok w, st', corpus')"
    using that by (cases st) (auto simp: fast_choose_def dest: queue.chooses_member split: prod.splits sum.splits option.splits)
  show "corpus' = corpus" if "scheduler_choose fl fst_map snd_map st corpus = (r, st', corpus')" "\<not> is_ok r"
    using that by (cases st) (auto simp: fast_choose_def dest: queue.failure_keeps split: prod.splits sum.splits option.splits)
qed

subsection \<open>The queue is fair\<close>

primrec queue_choices :: "nat \<Rightarrow> nat \<Rightarrow> seed list \<Rightarrow> workload list \<times> nat \<times> seed list" where
  "queue_choices 0 i corpus = ([], i, corpus)"
| "queue_choices (Suc k) i corpus =
     (case queue_choose i corpus of
        (Ok w, i', corpus') \<Rightarrow> (case queue_choices k i' corpus' of (ws, i'', corpus'') \<Rightarrow> (w # ws, i'', corpus''))
      | (_, i', corpus') \<Rightarrow> ([], i', corpus'))"

lemma length_count_choice [simp]: "length (count_choice i corpus) = length corpus"
  by (simp add: count_choice_def)

lemma workload_count_choice [simp]:
  "j < length corpus \<Longrightarrow> sd_workload (count_choice i corpus ! j) = sd_workload (corpus ! j)"
  by (cases "i = j") (simp_all add: count_choice_def)

lemma times_count_choice:
  "j < length corpus \<Longrightarrow> sd_times_choosen (count_choice i corpus ! j) = sd_times_choosen (corpus ! j) + of_bool (i = j)"
  by (cases "i = j") (simp_all add: count_choice_def)

lemma queue_choose_next:
  assumes "corpus \<noteq> []" and "i \<le> length corpus"
  shows "queue_choose i corpus =
    (Ok (sd_workload (corpus ! (i mod length corpus))), i mod length corpus + 1, count_choice (i mod length corpus) corpus)"
  using assms by (cases "i = length corpus") (auto simp: queue_choose_def Let_def vec_get_def)

lemma queue_choices_cycle:
  assumes "corpus \<noteq> []" and "i \<le> length corpus"
  shows "queue_choices k i corpus = (ws, i', corpus') \<Longrightarrow>
    ws = map (\<lambda>j. sd_workload (corpus ! ((i + j) mod length corpus))) [0..<k]
    \<and> length corpus' = length corpus
    \<and> (\<forall>j < length corpus. sd_times_choosen (corpus' ! j) = sd_times_choosen (corpus ! j)
         + word_of_nat (length (filter (\<lambda>m. (i + m) mod length corpus = j) [0..<k])))"
  using assms
proof (induction k arbitrary: i corpus ws i' corpus')
  case (Suc k)
  let ?n = "length corpus" and ?i = "i mod length corpus"
  note c = queue_choose_next [OF Suc.prems(2,3)]
  obtain ws1 i1 corpus1 where rest: "queue_choices k (?i + 1) (count_choice ?i corpus) = (ws1, i1, corpus1)"
    by (cases "queue_choices k (?i + 1) (count_choice ?i corpus)") auto
  then have eq: "ws = sd_workload (corpus ! ?i) # ws1" "i' = i1" "corpus' = corpus1" using Suc.prems(1) c by simp_all
  have ne: "count_choice ?i corpus \<noteq> []" using Suc.prems(2) by (metis length_0_conv length_count_choice)
  have n0: "0 < ?n" using Suc.prems(2) by simp
  then have le: "?i + 1 \<le> length (count_choice ?i corpus)" by (simp add: Suc_leI)
  have shift: "(?i + 1 + j) mod ?n = (i + Suc j) mod ?n" for j
    by (metis add.assoc add_Suc_shift mod_add_left_eq plus_1_eq_Suc)
  note ih = Suc.IH [OF rest ne le, unfolded length_count_choice shift]
  have ws1: "ws1 = map (\<lambda>j. sd_workload (corpus ! ((i + Suc j) mod ?n))) [0..<k]"
    using ih n0 by simp
  have upt: "[0..<Suc k] = 0 # map Suc [0..<k]" by (metis map_Suc_upt upt_conv_Cons zero_less_Suc)
  have len: "length (filter (\<lambda>m. (i + m) mod ?n = j) [0..<Suc k])
      = of_bool (?i = j) + length (filter (\<lambda>m. (i + Suc m) mod ?n = j) [0..<k])" for j
    unfolding upt by (simp add: filter_map comp_def)
  show ?case
    using ih ws1 eq times_count_choice [of _ corpus ?i] by (simp add: len upt comp_def del: upt_Suc)
qed simp

text \<open>In as many choices as there are seeds each one is chosen once.\<close>

lemma cycle_once:
  assumes "0 < n" and "j < n"
  shows "length (filter (\<lambda>m. (i + m) mod n = j) [0..<n]) = 1"
proof -
  define m0 where "m0 = (j + (n - i mod n)) mod n"
  have "(i + m0) mod n = (i mod n + (j + (n - i mod n))) mod n" by (simp add: m0_def mod_simps)
  also have "i mod n + (j + (n - i mod n)) = j + n" using mod_less_divisor [OF assms(1), of i] by simp
  finally have m0: "(i + m0) mod n = j" using assms(2) by simp
  have "m = m0" if "m < n" "(i + m) mod n = j" for m
  proof -
    have "(i + m) mod n = (i + m0) mod n" using that(2) m0 by simp
    then have "m mod n = m0 mod n" unfolding nat_mod_eq_iff by simp
    then show ?thesis using that(1) by (simp add: m0_def)
  qed
  moreover have "m0 < n" using assms(1) by (simp add: m0_def)
  ultimately have "{m. m < n \<and> (i + m) mod n = j} = {m0}" using m0 by blast
  moreover have "{m. m < n \<and> (i + [0..<n] ! m) mod n = j} = {m. m < n \<and> (i + m) mod n = j}" by auto
  ultimately show ?thesis by (simp add: length_filter_conv_card)
qed

end
