(* ===== verification/Mutate.thy ===== *)
theory Mutate
  imports World
begin

text \<open>
  \<open>fuzzing/greybox/mutator.rs\<close>: how many mutations an input gets, and which. The fields of \<open>Mutator\<close> other than
  the random source are the record \<open>mutator\<close>. A failed mutation is tried again, so the loop may not end.

  The result is a workload that runs: it replays on an empty file system, is its own recording
  and is no longer than the limit, or than the input when that is longer; it is \<open>ordered\<close> when the input is.
\<close>

record mutator =
  mt_operation_weights :: operation_weights
  mt_mutation_weights :: mutation_weights
  mt_max_length :: u16
  mt_max_mutations :: u16

definition mutator_new ::
    "operation_weights \<Rightarrow> mutation_weights \<Rightarrow> u16 \<Rightarrow> u16 \<Rightarrow> mutator" where
  "mutator_new op_weights mut_weights max_len max_mut =
     \<lparr>mt_operation_weights = op_weights, mt_mutation_weights = mut_weights, mt_max_length = max_len,
      mt_max_mutations = max_mut\<rparr>"

text \<open>\<open>random_range(lo..hi)\<close>, which panics on an empty range.\<close>

definition random_range :: "'g rng \<Rightarrow> nat \<Rightarrow> nat \<Rightarrow> ('g, 'e, nat) prog" where
  "random_range rng lo hi = (\<lambda>g.
     if hi \<le> lo then Some (Crash Panicked, g)
     else case choose_index rng (hi - lo) g of (i, g') \<Rightarrow> Some (Ok (lo + i), g'))"

definition retain_mutation :: "mutation_kind \<Rightarrow> mutation_weights \<Rightarrow> mutation_weights" where
  "retain_mutation k ws = filter (\<lambda>(op, _). op \<noteq> k) ws"

definition possible_mutations :: "mutator \<Rightarrow> workload \<Rightarrow> mutation_weights" where
  "possible_mutations mt input =
     (let ws = mt_mutation_weights mt;
          ws1 = (if ops input = [] then retain_mutation MRemove ws else ws)
      in if unat (mt_max_length mt) \<le> length (ops input) then retain_mutation MInsert ws1 else ws1)"

definition draw_mutation :: "'g rng \<Rightarrow> mutation_weights \<Rightarrow> ('g, 'e, mutation_kind) prog" where
  "draw_mutation rng ws = (\<lambda>g.
     case choose_weight rng (map snd ws) g of (i, g') \<Rightarrow>
       Some (and_then (unwrap i) (\<lambda>i. and_then (unwrap (vec_get ws i)) (\<lambda>(k, _). Ok k)), g'))"

text \<open>The new workload, if the mutation succeeds.\<close>

definition mutate_once ::
    "nat \<Rightarrow> 'g rng \<Rightarrow> mutator \<Rightarrow> workload \<Rightarrow> ('g, fs_error, workload option) prog" where
  "mutate_once fuel rng mt input =
     then_do (draw_mutation rng (possible_mutations mt input)) (\<lambda>kind.
     case kind of
       MInsert \<Rightarrow>
         then_do (random_range rng 0 (length (ops input) + 1)) (\<lambda>index g.
         mutator_insert fuel rng g input index (mt_operation_weights mt))
     | MRemove \<Rightarrow>
         then_do (random_range rng 0 (length (ops input))) (\<lambda>index.
         lift_res (mutator_remove input index)))"

partial_function (option) mutate_loop ::
    "nat \<Rightarrow> 'g rng \<Rightarrow> mutator \<Rightarrow> nat \<Rightarrow> nat \<Rightarrow> workload \<Rightarrow> ('g, fs_error, workload) prog" where
  "mutate_loop fuel rng mt n count input g =
     (if count < n
      then then_do (mutate_once fuel rng mt input) (\<lambda>result g'.
        case result of
          Some w \<Rightarrow> mutate_loop fuel rng mt n (count + 1) w g'
        | None \<Rightarrow> mutate_loop fuel rng mt n count input g') g
      else return input g)"

definition mutate :: "nat \<Rightarrow> 'g rng \<Rightarrow> mutator \<Rightarrow> workload \<Rightarrow> ('g, fs_error, workload) prog" where
  "mutate fuel rng mt input =
     then_do (random_range rng 1 (unat (mt_max_mutations mt) + 1)) (\<lambda>n.
     mutate_loop fuel rng mt n 0 input)"

subsection \<open>One mutation\<close>

definition runnable :: "workload \<Rightarrow> bool" where
  "runnable w \<longleftrightarrow> (\<exists>fs. replay w fs_new = (Ok (), fs) \<and> recording fs = w)"

lemma random_range_Ok:
  assumes "good_rng rng" and "random_range rng lo hi g = Some (r, g')"
  shows "r = Crash Panicked \<and> hi \<le> lo \<or> (\<exists>i. r = Ok i \<and> lo \<le> i \<and> i < hi)"
proof (cases "hi \<le> lo")
  case False
  then have "fst (choose_index rng (hi - lo) g) < hi - lo" using assms(1) by (simp add: good_rng_def)
  then show ?thesis using False assms(2) by (auto simp: random_range_def split: prod.splits)
qed (use assms(2) in \<open>simp add: random_range_def\<close>)

text \<open>The outcome of one attempt: nothing, or a workload that is longer by one or shorter by one.\<close>

definition mutated_once :: "mutator \<Rightarrow> workload \<Rightarrow> workload \<Rightarrow> bool" where
  "mutated_once mt w w' \<longleftrightarrow>
     runnable w' \<and> wf_ops (ops w') \<and> written (ops w') \<le> written (ops w) + max_write
     \<and> (length (ops w') = Suc (length (ops w)) \<and> length (ops w) < unat (mt_max_length mt)
        \<or> Suc (length (ops w')) = length (ops w))
     \<and> (ordered (ops w) \<longrightarrow> ordered (ops w')) \<and> (small_writes (ops w) \<longrightarrow> small_writes (ops w'))"

lemma draw_mutation_kind:
  assumes "draw_mutation rng (possible_mutations mt w) g = (Some (Ok k, g') :: (('e, _) res \<times> _) option)"
  shows "k = MInsert \<longrightarrow> length (ops w) < unat (mt_max_length mt)" and "k = MRemove \<longrightarrow> ops w \<noteq> []"
proof -
  let ?ws = "possible_mutations mt w"
  obtain d g1 where d: "choose_weight rng (map snd ?ws) g = (d, g1)" by (cases "choose_weight rng (map snd ?ws) g")
  then have "and_then (unwrap d) (\<lambda>i. and_then (unwrap (vec_get ?ws i)) (\<lambda>(k, _). Ok k)) = (Ok k :: ('e, _) res)"
    using assms by (simp add: draw_mutation_def)
  then obtain i p where "i < length ?ws" "?ws ! i = p" "(case p of (k, _) \<Rightarrow> Ok k) = (Ok k :: ('e, _) res)"
    by (simp only: and_then_eq_Ok unwrap_eq_Ok vec_get_eq_Some) blast
  then obtain v where "i < length ?ws" "?ws ! i = (k, v)" by (cases p) auto
  then have "(k, v) \<in> set (possible_mutations mt w)" by (metis nth_mem)
  then show "k = MInsert \<longrightarrow> length (ops w) < unat (mt_max_length mt)" "k = MRemove \<longrightarrow> ops w \<noteq> []"
    by (auto simp: possible_mutations_def retain_mutation_def Let_def split: if_splits)
qed

lemma mutate_once_result:
  assumes "good_rng rng" and "usable_weights (mt_operation_weights mt)"
    and "wf_ops (ops w)" and "written (ops w) + max_write < 2 ^ 64"
    and "mutate_once fuel rng mt w g = Some (Ok (Some w'), g')"
  shows "mutated_once mt w w'"
proof -
  obtain k g1 where k: "draw_mutation rng (possible_mutations mt w) g = (Some (Ok k, g1) :: ((fs_error, _) res \<times> _) option)"
    and rest: "(case k of
       MInsert \<Rightarrow> then_do (random_range rng 0 (length (ops w) + 1)) (\<lambda>index g.
         mutator_insert fuel rng g w index (mt_operation_weights mt))
     | MRemove \<Rightarrow> then_do (random_range rng 0 (length (ops w))) (\<lambda>index.
         lift_res (mutator_remove w index))) g1 = Some (Ok (Some w'), g')"
    using assms(5) unfolding mutate_once_def then_do_Ok by blast
  note kinds = draw_mutation_kind [OF k]
  show ?thesis
  proof (cases k)
    case MInsert
    then obtain i g2 where i: "random_range rng 0 (length (ops w) + 1) g1 = (Some (Ok i, g2) :: ((fs_error, _) res \<times> _) option)"
      and m: "mutator_insert fuel rng g2 w i (mt_operation_weights mt) = Some (Ok (Some w'), g')"
      using rest by (auto simp: then_do_Ok)
    have i: "i \<le> length (ops w)" using random_range_Ok [OF assms(1) i] by simp
    have result: "wf_ops (ops w')" "written (ops w') \<le> written (ops w) + max_write"
      "\<exists>op. op_written op \<le> max_write \<and> list_all2 same_effect (take i (ops w) @ op # drop i (ops w)) (ops w')"
      "ordered (ops w) \<longrightarrow> ordered (ops w')" "\<exists>fs. replay w' fs_new = (Ok (), fs) \<and> recording fs = w'"
      using mutator_insert_result(3) [OF assms(1-4) i m] by blast+
    then obtain op where op: "op_written op \<le> max_write" "list_all2 same_effect (take i (ops w) @ op # drop i (ops w)) (ops w')"
      by blast
    have "length (ops w') = Suc (length (ops w))" using list_all2_lengthD [OF op(2)] i by simp
    moreover have "small_writes (ops w) \<longrightarrow> small_writes (ops w')"
      using same_effect_small [OF op(2)] small_writes_insert op(1) by blast
    ultimately show ?thesis using kinds MInsert result by (simp add: mutated_once_def runnable_def)
  next
    case MRemove
    then obtain i g2 where i: "random_range rng 0 (length (ops w)) g1 = (Some (Ok i, g2) :: ((fs_error, _) res \<times> _) option)"
      and m: "mutator_remove w i = Ok (Some w')"
      using rest by (auto simp: then_do_Ok)
    have i: "i < length (ops w)" using random_range_Ok [OF assms(1) i] by simp
    have "written (ops w) < 2 ^ 64" using assms(4) by simp
    note result = mutator_remove_result(3) [OF assms(3) this i m]
    then have "small_writes (ops w) \<longrightarrow> small_writes (ops w')" using same_effect_small small_writes_remove_at by blast
    then show ?thesis
      using result i list_all2_lengthD [of same_effect "remove_at i (ops w)" "ops w'"] length_remove_at [OF i]
      by (auto simp: mutated_once_def runnable_def)
  qed
qed

text \<open>An attempt on a workload that a rank orders never loops in a link.\<close>

lemma then_do_no_overflow:
  assumes "\<And>r t. m s = Some (r, t) \<Longrightarrow> r \<noteq> Crash StackOverflow"
    and "\<And>a t. m s = Some (Ok a, t) \<Longrightarrow> f a t = Some (r', s') \<Longrightarrow> r' \<noteq> Crash StackOverflow"
    and "then_do m f s = Some (r', s')"
  shows "r' \<noteq> Crash StackOverflow"
  using assms by (fastforce simp: then_do_def split: option.splits prod.splits res.splits)

lemma random_range_no_overflow: "random_range rng lo hi g = Some (r, g') \<Longrightarrow> r \<noteq> Crash StackOverflow"
  by (auto simp: random_range_def split: if_splits prod.splits)

lemma draw_mutation_no_overflow: "draw_mutation rng ws g = Some (r, g') \<Longrightarrow> r \<noteq> Crash StackOverflow"
  by (auto simp: draw_mutation_def split: prod.splits)

lemma mutate_once_no_overflow:
  assumes "good_rng rng" and "usable_weights (mt_operation_weights mt)"
    and "wf_ops (ops w)" and "written (ops w) + max_write < 2 ^ 64" and "ordered (ops w)"
    and "mutate_once fuel rng mt w g = Some (r, g')"
  shows "r \<noteq> Crash StackOverflow"
  using assms(6) unfolding mutate_once_def
proof (rule then_do_no_overflow [rotated 2, OF _ draw_mutation_no_overflow])
  fix k g1
  assume run: "(case k of
       MInsert \<Rightarrow> then_do (random_range rng 0 (length (ops w) + 1)) (\<lambda>index g.
         mutator_insert fuel rng g w index (mt_operation_weights mt))
     | MRemove \<Rightarrow> then_do (random_range rng 0 (length (ops w))) (\<lambda>index.
         lift_res (mutator_remove w index))) g1 = Some (r, g')"
  show "r \<noteq> Crash StackOverflow"
  proof (cases k)
    case MInsert
    have run': "then_do (random_range rng 0 (length (ops w) + 1)) (\<lambda>index g.
        mutator_insert fuel rng g w index (mt_operation_weights mt)) g1 = Some (r, g')"
      using run MInsert by simp
    show ?thesis
    proof (rule then_do_no_overflow [OF random_range_no_overflow _ run'])
      fix i g2
      assume i: "random_range rng 0 (length (ops w) + 1) g1 = (Some (Ok i, g2) :: ((fs_error, _) res \<times> _) option)"
        and m: "mutator_insert fuel rng g2 w i (mt_operation_weights mt) = Some (r, g')"
      have "i \<le> length (ops w)" using random_range_Ok [OF assms(1) i] by simp
      from mutator_insert_result(2) [OF assms(1-4) this m assms(5)] show "r \<noteq> Crash StackOverflow" .
    qed
  next
    case MRemove
    have run': "then_do (random_range rng 0 (length (ops w))) (\<lambda>index. lift_res (mutator_remove w index)) g1 = Some (r, g')"
      using run MRemove by simp
    show ?thesis
    proof (rule then_do_no_overflow [OF random_range_no_overflow _ run'])
      fix i g2
      assume i: "random_range rng 0 (length (ops w)) g1 = (Some (Ok i, g2) :: ((fs_error, _) res \<times> _) option)"
        and m: "lift_res (mutator_remove w i) g2 = Some (r, g')"
      have "i < length (ops w)" using random_range_Ok [OF assms(1) i] by simp
      then have "mutator_remove w i \<noteq> Crash StackOverflow"
        using mutator_remove_result(2) [OF assms(3) _ _ assms(5)] assms(4) by simp
      then show "r \<noteq> Crash StackOverflow" using m by (auto simp: lift_res_def)
    qed
  qed
qed

subsection \<open>The loop\<close>

text \<open>What the loop keeps, with room for the mutations still to come.\<close>

definition loop_inv :: "mutator \<Rightarrow> nat \<Rightarrow> nat \<Rightarrow> workload \<Rightarrow> workload \<Rightarrow> bool" where
  "loop_inv mt n count w0 w \<longleftrightarrow>
     wf_ops (ops w) \<and> written (ops w) + (n - count) * max_write < 2 ^ 64
     \<and> length (ops w) \<le> max (length (ops w0)) (unat (mt_max_length mt))
     \<and> (w \<noteq> w0 \<or> 0 < count \<longrightarrow> runnable w) \<and> (ordered (ops w0) \<longrightarrow> ordered (ops w))
     \<and> (small_writes (ops w0) \<longrightarrow> small_writes (ops w))"

lemma loop_inv_step:
  assumes "loop_inv mt n count w0 w" and "count < n" and "mutated_once mt w w'"
  shows "loop_inv mt n (count + 1) w0 w'"
proof -
  have "n - count = Suc (n - (count + 1))" using assms(2) by simp
  then have "written (ops w') + (n - (count + 1)) * max_write < 2 ^ 64"
    using assms(1,3) by (simp add: loop_inv_def mutated_once_def)
  then show ?thesis using assms(1,3) by (auto simp: loop_inv_def mutated_once_def)
qed

lemma loop_inv_room:
  assumes "loop_inv mt n count w0 w" and "count < n"
  shows "wf_ops (ops w)" and "written (ops w) + max_write < 2 ^ 64"
proof -
  have "max_write \<le> (n - count) * max_write" using assms(2) by (simp add: Suc_le_eq)
  moreover have "written (ops w) + (n - count) * max_write < 2 ^ 64" using assms(1) by (simp add: loop_inv_def)
  ultimately show "written (ops w) + max_write < 2 ^ 64" by linarith
qed (use assms(1) in \<open>simp add: loop_inv_def\<close>)

lemma mutate_loop_result:
  assumes "good_rng rng" and "usable_weights (mt_operation_weights mt)"
    and "mutate_loop fuel rng mt n count w g = Some y"
  shows "loop_inv mt n count w0 w \<Longrightarrow> count \<le> n \<Longrightarrow>
    (fst y = Ok w' \<longrightarrow> loop_inv mt n n w0 w') \<and> (ordered (ops w0) \<longrightarrow> fst y \<noteq> Crash StackOverflow)"
  using assms(3,1,2)
proof (induction fuel rng mt n count w g y rule: mutate_loop.raw_induct [rotated, consumes 1])
  case (1 rec fuel rng mt n count w g y)
  note step = "1.hyps" and inv = "1.prems"(1)
  let ?rest = "\<lambda>result g'. case result of
      Some w \<Rightarrow> rec fuel rng mt n (count + 1) w g'
    | None \<Rightarrow> rec fuel rng mt n count w g'"
  obtain r s' where y: "y = (r, s')" by (cases y)
  show ?case
  proof (cases "count < n")
    case True
    note room = loop_inv_room [OF inv True]
    have body: "then_do (mutate_once fuel rng mt w) ?rest g = Some (r, s')" using 1 True y by simp
    have once: "r1 \<noteq> Crash StackOverflow"
      if "ordered (ops w0)" "mutate_once fuel rng mt w g = Some (r1, g1)" for r1 g1
      using mutate_once_no_overflow [OF "1.prems"(3,4) room _ that(2)] that(1) inv by (simp add: loop_inv_def)
    have rest: "(r = Ok w' \<longrightarrow> loop_inv mt n n w0 w') \<and> (ordered (ops w0) \<longrightarrow> r \<noteq> Crash StackOverflow)"
      if m: "mutate_once fuel rng mt w g = Some (Ok result, g1)" "?rest result g1 = Some (r, s')" for result g1
    proof (cases result)
      case None
      then show ?thesis using "1.IH" [of fuel rng mt n count w g1 "(r, s')"] m(2) "1.prems" by simp
    next
      case (Some w1)
      have "mutated_once mt w w1" using mutate_once_result [OF "1.prems"(3,4) room] m(1) Some by blast
      then have "loop_inv mt n (count + 1) w0 w1" using loop_inv_step inv True by blast
      then show ?thesis
        using "1.IH" [of fuel rng mt n "count + 1" w1 g1 "(r, s')"] m(2) Some True "1.prems" by simp
    qed
    have "loop_inv mt n n w0 w'" if ok: "r = Ok w'"
    proof -
      obtain result g1 where "mutate_once fuel rng mt w g = Some (Ok result, g1)" "?rest result g1 = Some (r, s')"
        using body unfolding ok then_do_Ok by blast
      from rest [OF this] ok show ?thesis by simp
    qed
    moreover have "r \<noteq> Crash StackOverflow" if "ordered (ops w0)"
    proof (rule then_do_no_overflow [OF once [OF that] _ body])
      show "r \<noteq> Crash StackOverflow" if "mutate_once fuel rng mt w g = Some (Ok result, g1)"
        "?rest result g1 = Some (r, s')" for result g1
        using rest [OF that] \<open>ordered (ops w0)\<close> by blast
    qed
    ultimately show ?thesis using y by simp
  next
    case False
    then show ?thesis using 1 by (cases "count = n") auto
  qed
qed

lemma mutate_result:
  assumes "good_rng rng" and "usable_weights (mt_operation_weights mt)"
    and "wf_ops (ops w)" and "written (ops w) + 65535 * max_write < 2 ^ 64"
    and "mutate fuel rng mt w g = Some (r, g')"
  shows "r = Ok w' \<Longrightarrow> runnable w' \<and> wf_ops (ops w') \<and> length (ops w') \<le> max (length (ops w)) (unat (mt_max_length mt))
      \<and> (ordered (ops w) \<longrightarrow> ordered (ops w')) \<and> (small_writes (ops w) \<longrightarrow> small_writes (ops w'))"
    and "ordered (ops w) \<Longrightarrow> r \<noteq> Crash StackOverflow"
proof -
  have loop: "(r = Ok w' \<longrightarrow> 0 < n \<and> loop_inv mt n n w w') \<and> (ordered (ops w) \<longrightarrow> r \<noteq> Crash StackOverflow)"
    if n: "random_range rng 1 (unat (mt_max_mutations mt) + 1) g = (Some (Ok n, g1) :: ((fs_error, _) res \<times> _) option)"
      and run: "mutate_loop fuel rng mt n 0 w g1 = Some (r, g')" for n g1
  proof -
    have "unat (mt_max_mutations mt) < 2 ^ 16" using unsigned_less [of "mt_max_mutations mt"] by simp
    then have small: "n \<le> 65535" "0 < n" using random_range_Ok [OF assms(1) n] by auto
    then have "n * max_write \<le> 65535 * max_write" by (intro mult_right_mono) simp_all
    then have "written (ops w) + n * max_write < 2 ^ 64" using assms(4) by linarith
    then have "loop_inv mt n 0 w w" using assms(3) by (simp add: loop_inv_def)
    from mutate_loop_result [OF assms(1,2) run this, of w'] show ?thesis using small by simp
  qed
  show "r \<noteq> Crash StackOverflow" if "ordered (ops w)"
  proof (rule then_do_no_overflow [OF random_range_no_overflow _ assms(5) [unfolded mutate_def]])
    show "r \<noteq> Crash StackOverflow" if "random_range rng 1 (unat (mt_max_mutations mt) + 1) g = (Some (Ok n, g1) :: ((fs_error, _) res \<times> _) option)"
      "mutate_loop fuel rng mt n 0 w g1 = Some (r, g')" for n g1
      using loop [OF that] \<open>ordered (ops w)\<close> by blast
  qed
  assume "r = Ok w'"
  then obtain n g1 where "random_range rng 1 (unat (mt_max_mutations mt) + 1) g = (Some (Ok n, g1) :: ((fs_error, _) res \<times> _) option)"
    "mutate_loop fuel rng mt n 0 w g1 = Some (r, g')"
    using assms(5) unfolding mutate_def \<open>r = Ok w'\<close> then_do_Ok by blast
  from loop [OF this] \<open>r = Ok w'\<close> have "0 < n" "loop_inv mt n n w w'" by simp_all
  then show "runnable w' \<and> wf_ops (ops w') \<and> length (ops w') \<le> max (length (ops w)) (unat (mt_max_length mt))
      \<and> (ordered (ops w) \<longrightarrow> ordered (ops w')) \<and> (small_writes (ops w) \<longrightarrow> small_writes (ops w'))"
    by (simp add: loop_inv_def)
qed

end
