(* ===== verification/Greybox.thy ===== *)
theory Greybox
  imports Schedule Mutate
begin

text \<open>
  \<open>fuzzing/greybox/fuzzer.rs\<close> and the file access of \<open>feedback/kcov.rs\<close>: the coverage-guided fuzzer. Its state
  extends the runner with the corpora, the scheduler, the coverage of both file systems and the random source.
  The fields that never change are the record \<open>grey_box_parts\<close>.
\<close>

record ('f, 'g) grey_box = runner +
  gx_initial_corpus :: "workload list"
  gx_next_initial :: nat
  gx_corpus :: "seed list"
  gx_scheduler :: "('f, 'g) scheduler"
  gx_fst_feedback :: coverage_feedback
  gx_snd_feedback :: coverage_feedback
  gx_rng :: 'g
  gx_last_stats :: nat

record ('f, 'g) grey_box_parts =
  gp_fuel :: nat
  gp_rng :: "'g rng"
  gp_float_ops :: "('f, 'g) float_ops"
  gp_mutator :: mutator
  gp_corpus_path :: "local_path option"

subsection \<open>Coverage of an outcome\<close>

definition KCOV_FILENAME :: string where "KCOV_FILENAME = ''kcov.dat''"

definition parse_kcov :: "local_path \<Rightarrow> ('z world_scheme, anyhow, coverage_map) prog" where
  "parse_kcov dir =
     (let path = join dir KCOV_FILENAME
      in then_do (with_context (''failed to read kcov file at '' @ path) (call_read path)) (\<lambda>kcov.
         lift_res (map_err (\<lambda>e. case e of BadAddr line e' \<Rightarrow>
             [''failed to parse addr from kcov line '' @ in_quotes line, show_parse_int_error e'])
           (kcov_parse kcov))))"

text \<open>The opinion with the feedback it leaves; when the file cannot be read the counts stay.\<close>

fun feedback_opinion_prog ::
    "coverage_feedback \<Rightarrow> completed \<Rightarrow> ('z world_scheme, anyhow, feedback_opinion \<times> coverage_feedback) prog" where
  "feedback_opinion_prog (DummyFeedback m) out = return (NotInteresting [], DummyFeedback m)"
| "feedback_opinion_prog (KCovFeedback m) out =
     then_do (parse_kcov (co_dir out)) (\<lambda>new_coverage.
     case opinion_of new_coverage m of (op, m') \<Rightarrow> return (op, KCovFeedback m'))"
| "feedback_opinion_prog (LCovFeedback m) out =
     then_do (read_lcov out) (\<lambda>data.
     then_do (asks name_hash) (\<lambda>hash.
     case opinion_of (lcov_map hash (lcov_parse data)) m of (op, m') \<Rightarrow> return (op, LCovFeedback m')))"

subsection \<open>Choosing the next input\<close>

definition choose_seed ::
    "('f, 'g) float_ops \<Rightarrow> (('f, 'g, 'y) grey_box_scheme, anyhow, workload) prog" where
  "choose_seed fl = (\<lambda>s.
     case scheduler_choose fl (fb_map (gx_fst_feedback s)) (fb_map (gx_snd_feedback s)) (gx_scheduler s) (gx_corpus s) of
       (r, sched, corpus) \<Rightarrow> Some (r, s\<lparr>gx_scheduler := sched, gx_corpus := corpus\<rparr>))"

text \<open>\<open>mutate\<close> has no error of its own.\<close>

definition mutate_seed ::
    "('f, 'g) grey_box_parts \<Rightarrow> workload \<Rightarrow> (('f, 'g, 'y) grey_box_scheme, 'e, workload) prog" where
  "mutate_seed gp input = (\<lambda>s.
     map_option (\<lambda>(r, g).
       (case r of Ok w \<Rightarrow> Ok w | Err _ \<Rightarrow> Crash Panicked | Crash c \<Rightarrow> Crash c, s\<lparr>gx_rng := g\<rparr>))
       (mutate (gp_fuel gp) (gp_rng gp) (gp_mutator gp) input (gx_rng s)))"

definition pick_input ::
    "('f, 'g) grey_box_parts \<Rightarrow> (('f, 'g, 'y) grey_box_scheme, anyhow, workload) prog" where
  "pick_input gp = (\<lambda>s.
     if gx_next_initial s < length (gx_initial_corpus s) then
       then_do (lift_res (ok_or [''failed to get seed from initial corpus'']
         (vec_get (gx_initial_corpus s) (gx_next_initial s)))) (\<lambda>w.
       then_do (modify (\<lambda>s. s\<lparr>gx_next_initial := gx_next_initial s + 1\<rparr>)) (\<lambda>_.
       return w)) s
     else
       then_do (choose_seed (gp_float_ops gp)) (\<lambda>next. mutate_seed gp next) s)"

definition add_to_corpus ::
    "workload \<Rightarrow> input_coverage \<Rightarrow> input_coverage \<Rightarrow> (('f, 'g, 'y) grey_box_scheme, 'e, unit) prog" where
  "add_to_corpus input fst_coverage snd_coverage =
     modify (\<lambda>s. s\<lparr>gx_corpus := gx_corpus s @ [seed_new input fst_coverage snd_coverage]\<rparr>)"

definition save_input ::
    "('z runner_scheme) runner_parts \<Rightarrow> local_path option \<Rightarrow> workload \<Rightarrow> remote_path \<Rightarrow> completed \<Rightarrow> completed \<Rightarrow>
     ('z runner_scheme, anyhow, unit) prog" where
  "save_input parts corpus_path input binary_path fst_outcome snd_outcome =
     then_do (asks workload_name) (\<lambda>name_of.
     then_do (lift_res (unwrap corpus_path)) (\<lambda>corpus_root.
     let corpus_dir = join corpus_root (name_of input)
     in then_do (with_context (''failed to create corpus directory at '' @ in_quotes corpus_dir)
          (call_unit (CreateDirAll corpus_dir))) (\<lambda>_.
        then_do (save_testcase (rp_cmdi parts) corpus_dir (Some binary_path) input) (\<lambda>_.
        then_do (with_context ''failed to save outcome for first harness''
          (save_completed corpus_dir (rp_fst_fs_name parts) fst_outcome)) (\<lambda>_.
        with_context ''failed to save outcome for second harness''
          (save_completed corpus_dir (rp_snd_fs_name parts) snd_outcome))))))"

subsection \<open>One iteration\<close>

definition grey_box_stats_of :: "('f, 'g, 'y) grey_box_scheme \<Rightarrow> grey_box_stats" where
  "grey_box_stats_of s =
     \<lparr>gb_corpus_size = word_of_nat (length (gx_corpus s)),
      gb_fst_coverage_size = word_of_nat (length (fb_map (gx_fst_feedback s))),
      gb_fst_coverage_type = feedback_type (gx_fst_feedback s),
      gb_snd_coverage_size = word_of_nat (length (fb_map (gx_snd_feedback s))),
      gb_snd_coverage_type = feedback_type (gx_snd_feedback s),
      gb_crashes = crashes s, gb_executions = executions s\<rparr>"

definition grey_box_send_stats ::
    "('z runner_scheme) runner_parts \<Rightarrow> bool \<Rightarrow> (('f, 'g, 'y) grey_box_scheme, anyhow, unit) prog" where
  "grey_box_send_stats parts lazy =
     then_do (gets gx_last_stats) (\<lambda>last_sent.
     then_do (if lazy then elapsed_secs last_sent else return 0) (\<lambda>elapsed.
     if \<not> lazy \<or> elapsed \<ge> unat (cf_heartbeat_interval (rp_config parts)) then
       then_do call_clock (\<lambda>now.
       then_do (modify (\<lambda>s. s\<lparr>gx_last_stats := now\<rparr>)) (\<lambda>_.
       then_do (gets grey_box_stats_of) (\<lambda>stats.
       unwrap_prog (handle_grey_box_stats (rp_broker parts) stats))))
     else return ()))"

definition fst_opinion :: "completed \<Rightarrow> (('f, 'g, 'y) grey_box_scheme, anyhow, feedback_opinion) prog" where
  "fst_opinion out =
     then_do (gets gx_fst_feedback) (\<lambda>fb.
     then_do (with_context ''failed to get first coverage feedback'' (feedback_opinion_prog fb out)) (\<lambda>(op, fb').
     then_do (modify (\<lambda>s. s\<lparr>gx_fst_feedback := fb'\<rparr>)) (\<lambda>_. return op)))"

definition snd_opinion :: "completed \<Rightarrow> (('f, 'g, 'y) grey_box_scheme, anyhow, feedback_opinion) prog" where
  "snd_opinion out =
     then_do (gets gx_snd_feedback) (\<lambda>fb.
     then_do (with_context ''failed to get second coverage feedback'' (feedback_opinion_prog fb out)) (\<lambda>(op, fb').
     then_do (modify (\<lambda>s. s\<lparr>gx_snd_feedback := fb'\<rparr>)) (\<lambda>_. return op)))"

text \<open>The end of the branch for a completed run without a finding.\<close>

definition consider_input ::
    "(('f, 'g, 'y) grey_box_scheme) runner_parts \<Rightarrow> ('f, 'g) grey_box_parts \<Rightarrow> workload \<Rightarrow> remote_path \<Rightarrow>
     diff_completed \<Rightarrow> (('f, 'g, 'y) grey_box_scheme, anyhow, unit) prog" where
  "consider_input parts gp input binary_path diff =
     then_do (fst_opinion (dc_fst_outcome diff)) (\<lambda>op1.
     then_do (snd_opinion (dc_snd_outcome diff)) (\<lambda>op2.
     if is_interesting op1 \<or> is_interesting op2 then
       then_do (add_to_corpus input (opinion_coverage op1) (opinion_coverage op2)) (\<lambda>_.
       then_do (grey_box_send_stats parts False) (\<lambda>_.
       do_when (gp_corpus_path gp \<noteq> None)
         (with_context ''failed to save input''
           (save_input parts (gp_corpus_path gp) input binary_path (dc_fst_outcome diff) (dc_snd_outcome diff)))))
     else return ()))"

definition grey_box_fuzz_one ::
    "(('f, 'g, 'y) grey_box_scheme) runner_parts \<Rightarrow> ('f, 'g) grey_box_parts \<Rightarrow>
     (('f, 'g, 'y) grey_box_scheme, anyhow, unit) prog" where
  "grey_box_fuzz_one parts gp =
     then_do (pick_input gp) (\<lambda>input.
     then_do (compile_test parts input) (\<lambda>binary_path.
     then_do (run_harness parts binary_path) (\<lambda>out.
     case out of
       DiffCompleted diff \<Rightarrow>
         then_do (detect_errors parts input binary_path diff) (\<lambda>found_errors.
         if found_errors then return ()
         else then_do (do_objective parts (grey_box_send_stats parts) input binary_path diff) (\<lambda>found_diff.
           if found_diff then return () else consider_input parts gp input binary_path diff))
     | FirstPanicked fs_name \<Rightarrow> report_crash parts (grey_box_send_stats parts) input (panic_reason fs_name)
     | SecondPanicked fs_name \<Rightarrow> report_crash parts (grey_box_send_stats parts) input (panic_reason fs_name)
     | FirstTimedOut fs_name timeout \<Rightarrow>
         report_crash parts (grey_box_send_stats parts) input (timeout_reason fs_name timeout)
     | SecondTimedOut fs_name timeout \<Rightarrow>
         report_crash parts (grey_box_send_stats parts) input (timeout_reason fs_name timeout))))"

definition grey_box_run ::
    "(('f, 'g, 'y) grey_box_scheme) runner_parts \<Rightarrow> ('f, 'g) grey_box_parts \<Rightarrow> u64 option \<Rightarrow>
     (('f, 'g, 'y) grey_box_scheme, anyhow, unit) prog" where
  "grey_box_run parts gp = fuzzer_run (grey_box_fuzz_one parts gp) (grey_box_send_stats parts)"

subsection \<open>Creation\<close>

definition path_file_name :: "string \<Rightarrow> string" where
  "path_file_name path = rev (takeWhile (\<lambda>c. c \<noteq> CHR ''/'') (rev path))"

text \<open>A workload with an operation that has no positive weight is ignored.\<close>

definition accepts_workload :: "operation_weights \<Rightarrow> workload \<Rightarrow> bool" where
  "accepts_workload weights w =
     list_all (\<lambda>op. list_ex (\<lambda>(kind, v). kind_of op = kind \<and> 0 < v) weights) (ops w)"

text \<open>One file of the initial corpus.\<close>

definition load_seed ::
    "broker_handle \<Rightarrow> operation_weights \<Rightarrow> string \<Rightarrow> ('z world_scheme, anyhow, workload option) prog" where
  "load_seed broker weights path =
     then_do (asks parse_workload) (\<lambda>parse.
     then_do (attempt (call_read path)) (\<lambda>data.
     case data of
       Inl err \<Rightarrow>
         then_do (handle_warn broker (''failed to read seed data at '' @ in_quotes path @ '':'' @ [newline] @ concat err))
           (\<lambda>_. return None)
     | Inr text \<Rightarrow>
         (case parse text of
            Inl err \<Rightarrow>
              then_do (handle_warn broker (''failed to parse seed at '' @ in_quotes path @ '':'' @ [newline] @ err))
                (\<lambda>_. return None)
          | Inr w \<Rightarrow> return (if accepts_workload weights w then Some w else None))))"

fun load_seeds ::
    "broker_handle \<Rightarrow> operation_weights \<Rightarrow> string list \<Rightarrow> ('z world_scheme, anyhow, workload list) prog" where
  "load_seeds broker weights [] = return []"
| "load_seeds broker weights (path # paths) =
     then_do (load_seed broker weights path) (\<lambda>w.
     then_do (load_seeds broker weights paths) (\<lambda>ws.
     return (case w of None \<Rightarrow> ws | Some w' \<Rightarrow> w' # ws)))"

text \<open>The crate \<open>walkdir\<close> is the argument \<open>walk_dir\<close>: the paths below a directory that it can read.\<close>

definition load_initial_corpus ::
    "(string \<Rightarrow> string list) \<Rightarrow> broker_handle \<Rightarrow> operation_weights \<Rightarrow> string option \<Rightarrow>
     ('z world_scheme, anyhow, workload list) prog" where
  "load_initial_corpus walk_dir broker weights corpus_path =
     (case corpus_path of
        None \<Rightarrow> return []
      | Some path \<Rightarrow>
          then_do (load_seeds broker weights
            (filter (\<lambda>p. path_file_name p = TEST_FILE_NAME) (walk_dir path))) (\<lambda>ws.
          then_do (handle_info broker (''added '' @ show_nat (length ws) @ '' seeds from '' @ in_quotes path)) (\<lambda>_.
          return ws)))"

definition create_corpus_dir :: "greybox_config \<Rightarrow> ('z world_scheme, anyhow, local_path option) prog" where
  "create_corpus_dir conf =
     (if save_corpus conf then
        then_do (with_context ''failed to create directory for corpus'' (call_unit (CreateDirAll ''./corpus''))) (\<lambda>_.
        return (Some ''./corpus''))
      else return None)"

text \<open>The feedback for one side, and the observers it needs.\<close>

definition coverage_setup ::
    "string \<Rightarrow> fs_mount \<Rightarrow> (anyhow, coverage_feedback \<times> observer_ref list) res" where
  "coverage_setup side fs =
     (case mount_coverage_type fs of
        CoverageNone \<Rightarrow> Ok (feedback_new CoverageNone, [])
      | CoverageLCov \<Rightarrow>
          and_then (ok_or [''Source directory is missing for '' @ side @ '' filesystem''] (source_dir fs)) (\<lambda>dir.
          Ok (feedback_new CoverageLCov, [LCovRef dir]))
      | CoverageKCov \<Rightarrow> Ok (feedback_new CoverageKCov, []))"

definition grey_box_create ::
    "nat \<Rightarrow> 'g rng \<Rightarrow> ('f, 'g) float_ops \<Rightarrow> (u64 \<Rightarrow> 'g) \<Rightarrow> 'g \<Rightarrow> (string \<Rightarrow> string list) \<Rightarrow> config \<Rightarrow> fs_mount \<Rightarrow> fs_mount \<Rightarrow>
     local_path \<Rightarrow> string option \<Rightarrow> (('f, 'g, 'y) grey_box_scheme) command_interface \<Rightarrow>
     (('f, 'g, 'y) grey_box_scheme) supervisor \<Rightarrow> local_path \<Rightarrow> broker_handle \<Rightarrow>
     (('f, 'g, 'y) grey_box_scheme, anyhow, (('f, 'g, 'y) grey_box_scheme) runner_parts \<times> ('f, 'g) grey_box_parts) prog" where
  "grey_box_create fuel rng fl seed os_seed walk_dir conf fst_mount snd_mount crashes_path corpus_path cmdi sv local_tmp_dir broker =
     then_do call_clock (\<lambda>now.
     let mt = mutator_new (cf_operation_weights conf) (cf_mutation_weights conf) (cf_max_workload_length conf)
          (max_mutations (cf_greybox conf))
     in then_do (load_initial_corpus walk_dir broker (cf_operation_weights conf) corpus_path) (\<lambda>initial.
        then_do (create_corpus_dir (cf_greybox conf)) (\<lambda>corpus_dir.
        then_do (lift_res (coverage_setup ''first'' fst_mount)) (\<lambda>(fst_fb, fst_obs).
        then_do (lift_res (coverage_setup ''second'' snd_mount)) (\<lambda>(snd_fb, snd_obs).
        then_do (with_context ''failed to create runner''
          (runner_create fst_mount snd_mount crashes_path conf False cmdi sv local_tmp_dir broker (fst_obs, snd_obs))) (\<lambda>parts.
        then_do call_clock (\<lambda>start.
        then_do (modify (\<lambda>s. s\<lparr>gx_initial_corpus := initial, gx_next_initial := 0,
            gx_corpus := [seed_new workload_new [] []],
            gx_scheduler := scheduler_new fl os_seed (cf_greybox conf),
            gx_fst_feedback := fst_fb, gx_snd_feedback := snd_fb,
            gx_rng := seed (word_of_nat (now div 10 ^ 6)), gx_last_stats := start\<rparr>)) (\<lambda>_.
        return (parts, \<lparr>gp_fuel = fuel, gp_rng = rng, gp_float_ops = fl, gp_mutator = mt,
          gp_corpus_path = corpus_dir\<rparr>)))))))))"

end
