(* ===== verification/Greybox_Correct.thy ===== *)
theory Greybox_Correct
  imports Greybox
begin

text \<open>
  What the coverage-guided fuzzer keeps: an input enters the corpus exactly when it reaches an address that
  no input before it reached, the inputs of the initial corpus come first and in order, and the counters are
  those of the trait (interpretations of \<open>counted_fuzzer\<close> for both fuzzers).
\<close>

subsection \<open>Observations that a program keeps\<close>

definition keeps :: "('s \<Rightarrow> 'a) \<Rightarrow> 's \<Rightarrow> 's \<Rightarrow> bool" where
  "keeps f s s' \<longleftrightarrow> f s' = f s"

interpretation keeps: state_preorder "keeps f" for f
  by unfold_locales (simp_all add: keeps_def)

definition corpus_view ::
    "('f, 'g, 'y) grey_box_scheme \<Rightarrow> seed list \<times> coverage_feedback \<times> coverage_feedback" where
  "corpus_view s = (gx_corpus s, gx_fst_feedback s, gx_snd_feedback s)"

lemma appends_keeps_corpus: "appends A s s' \<Longrightarrow> keeps corpus_view s s'"
  unfolding appends_def keeps_def corpus_view_def by (elim exE conjE) simp

lemma corpus_view_appends: "steps (appends A) m \<Longrightarrow> steps (keeps corpus_view) m"
  unfolding steps_def using appends_keeps_corpus by blast

lemma any_call: "steps (appends (\<lambda>_. True)) (elapsed_secs n)" "steps (appends (\<lambda>_. True)) call_clock"
  "steps (appends (\<lambda>_. True)) (handle_grey_box_stats h stats)"
  by (intro emits; simp)+

lemma send_stats_keeps_corpus: "steps (keeps corpus_view) (grey_box_send_stats parts lazy)"
proof -
  have "steps (keeps corpus_view) (modify (\<lambda>s. s\<lparr>gx_last_stats := now\<rparr>))" for now
    by (simp add: steps_def keeps_def corpus_view_def)
  then show ?thesis
    unfolding grey_box_send_stats_def
    by (intro keeps.rules any_call [THEN corpus_view_appends])
qed

lemma quiet_save_input:
  assumes "launched (rp_cmdi parts) (rp_supervisor parts) w"
  shows "quiet (save_input parts corpus_path input binary_path out out')"
proof -
  have c: "command_contract (rp_cmdi parts)"
    using launched_contract [OF assms] by (simp add: rig_contract_def)
  show ?thesis
    unfolding save_input_def Let_def
    by (intro emits command_contract.quiet_save_testcase [OF c] quiet_save_completed) simp
qed

subsection \<open>The opinion on an outcome\<close>

lemma reads_append: "steps (appends (\<lambda>_. True)) (call_read path)" "steps (appends (\<lambda>_. True)) (read_lcov out)"
  unfolding read_lcov_def by (intro emits, simp)+

lemma parse_kcov_Ok:
  assumes "parse_kcov dir s = Some (Ok m, s')"
  obtains data where "kcov_parse data = Ok m" and "appends (\<lambda>_. True) s s'"
proof -
  obtain data s1 where 1: "call_read (join dir KCOV_FILENAME) s = Some (Ok data, s1)"
      and 2: "kcov_parse data = Ok m" "s' = s1"
    using assms unfolding parse_kcov_def Let_def then_do_Ok with_context_Ok by auto
  show thesis using that [OF 2(1)] stepsD [OF reads_append(1) 1] 2(2) by blast
qed

lemma feedback_prog_on:
  assumes run: "feedback_opinion_prog fb out s = Some (Ok (op, fb'), s')"
  obtains input where "feedback_opinion_on (name_hash (env s)) fb input = (Ok op, fb')"
    and "appends (\<lambda>_. True) s s'"
proof (cases fb)
  case (DummyFeedback m)
  have "op = NotInteresting [] \<and> fb' = DummyFeedback m \<and> s' = s"
    using run [unfolded DummyFeedback feedback_opinion_prog.simps] by simp
  then show thesis
    by (intro that [of "[]"]) (simp_all add: DummyFeedback appends.refl)
next
  case (KCovFeedback m)
  obtain nc s1 where 1: "parse_kcov (co_dir out) s = Some (Ok nc, s1)"
    using run [unfolded KCovFeedback feedback_opinion_prog.simps] by (rule then_do_OkE)
  obtain data where data: "kcov_parse data = Ok nc" and a: "appends (\<lambda>_. True) s s1"
    using parse_kcov_Ok [OF 1] .
  obtain op1 m1 where op: "opinion_of nc m = (op1, m1)" by (cases "opinion_of nc m")
  then have "op1 = op" "fb' = KCovFeedback m1" "s' = s1" using run 1 by (simp_all add: KCovFeedback)
  then have "feedback_opinion_on (name_hash (env s)) fb data = (Ok op, fb')" "appends (\<lambda>_. True) s s'"
    using data a op unfolding KCovFeedback by simp_all
  then show thesis by (rule that)
next
  case (LCovFeedback m)
  obtain data s1 where 1: "read_lcov out s = Some (Ok data, s1)"
    using run [unfolded LCovFeedback feedback_opinion_prog.simps] by (rule then_do_OkE)
  have a: "appends (\<lambda>_. True) s s1" by (rule stepsD [OF reads_append(2) 1])
  obtain op1 m1 where op: "opinion_of (lcov_map (name_hash (env s)) (lcov_parse data)) m = (op1, m1)"
    by (cases "opinion_of (lcov_map (name_hash (env s)) (lcov_parse data)) m")
  then have "op1 = op" "fb' = LCovFeedback m1" "s' = s1" using run 1
    by (simp_all add: LCovFeedback asks_def appends_env [OF a])
  then have "feedback_opinion_on (name_hash (env s)) fb data = (Ok op, fb')" "appends (\<lambda>_. True) s s'"
    using a op unfolding LCovFeedback by simp_all
  then show thesis by (rule that)
qed

text \<open>What an opinion says and how it counts.\<close>

definition counts_opinion :: "coverage_feedback \<Rightarrow> feedback_opinion \<Rightarrow> coverage_feedback \<Rightarrow> bool" where
  "counts_opinion fb op fb' \<longleftrightarrow>
     (is_interesting op \<longleftrightarrow> (\<exists>a \<in> set (opinion_coverage op). hits (fb_map fb) a = 0))
     \<and> (\<forall>a. hits (fb_map fb') a = hits (fb_map fb) a + of_bool (a \<in> set (opinion_coverage op)))"

lemma feedback_on_counts: "feedback_opinion_on h fb input = (Ok op, fb') \<Longrightarrow> counts_opinion fb op fb'"
  using feedback.interesting_iff feedback.counted unfolding counts_opinion_def by blast

lemma fst_opinion_Ok:
  assumes "fst_opinion out s = Some (Ok op, s')"
  shows "counts_opinion (gx_fst_feedback s) op (gx_fst_feedback s') \<and> gx_snd_feedback s' = gx_snd_feedback s
    \<and> gx_corpus s' = gx_corpus s"
proof -
  obtain fb' s1 where 1: "feedback_opinion_prog (gx_fst_feedback s) out s = Some (Ok (op, fb'), s1)"
      and 2: "s' = s1\<lparr>gx_fst_feedback := fb'\<rparr>"
    using assms unfolding fst_opinion_def then_do_Ok with_context_Ok by auto
  obtain input where input: "feedback_opinion_on (name_hash (env s)) (gx_fst_feedback s) input = (Ok op, fb')"
      and a: "appends (\<lambda>_. True) s s1" using feedback_prog_on [OF 1] .
  show ?thesis using feedback_on_counts [OF input] a 2 unfolding appends_def by auto
qed

lemma snd_opinion_Ok:
  assumes "snd_opinion out s = Some (Ok op, s')"
  shows "counts_opinion (gx_snd_feedback s) op (gx_snd_feedback s') \<and> gx_fst_feedback s' = gx_fst_feedback s
    \<and> gx_corpus s' = gx_corpus s"
proof -
  obtain fb' s1 where 1: "feedback_opinion_prog (gx_snd_feedback s) out s = Some (Ok (op, fb'), s1)"
      and 2: "s' = s1\<lparr>gx_snd_feedback := fb'\<rparr>"
    using assms unfolding snd_opinion_def then_do_Ok with_context_Ok by auto
  obtain input where input: "feedback_opinion_on (name_hash (env s)) (gx_snd_feedback s) input = (Ok op, fb')"
      and a: "appends (\<lambda>_. True) s s1" using feedback_prog_on [OF 1] .
  show ?thesis using feedback_on_counts [OF input] a 2 unfolding appends_def by auto
qed

subsection \<open>The corpus\<close>

text \<open>The initial corpus comes first, in order.\<close>

lemma pick_input_initial:
  assumes "gx_next_initial s < length (gx_initial_corpus s)"
  shows "pick_input gp s = Some (Ok (gx_initial_corpus s ! gx_next_initial s), s\<lparr>gx_next_initial := gx_next_initial s + 1\<rparr>)"
  using assms by (simp add: pick_input_def vec_get_def)

subsection \<open>The counters\<close>

lemma at_most_one_then_still:
  assumes "steps at_most_one m" and "\<And>a. steps (counted 0) (f a)"
  shows "steps at_most_one (then_do m f)"
proof (unfold steps_def, intro allI impI)
  fix s r s'
  assume "then_do m f s = Some (r, s')"
  then show "at_most_one s s'"
  proof (cases rule: then_do_cases)
    case (1 a s1)
    have "at_most_one s s1" and c: "counted 0 s1 s'" using stepsD [OF assms(1) 1(1)] stepsD [OF assms(2) 1(2)] .
    then show ?thesis unfolding at_most_one_def using counted_trans [OF _ c, of _ s] by fastforce
  qed (use stepsD [OF assms(1)] in auto)
qed

text \<open>An update of the fields of the grey box fuzzer alone.\<close>

lemma counted_update:
  "(\<And>s. observers_heap (f s) = observers_heap s) \<Longrightarrow> (\<And>s. executions (f s) = executions s) \<Longrightarrow>
   (\<And>s. crashes (f s) = crashes s) \<Longrightarrow> steps (counted 0) (modify f)"
  by (simp add: steps_def counted_def dash_paths_ok_def)

lemma counted_choice: "steps (counted 0) (choose_seed fl)" "steps (counted 0) (mutate_seed gp w)"
  by (auto simp: steps_def choose_seed_def mutate_seed_def counted_def dash_paths_ok_def split: prod.splits)

lemma counted_pick: "steps (counted 0) (pick_input gp)"
proof (unfold steps_def, intro allI impI)
  fix s r s'
  assume run: "pick_input gp s = Some (r, s')"
  show "counted 0 s s'"
  proof (cases "gx_next_initial s < length (gx_initial_corpus s)")
    case True
    then show ?thesis using run pick_input_initial [OF True] by (auto simp: counted_def dash_paths_ok_def)
  next
    case False
    then have "then_do (choose_seed (gp_float_ops gp)) (\<lambda>next. mutate_seed gp next) s = Some (r, s')"
      using run by (simp add: pick_input_def)
    then show ?thesis by (rule stepsD [rotated]) (intro counted.rules counted_choice)
  qed
qed

lemma counted_send_stats: "steps (counted 0) (grey_box_send_stats parts lazy)"
  unfolding grey_box_send_stats_def
  by (intro counted.rules any_call [THEN appends_counted] counted_update) simp_all

lemma counted_opinion_prog: "steps (counted 0) (feedback_opinion_prog fb out)"
proof -
  have "steps (counted 0) (case opinion_of nc m of (op, m') \<Rightarrow> return (op, g m'))" for nc m g
    by (simp add: counted.still split: prod.splits)
  then show ?thesis
    by (cases fb) (auto simp: parse_kcov_def asks_def Let_def intro!: counted.rules appends_counted [OF reads_append(1)]
        appends_counted [OF reads_append(2)])
qed

lemma counted_opinions: "steps (counted 0) (fst_opinion out)" "steps (counted 0) (snd_opinion out)"
proof -
  have "steps (counted 0) (case p of (op, fb') \<Rightarrow> then_do (modify (\<lambda>s. s\<lparr>gx_fst_feedback := fb'\<rparr>)) (\<lambda>_. return op))"
      "steps (counted 0) (case p of (op, fb') \<Rightarrow> then_do (modify (\<lambda>s. s\<lparr>gx_snd_feedback := fb'\<rparr>)) (\<lambda>_. return op))" for p
    by (cases p; simp; intro counted.rules counted_update; simp)+
  note updates = this
  show "steps (counted 0) (fst_opinion out)" "steps (counted 0) (snd_opinion out)"
    unfolding fst_opinion_def snd_opinion_def by (intro counted.rules counted_opinion_prog updates)+
qed

lemma counted_consider:
  assumes "launched (rp_cmdi parts) (rp_supervisor parts) w"
  shows "steps (counted 0) (consider_input parts gp input binary_path diff)"
  unfolding consider_input_def add_to_corpus_def
  by (intro counted.rules counted_opinions counted_send_stats counted_update
      appends_counted [OF quiet_save_input [OF assms]]) simp_all

lemma grey_box_counted:
  assumes l: "launched (rp_cmdi parts) (rp_supervisor parts) w"
  shows "counted_fuzzer (grey_box_fuzz_one parts gp) (grey_box_send_stats parts)"
proof
  show "steps (counted 0) (grey_box_send_stats parts lazy)" for lazy by (rule counted_send_stats)
  have found: "steps at_most_one (if found_errors then return ()
         else then_do (do_objective parts (grey_box_send_stats parts) input binary_path diff) (\<lambda>found_diff.
           if found_diff then return () else consider_input parts gp input binary_path diff))"
    for found_errors input binary_path diff
  proof (cases found_errors)
    case False
    then show ?thesis
      by (simp, intro at_most_one_then_still do_objective_counts [OF l] counted_send_stats counted.branch
          counted.still counted_consider [OF l])
  qed (simp add: at_most_one_still counted.still)
  show "steps at_most_one (grey_box_fuzz_one parts gp)"
    unfolding grey_box_fuzz_one_def
    by (intro at_most_one_then diff_outcome_cases found report_crash_counts [OF l] counted_send_stats
        run_harness_counted [OF l] detect_errors_counts [OF l] counted_pick
        appends_counted [OF quiet_reports(3) [OF l]])
qed

text \<open>Both fuzzers, on the host and on the guest.\<close>

interpretation native_black_box: counted_fuzzer
  "black_box_fuzz_one fuel rng (parts\<lparr>rp_cmdi := local_command_interface, rp_supervisor := native_supervisor\<rparr>)"
  "black_box_send_stats (parts\<lparr>rp_cmdi := local_command_interface, rp_supervisor := native_supervisor\<rparr>)"
  for fuel rng parts
  by (rule black_box_counted [of _ 0]) (simp add: launched_def)

interpretation qemu_grey_box: counted_fuzzer
  "grey_box_fuzz_one (parts\<lparr>rp_cmdi := remote_command_interface opts, rp_supervisor := qemu_supervisor broker qopts\<rparr>) gp"
  "grey_box_send_stats (parts\<lparr>rp_cmdi := remote_command_interface opts, rp_supervisor := qemu_supervisor broker qopts\<rparr>)"
  for parts opts broker qopts gp
  by (rule grey_box_counted [of _ 1]) (auto simp: launched_def)

end
