(* ===== verification/Reducer.thy ===== *)
theory Reducer
  imports Fuzzer
begin

text \<open>
  \<open>fuzzing/reducer.rs\<close> and \<open>fuzzing/solo_single.rs\<close>: shrinking a test that shows a difference, and running a
  test on one file system. The reducer tries to remove each operation, from the last to the first; a
  shorter test that shows the same difference takes the place of the test, any other finding is saved as a
  variation.
\<close>

subsection \<open>The same difference\<close>

fun same_trace_diff :: "trace_diff \<Rightarrow> trace_diff \<Rightarrow> bool" where
  "same_trace_diff DifferentLength DifferentLength = True"
| "same_trace_diff (TraceRowIsDifferent old_fst old_snd) (TraceRowIsDifferent new_fst new_snd) =
     (ignore_index_equal old_fst new_fst \<and> ignore_index_equal old_snd new_snd)"
| "same_trace_diff _ _ = False"

definition same_diff :: "diff_completed \<Rightarrow> diff_completed \<Rightarrow> bool" where
  "same_diff old new \<longleftrightarrow>
     length (dc_trace_diff old) = length (dc_trace_diff new)
     \<and> list_all (\<lambda>(d, d'). same_trace_diff d d') (zip (dc_trace_diff old) (dc_trace_diff new))
     \<and> dc_dash_diff old = dc_dash_diff new"

subsection \<open>The reducer\<close>

definition reducer_report_crash ::
    "('z runner_scheme) runner_parts \<Rightarrow> local_path \<Rightarrow> string \<Rightarrow> workload \<Rightarrow> reason \<Rightarrow> ('z runner_scheme, anyhow, unit) prog" where
  "reducer_report_crash parts output_dir variation_name reduced why =
     with_context ''failed to report bug variation''
       (runner_report_crash parts reduced variation_name output_dir why)"

text \<open>A shorter test that still shows a difference; the result is the test to go on with.\<close>

definition reduce_found ::
    "('z runner_scheme) runner_parts \<Rightarrow> local_path \<Rightarrow> string \<Rightarrow> remote_path \<Rightarrow> diff_completed \<Rightarrow> diff_completed \<Rightarrow>
     workload \<Rightarrow> workload \<Rightarrow> ('z runner_scheme, anyhow, workload) prog" where
  "reduce_found parts output_dir variation_name binary_path original_diff next_diff bugcase reduced =
     then_do (asks show_file_info) (\<lambda>show_info.
     let why = diff_reason show_info next_diff
     in if same_diff original_diff next_diff then
          then_do (with_context ''failed to save reduced bugcase''
            (runner_report_diff parts reduced ''reduced'' binary_path output_dir next_diff why)) (\<lambda>_.
          return reduced)
        else
          then_do (with_context ''failed to report bug variation''
            (runner_report_diff parts reduced variation_name binary_path output_dir next_diff why)) (\<lambda>_.
          return bugcase))"

definition reduce_step ::
    "('z runner_scheme) runner_parts \<Rightarrow> local_path \<Rightarrow> diff_completed \<Rightarrow> nat \<Rightarrow> workload \<Rightarrow>
     ('z runner_scheme, anyhow, workload) prog" where
  "reduce_step parts output_dir original_diff idx bugcase =
     then_do (log_message LogInfo (''trying to remove operation at index '' @ show_nat idx)) (\<lambda>_.
     then_do (lift_res (map_err (\<lambda>_. []) (mutator_remove bugcase idx))) (\<lambda>removed.
     case removed of
       None \<Rightarrow> return bugcase
     | Some reduced \<Rightarrow>
         (let variation_name = ''variation-'' @ show_nat idx;
              crash = (\<lambda>why. then_do (reducer_report_crash parts output_dir variation_name reduced why)
                (\<lambda>_. return bugcase))
          in then_do (compile_test parts reduced) (\<lambda>binary_path.
             then_do (run_harness parts binary_path) (\<lambda>out.
             case out of
               DiffCompleted next_diff \<Rightarrow>
                 if any_interesting next_diff then
                   reduce_found parts output_dir variation_name binary_path original_diff next_diff bugcase reduced
                 else return bugcase
             | FirstPanicked fs_name \<Rightarrow> crash (panic_reason fs_name)
             | SecondPanicked fs_name \<Rightarrow> crash (panic_reason fs_name)
             | FirstTimedOut fs_name timeout \<Rightarrow> crash (timeout_reason fs_name timeout)
             | SecondTimedOut fs_name timeout \<Rightarrow> crash (timeout_reason fs_name timeout))))))"

primrec reduce_loop ::
    "('z runner_scheme) runner_parts \<Rightarrow> local_path \<Rightarrow> diff_completed \<Rightarrow> nat \<Rightarrow> workload \<Rightarrow>
     ('z runner_scheme, anyhow, workload) prog" where
  "reduce_loop parts output_dir original_diff 0 bugcase = return bugcase"
| "reduce_loop parts output_dir original_diff (Suc idx) bugcase =
     then_do (reduce_step parts output_dir original_diff idx bugcase) (\<lambda>bugcase'.
     reduce_loop parts output_dir original_diff idx bugcase')"

text \<open>On an empty workload \<open>len() - 1\<close> wraps around and the removal panics.\<close>

definition reduce_by_diff ::
    "('z runner_scheme) runner_parts \<Rightarrow> workload \<Rightarrow> local_path \<Rightarrow> diff_completed \<Rightarrow> ('z runner_scheme, anyhow, unit) prog" where
  "reduce_by_diff parts bugcase output_dir original_diff =
     then_do (log_message LogInfo ''reduce by diff'') (\<lambda>_.
     if ops bugcase = [] then panic
     else then_do (reduce_loop parts output_dir original_diff (length (ops bugcase)) bugcase) (\<lambda>_. return ()))"

definition reducer_run ::
    "('z runner_scheme) runner_parts \<Rightarrow> local_path \<Rightarrow> local_path \<Rightarrow> ('z runner_scheme, anyhow, unit) prog" where
  "reducer_run parts test_path output_dir =
     then_do (read_workload test_path) (\<lambda>input.
     then_do (compile_test parts input) (\<lambda>binary_path.
     then_do (run_harness parts binary_path) (\<lambda>out.
     case out of
       DiffCompleted diff \<Rightarrow>
         if any_interesting diff then reduce_by_diff parts input output_dir diff
         else log_message LogWarn ''no diff found''
     | _ \<Rightarrow> panic)))"

definition reducer_create ::
    "config \<Rightarrow> fs_mount \<Rightarrow> fs_mount \<Rightarrow> local_path \<Rightarrow> bool \<Rightarrow>
     ('z runner_scheme, anyhow, ('z runner_scheme) runner_parts) prog" where
  "reducer_create conf fst_mount snd_mount crashes_path no_qemu =
     then_do (local_create_new_tmp ''reducer'') (\<lambda>local_tmp_dir.
     then_do call_clock (\<lambda>start.
     let broker = FakeHandle start
     in then_do (launch_cmdi_and_supervisor no_qemu conf local_tmp_dir broker) (\<lambda>(cmdi, sv).
        with_context ''failed to create runner''
          (runner_create fst_mount snd_mount crashes_path conf False cmdi sv local_tmp_dir broker ([], [])))))"

subsection \<open>A test on one file system\<close>

definition save_solo ::
    "('z rig_scheme) command_interface \<Rightarrow> local_path \<Rightarrow> string \<Rightarrow> u8 \<Rightarrow> remote_path \<Rightarrow> workload \<Rightarrow> outcome \<Rightarrow>
     ('z rig_scheme, anyhow, unit) prog" where
  "save_solo cmdi output_dir fs_str timeout binary_path input out =
     (let save = (\<lambda>binary why.
            then_do (with_context ''failed to save testcase'' (save_testcase cmdi output_dir binary input)) (\<lambda>_.
            then_do (case out of
                OutcomeCompleted completed \<Rightarrow>
                  with_context ''failed to save outcome'' (save_completed output_dir fs_str completed)
              | _ \<Rightarrow> return ()) (\<lambda>_.
            with_context ''failed to save reason'' (save_reason output_dir why))))
      in case out of
           OutcomeCompleted completed \<Rightarrow>
             save (Some binary_path)
               (md_heading (''Filesystem '' @ in_quotes fs_str @ '' completed workload'') reason_new)
         | OutcomePanicked \<Rightarrow> save None (panic_reason fs_str)
         | OutcomeTimedOut \<Rightarrow> save None (timeout_reason fs_str timeout))"

definition solo_run ::
    "local_path \<Rightarrow> local_path \<Rightarrow> bool \<Rightarrow> fs_mount \<Rightarrow> config \<Rightarrow> bool \<Rightarrow>
     ('z rig_scheme, anyhow, unit) prog" where
  "solo_run test_path output_dir keep_fs fs conf no_qemu =
     then_do (local_create_new_tmp ''solo-single'') (\<lambda>local_tmp_dir.
     then_do call_clock (\<lambda>start.
     let broker = FakeHandle start
     in then_do (launch_cmdi_and_supervisor no_qemu conf local_tmp_dir broker) (\<lambda>(cmdi, sv).
        then_do (read_workload test_path) (\<lambda>input.
        then_do (with_context ''failed to setup remote dir'' (setup_remote_dir cmdi)) (\<lambda>remote_dir.
        then_do (log_message LogInfo (''compile test at '' @ in_quotes remote_dir)) (\<lambda>_.
        then_do (with_context ''failed to compile test'' (compile cmdi remote_dir input)) (\<lambda>binary_path.
        let h = harness_new fs (fs_dir_of conf fs) (join remote_dir ''exec'') (join local_tmp_dir ''outcome-single'')
              (cf_timeout conf) []
        in then_do (log_message LogInfo ''run harness'') (\<lambda>_.
           then_do (with_context ''failed to run harness'' (harness_run h cmdi sv binary_path keep_fs)) (\<lambda>out.
           then_do (log_message LogInfo ''save results'') (\<lambda>_.
           then_do (call_unit (CreateDirAll output_dir)) (\<lambda>_.
           save_solo cmdi output_dir (mount_name fs) (cf_timeout conf) binary_path input out)))))))))))"

subsection \<open>The same difference is an equivalence\<close>

lemma ignore_index_equal_simps:
  "ignore_index_equal r r" "ignore_index_equal r r' \<Longrightarrow> ignore_index_equal r' r"
  "ignore_index_equal r r' \<Longrightarrow> ignore_index_equal r' r'' \<Longrightarrow> ignore_index_equal r r''"
  by (simp_all add: ignore_index_equal_def)

lemma same_trace_diff_equiv:
  "same_trace_diff d d" "same_trace_diff d d' \<Longrightarrow> same_trace_diff d' d"
  "same_trace_diff d d' \<Longrightarrow> same_trace_diff d' d'' \<Longrightarrow> same_trace_diff d d''"
  by (cases d; cases d'; cases d''; auto intro: ignore_index_equal_simps)+

lemma same_diff_list:
  "same_diff old new \<longleftrightarrow> list_all2 same_trace_diff (dc_trace_diff old) (dc_trace_diff new)
     \<and> dc_dash_diff old = dc_dash_diff new"
  by (auto simp: same_diff_def list_all2_iff list_all_iff)

lemma same_diff_refl: "same_diff d d"
  by (simp add: same_diff_list list.rel_refl same_trace_diff_equiv(1))

lemma same_diff_sym: "same_diff d d' \<Longrightarrow> same_diff d' d"
  by (auto simp: same_diff_list list_all2_conv_all_nth intro: same_trace_diff_equiv(2))

lemma same_diff_trans:
  assumes "same_diff d d'" and "same_diff d' d''"
  shows "same_diff d d''"
  using assms unfolding same_diff_list
  by (elim conjE) (intro conjI; (rule list_all2_trans [of same_trace_diff same_trace_diff same_trace_diff])?;
    (erule (1) same_trace_diff_equiv(3))?; simp?)

subsection \<open>What the reduced test is\<close>

text \<open>Operations are only left out (and descriptors renumbered), never changed or reordered.\<close>

definition reduces_to :: "workload \<Rightarrow> workload \<Rightarrow> bool" where
  "reduces_to w w' \<longleftrightarrow> (\<exists>os. subseq os (ops w) \<and> list_all2 same_effect os (ops w'))"

lemma same_effect_refl: "same_effect op op"
  by (cases op) auto

lemma same_effect_trans: "same_effect a b \<Longrightarrow> same_effect b c \<Longrightarrow> same_effect a c"
  by (cases a) auto

lemma reduces_to_refl: "reduces_to w w"
  unfolding reduces_to_def by (intro exI [of _ "ops w"]) (simp add: list.rel_refl same_effect_refl)

lemma subseq_remove_at: "subseq (remove_at i xs) xs"
proof -
  have "subseq (drop (Suc i) xs) (drop i xs)"
    using suffix_imp_subseq [OF suffix_drop [of 1 "drop i xs"]] by simp
  then have "subseq (take i xs @ drop (Suc i) xs) (take i xs @ drop i xs)"
    by (intro list_emb_append_mono) simp_all
  then show ?thesis by (simp add: remove_at_def)
qed

lemma reduces_to_remove: "list_all2 same_effect (remove_at i (ops b)) (ops b') \<Longrightarrow> reduces_to b b'"
  unfolding reduces_to_def using subseq_remove_at by blast

lemma subseq_list_all2:
  "subseq zs ys \<Longrightarrow> list_all2 P xs ys \<Longrightarrow> \<exists>os. subseq os xs \<and> list_all2 P os zs"
proof (induction arbitrary: xs rule: list_emb.induct)
  case (list_emb_Cons zs ys y)
  then obtain x xs' where "xs = x # xs'" "list_all2 P xs' ys" by (auto simp: list_all2_Cons2)
  then show ?case using list_emb_Cons.IH by (meson list_emb.list_emb_Cons)
next
  case (list_emb_Cons2 z y zs ys)
  then obtain x xs' where x: "xs = x # xs'" "P x y" "list_all2 P xs' ys" by (auto simp: list_all2_Cons2)
  then obtain os where "subseq os xs'" "list_all2 P os zs" using list_emb_Cons2.IH by blast
  then show ?case using x list_emb_Cons2.hyps by (intro exI [of _ "x # os"]) auto
qed (auto intro!: exI [of _ "[]"])

lemma reduces_to_trans:
  assumes "reduces_to w b" and "reduces_to b b'"
  shows "reduces_to w b'"
proof -
  obtain os where os: "subseq os (ops w)" "list_all2 same_effect os (ops b)"
    using assms(1) by (auto simp: reduces_to_def)
  obtain zs where zs: "subseq zs (ops b)" "list_all2 same_effect zs (ops b')"
    using assms(2) by (auto simp: reduces_to_def)
  obtain xs where xs: "subseq xs os" "list_all2 same_effect xs zs" using subseq_list_all2 [OF zs(1) os(2)] by blast
  have "list_all2 same_effect xs (ops b')" by (rule list_all2_trans [OF same_effect_trans xs(2) zs(2)])
  then show ?thesis unfolding reduces_to_def using subseq_order.order_trans [OF xs(1) os(1)] by blast
qed

text \<open>The states of the loop of a run: how many operations are left to try, the test so far and the world.\<close>

inductive reduce_reach ::
    "('z runner_scheme) runner_parts \<Rightarrow> local_path \<Rightarrow> diff_completed \<Rightarrow>
     nat \<times> workload \<times> 'z runner_scheme \<Rightarrow> nat \<times> workload \<times> 'z runner_scheme \<Rightarrow> bool"
  for parts output_dir original_diff c where
  here: "reduce_reach parts output_dir original_diff c c"
| tried: "\<lbrakk>reduce_reach parts output_dir original_diff c (Suc idx, b, s);
     reduce_step parts output_dir original_diff idx b s = Some (Ok b', s')\<rbrakk>
     \<Longrightarrow> reduce_reach parts output_dir original_diff c (idx, b', s')"

lemma reduce_reach_trans:
  "reduce_reach parts output_dir d c' c'' \<Longrightarrow> reduce_reach parts output_dir d c c' \<Longrightarrow> reduce_reach parts output_dir d c c''"
  by (induction rule: reduce_reach.induct) (auto intro: reduce_reach.intros)

lemma reduce_loop_reach:
  "reduce_loop parts output_dir d n b s = Some (Ok w', s') \<Longrightarrow> reduce_reach parts output_dir d (n, b, s) (0, w', s')"
proof (induction n arbitrary: b s)
  case (Suc idx)
  obtain b1 s1 where 1: "reduce_step parts output_dir d idx b s = Some (Ok b1, s1)"
      and 2: "reduce_loop parts output_dir d idx b1 s1 = Some (Ok w', s')"
    using Suc.prems by (auto elim: then_do_OkE)
  have "reduce_reach parts output_dir d (Suc idx, b, s) (idx, b1, s1)"
    using 1 by (rule tried [OF here])
  then show ?case using Suc.IH [OF 2] by (rule reduce_reach_trans [rotated])
qed (simp add: here)

text \<open>
  In the state \<open>s\<close> the reducer removes the operation at \<open>idx\<close> from the test \<open>b\<close>, compiles what is left,
  runs it, finds the original difference and goes on with it.
\<close>

definition taken_at ::
    "('z runner_scheme) runner_parts \<Rightarrow> diff_completed \<Rightarrow> nat \<Rightarrow> workload \<Rightarrow> 'z runner_scheme \<Rightarrow> workload \<Rightarrow> bool" where
  "taken_at parts original_diff idx b s reduced \<longleftrightarrow>
     mutator_remove b idx = Ok (Some reduced)
     \<and> (\<exists>binary_path next_diff s1 s2.
          compile_test parts reduced
            (record_call (Log LogInfo (''trying to remove operation at index '' @ show_nat idx)) s) = Some (Ok binary_path, s1)
          \<and> run_harness parts binary_path s1 = Some (Ok (DiffCompleted next_diff), s2)
          \<and> any_interesting next_diff \<and> same_diff original_diff next_diff)"

lemma reduce_step_Ok:
  assumes "reduce_step parts output_dir original_diff idx bugcase s = Some (Ok bugcase', s')"
  shows "bugcase' = bugcase \<or> taken_at parts original_diff idx bugcase s bugcase'"
proof -
  let ?s0 = "record_call (Log LogInfo (''trying to remove operation at index '' @ show_nat idx)) s"
  obtain u s0 where log: "log_message LogInfo (''trying to remove operation at index '' @ show_nat idx) s
        = Some (Ok u :: (anyhow, _) res, s0)"
      and step: "then_do (lift_res (map_err (\<lambda>_. []) (mutator_remove bugcase idx))) (\<lambda>removed.
     case removed of None \<Rightarrow> return bugcase | Some reduced \<Rightarrow>
       (let variation_name = ''variation-'' @ show_nat idx;
            crash = (\<lambda>why. then_do (reducer_report_crash parts output_dir variation_name reduced why)
              (\<lambda>_. return bugcase))
        in then_do (compile_test parts reduced) (\<lambda>binary_path.
           then_do (run_harness parts binary_path) (\<lambda>out.
           case out of
             DiffCompleted next_diff \<Rightarrow>
               if any_interesting next_diff then
                 reduce_found parts output_dir variation_name binary_path original_diff next_diff bugcase reduced
               else return bugcase
           | FirstPanicked fs_name \<Rightarrow> crash (panic_reason fs_name)
           | SecondPanicked fs_name \<Rightarrow> crash (panic_reason fs_name)
           | FirstTimedOut fs_name timeout \<Rightarrow> crash (timeout_reason fs_name timeout)
           | SecondTimedOut fs_name timeout \<Rightarrow> crash (timeout_reason fs_name timeout))))) s0
     = Some (Ok bugcase', s')"
    using assms unfolding reduce_step_def by (rule then_do_OkE) (rule that)
  have s0: "s0 = ?s0" using log by (simp add: log_message_def)
  show ?thesis
  proof (cases "mutator_remove bugcase idx")
    case (Ok removed)
    show ?thesis
    proof (cases removed)
      case None
      then show ?thesis using step Ok by simp
    next
      case (Some reduced)
      obtain binary_path s1 where 1: "compile_test parts reduced s0 = Some (Ok binary_path, s1)"
        using step Ok Some by (auto simp: Let_def elim: then_do_OkE)
      obtain out s2 where 2: "run_harness parts binary_path s1 = Some (Ok out, s2)"
        using step Ok Some 1 by (auto simp: Let_def elim: then_do_OkE)
      show ?thesis
      proof (cases "\<exists>next_diff. out = DiffCompleted next_diff \<and> any_interesting next_diff \<and> same_diff original_diff next_diff")
        case True
        then obtain next_diff where out: "out = DiffCompleted next_diff" "any_interesting next_diff"
            "same_diff original_diff next_diff" by blast
        then have "reduce_found parts output_dir (''variation-'' @ show_nat idx) binary_path original_diff next_diff bugcase reduced s2
            = Some (Ok bugcase', s')"
          using step Ok Some 1 2 by (simp add: Let_def)
        then have "bugcase' = reduced"
          using out by (auto simp: reduce_found_def Let_def asks_def elim!: then_do_OkE)
        then show ?thesis using Ok Some 1 2 out unfolding taken_at_def s0 by blast
      next
        case False
        then show ?thesis
          using step Ok Some 1 2
          by (cases out) (auto simp: Let_def reduce_found_def asks_def split: if_splits elim!: then_do_OkE)
      qed
    qed
  qed (use step in simp_all)
qed

text \<open>The test in hand is the first one or the last one taken; since then no other was.\<close>

lemma reach_last_taken:
  assumes "reduce_reach parts output_dir d c (m, w', s')"
  shows "w' = fst (snd c)
    \<or> (\<exists>idx b s1 s2. reduce_reach parts output_dir d c (Suc idx, b, s1) \<and> taken_at parts d idx b s1 w'
         \<and> reduce_step parts output_dir d idx b s1 = Some (Ok w', s2)
         \<and> reduce_reach parts output_dir d (idx, w', s2) (m, w', s'))"
  using assms
proof (induction "(m, w', s')" arbitrary: m w' s' rule: reduce_reach.induct)
  case (tried idx b s b' s')
  show ?case
  proof (cases "b' = b")
    case True
    with tried.hyps(2) show ?thesis using tried.hyps(3) reduce_reach.tried by metis
  next
    case False
    then have "taken_at parts d idx b s b'" using reduce_step_Ok [OF tried.hyps(3)] by blast
    then show ?thesis using tried.hyps(1,3) here by blast
  qed
qed simp

text \<open>Every test in hand is a shorter one that replays.\<close>

lemma reach_reduces:
  assumes "reduce_reach parts output_dir d (n, b, s) (m, w', s')"
    and "n \<le> length (ops b)" and "wf_ops (ops b)" and "written (ops b) < 2 ^ 64"
  shows "m \<le> length (ops w') \<and> wf_ops (ops w') \<and> written (ops w') < 2 ^ 64 \<and> reduces_to b w'
    \<and> (w' = b \<or> (\<exists>fs. replay w' fs_new = (Ok (), fs) \<and> recording fs = w'))"
  using assms(1)
proof (induction "(m, w', s')" arbitrary: m w' s' rule: reduce_reach.induct)
  case (tried idx b1 s1 b2 s2)
  note b1 = tried.hyps(2)
  from reduce_step_Ok [OF tried.hyps(3)] show ?case
  proof
    assume "b2 = b1"
    then show ?thesis using b1 by simp
  next
    assume "taken_at parts d idx b1 s1 b2"
    then have removed: "mutator_remove b1 idx = Ok (Some b2)" by (simp add: taken_at_def)
    have i: "idx < length (ops b1)" using b1 by simp
    have r: "list_all2 same_effect (remove_at idx (ops b1)) (ops b2)" "wf_ops (ops b2)" "written (ops b2) \<le> written (ops b1)"
        "\<exists>fs. replay b2 fs_new = (Ok (), fs) \<and> recording fs = b2"
      using mutator_remove_result(3) [OF _ _ i removed] b1 by blast+
    have "idx \<le> length (ops b2)"
      using list_all2_lengthD [OF r(1)] i by (simp add: remove_at_def)
    moreover have "reduces_to b b2" using reduces_to_trans [OF _ reduces_to_remove [OF r(1)]] b1 by blast
    ultimately show ?thesis using r(2,3,4) b1 by simp
  qed
qed (use assms(2-4) reduces_to_refl in simp)

end
