(* ===== verification/Broker.thy ===== *)
theory Broker
  imports Greybox_Correct Reducer
begin

text \<open>
  \<open>fuzzing/blackbox/broker.rs\<close> and \<open>fuzzing/greybox/broker.rs\<close>: several instances of a fuzzer and the broker
  that collects their statistics. Each instance is a thread with a state of its own; the broker starts them
  and then handles their messages, one after the other, until one of them fails. The scheduling of the threads
  shows only in the messages that the environment answers with, so nothing is assumed about their order.

  The state of a broker extends the world with the latest statistics of each instance (none before the first
  message) and the start of the run.
\<close>

record black_box_broker = world +
  bi_stats :: "black_box_stats option list"
  bi_start :: nat

record grey_box_broker = world +
  gi_stats :: "grey_box_stats option list"
  gi_start :: nat

text \<open>The present values of a list of options: \<open>flat_map(|i| &i.stats)\<close>.\<close>

definition present :: "'a option list \<Rightarrow> 'a list" where
  "present xs = List.map_filter id xs"

subsection \<open>Creation\<close>

definition instance_name :: "u8 \<Rightarrow> string" where
  "instance_name n = ''instance-'' @ show_nat (unat n)"

definition instance_numbers :: "u8 \<Rightarrow> u8 list" where
  "instance_numbers n = map word_of_nat [0..<unat n]"

definition invalid_instances :: "u8 \<Rightarrow> anyhow" where
  "invalid_instances n = [''invalid number of instances ('' @ show_nat (unat n) @ '')'']"

definition spawn_instances :: "u8 \<Rightarrow> ('z world_scheme, anyhow, unit) prog" where
  "spawn_instances instances_n =
     for_each (instance_numbers instances_n) (\<lambda>n.
       with_context (''failed to create instance '' @ show_nat (unat n)) (call_unit (SpawnInstance n)))"

definition black_box_broker_create :: "bool \<Rightarrow> u8 \<Rightarrow> ('z black_box_broker_scheme, anyhow, unit) prog" where
  "black_box_broker_create no_qemu instances_n =
     (if instances_n \<le> 1 \<or> no_qemu \<and> instances_n > 1 then throw (invalid_instances instances_n)
      else then_do (spawn_instances instances_n) (\<lambda>_.
           then_do call_clock (\<lambda>start.
           modify (\<lambda>s. s\<lparr>bi_stats := replicate (unat instances_n) None, bi_start := start\<rparr>))))"

definition grey_box_broker_create :: "bool \<Rightarrow> u8 \<Rightarrow> ('z grey_box_broker_scheme, anyhow, unit) prog" where
  "grey_box_broker_create no_qemu instances_n =
     (if instances_n = 0 \<or> no_qemu \<and> instances_n > 1 then throw (invalid_instances instances_n)
      else then_do (spawn_instances instances_n) (\<lambda>_.
           then_do call_clock (\<lambda>start.
           modify (\<lambda>s. s\<lparr>gi_stats := replicate (unat instances_n) None, gi_start := start\<rparr>))))"

subsection \<open>One message\<close>

definition instance_failed :: "u8 \<Rightarrow> anyhow \<Rightarrow> anyhow" where
  "instance_failed n err = (''error inside instance '' @ show_nat (unat n)) # err"

definition from_instance :: "u8 \<Rightarrow> string \<Rightarrow> string" where
  "from_instance n msg = msg @ '' (instance '' @ show_nat (unat n) @ '')''"

definition unknown_instance :: "u8 \<Rightarrow> anyhow" where
  "unknown_instance n = [''failed to get instance '' @ show_nat (unat n)]"

definition black_box_record_stats :: "u8 \<Rightarrow> black_box_stats \<Rightarrow> ('z black_box_broker_scheme, anyhow, unit) prog" where
  "black_box_record_stats n stats =
     then_do (gets bi_stats) (\<lambda>instances.
     then_do (lift_res (ok_or (unknown_instance n) (vec_get instances (unat n)))) (\<lambda>_.
     modify (\<lambda>s. s\<lparr>bi_stats := (bi_stats s)[unat n := Some stats]\<rparr>)))"

definition grey_box_record_stats :: "u8 \<Rightarrow> grey_box_stats \<Rightarrow> ('z grey_box_broker_scheme, anyhow, unit) prog" where
  "grey_box_record_stats n stats =
     then_do (gets gi_stats) (\<lambda>instances.
     then_do (lift_res (ok_or (unknown_instance n) (vec_get instances (unat n)))) (\<lambda>_.
     modify (\<lambda>s. s\<lparr>gi_stats := (gi_stats s)[unat n := Some stats]\<rparr>)))"

definition black_box_total :: "'z black_box_broker_scheme \<Rightarrow> black_box_stats" where
  "black_box_total s = black_box_aggregate (present (bi_stats s))"

definition grey_box_total :: "'z grey_box_broker_scheme \<Rightarrow> ('e, grey_box_stats) res" where
  "grey_box_total s = grey_box_aggregate (present (gi_stats s))"

fun black_box_handle :: "broker_message \<Rightarrow> ('z black_box_broker_scheme, anyhow, unit) prog" where
  "black_box_handle (MsgError n err) = throw (instance_failed n err)"
| "black_box_handle (MsgBlackBoxStats n stats) =
     then_do (black_box_record_stats n stats) (\<lambda>_.
     then_do (gets black_box_total) (\<lambda>aggregated.
     then_do (gets bi_start) (\<lambda>start.
     then_do (then_do (black_box_display start aggregated) (log_message LogInfo)) (\<lambda>_.
     then_do (black_box_display start stats) (\<lambda>line. log_message LogInfo (from_instance n line))))))"
| "black_box_handle (MsgGreyBoxStats n stats) = panic"
| "black_box_handle (MsgInfo n msg) = log_message LogInfo (from_instance n msg)"
| "black_box_handle (MsgWarn n msg) = log_message LogWarn (from_instance n msg)"

fun grey_box_handle :: "broker_message \<Rightarrow> ('z grey_box_broker_scheme, anyhow, unit) prog" where
  "grey_box_handle (MsgError n err) = throw (instance_failed n err)"
| "grey_box_handle (MsgBlackBoxStats n stats) = panic"
| "grey_box_handle (MsgGreyBoxStats n stats) =
     then_do (grey_box_record_stats n stats) (\<lambda>_.
     then_do (gets grey_box_total) (\<lambda>total.
     then_do (lift_res total) (\<lambda>aggregated.
     then_do (gets gi_start) (\<lambda>start.
     then_do (then_do (grey_box_display start aggregated) (log_message LogInfo)) (\<lambda>_.
     then_do (grey_box_display start stats) (\<lambda>line. log_message LogInfo (from_instance n line)))))))"
| "grey_box_handle (MsgInfo n msg) = log_message LogInfo (from_instance n msg)"
| "grey_box_handle (MsgWarn n msg) = log_message LogWarn (from_instance n msg)"

subsection \<open>The run\<close>

definition start_instances :: "nat \<Rightarrow> u64 option \<Rightarrow> ('z world_scheme, anyhow, unit) prog" where
  "start_instances count test_count =
     for_each (map word_of_nat [0..<count]) (\<lambda>n.
       with_context ''failed to run instance'' (call_unit (StartInstance n test_count)))"

definition receive_from_instances :: "('z world_scheme, anyhow, broker_message) prog" where
  "receive_from_instances = with_context ''failed to receive broker message'' call_receive"

definition black_box_broker_run :: "u64 option \<Rightarrow> ('z black_box_broker_scheme, anyhow, unit) prog" where
  "black_box_broker_run test_count =
     then_do call_clock (\<lambda>start.
     then_do (modify (\<lambda>s. s\<lparr>bi_start := start\<rparr>)) (\<lambda>_.
     then_do (gets (\<lambda>s. length (bi_stats s))) (\<lambda>count.
     then_do (start_instances count test_count) (\<lambda>_.
     repeat_forever (then_do receive_from_instances black_box_handle)))))"

definition grey_box_broker_run :: "u64 option \<Rightarrow> ('z grey_box_broker_scheme, anyhow, unit) prog" where
  "grey_box_broker_run test_count =
     then_do call_clock (\<lambda>start.
     then_do (modify (\<lambda>s. s\<lparr>gi_start := start\<rparr>)) (\<lambda>_.
     then_do (gets (\<lambda>s. length (gi_stats s))) (\<lambda>count.
     then_do (start_instances count test_count) (\<lambda>_.
     repeat_forever (then_do receive_from_instances grey_box_handle)))))"

subsection \<open>An instance\<close>

text \<open>Both \<open>run_instance\<close> functions; the fuzzer is created and run by the arguments.\<close>

definition run_when_told ::
    "broker_handle \<Rightarrow> (u64 option \<Rightarrow> ('z world_scheme, anyhow, unit) prog) \<Rightarrow> ('z world_scheme, anyhow, unit) prog" where
  "run_when_told broker run =
     then_do (unwrap_prog (handle_info broker ''fuzzer is ready'')) (\<lambda>_.
     then_do (unwrap_prog call_receive_run) (\<lambda>test_count.
     then_do (unwrap_prog (handle_info broker ''run fuzzer'')) (\<lambda>_.
     run test_count)))"

definition launch_failed :: "u8 \<Rightarrow> string" where
  "launch_failed n = ''failed to launch fuzzer instance '' @ show_nat (unat n)"

definition black_box_run_instance ::
    "nat \<Rightarrow> 'g rng \<Rightarrow> (u64 \<Rightarrow> 'g) \<Rightarrow> config \<Rightarrow> fs_mount \<Rightarrow> fs_mount \<Rightarrow>
     local_path \<Rightarrow> bool \<Rightarrow> string \<Rightarrow> broker_handle \<Rightarrow> u8 \<Rightarrow> (('g, 'y) black_box_scheme, anyhow, unit) prog" where
  "black_box_run_instance fuel rng seed conf fst_mount snd_mount crashes_path no_qemu name broker n =
     then_do (local_create_new_tmp name) (\<lambda>local_tmp_dir.
     then_do (launch_cmdi_and_supervisor no_qemu conf local_tmp_dir broker) (\<lambda>(cmdi, sv).
     then_do (with_context (launch_failed n)
       (black_box_create seed conf fst_mount snd_mount crashes_path cmdi sv local_tmp_dir broker)) (\<lambda>parts.
     run_when_told broker (black_box_run fuel rng parts))))"

definition grey_box_run_instance ::
    "nat \<Rightarrow> 'g rng \<Rightarrow> ('f, 'g) float_ops \<Rightarrow> (u64 \<Rightarrow> 'g) \<Rightarrow> 'g \<Rightarrow>
     (string \<Rightarrow> string list) \<Rightarrow> config \<Rightarrow> fs_mount \<Rightarrow> fs_mount \<Rightarrow> local_path \<Rightarrow> string option \<Rightarrow> bool \<Rightarrow> string \<Rightarrow>
     broker_handle \<Rightarrow> u8 \<Rightarrow> (('f, 'g, 'y) grey_box_scheme, anyhow, unit) prog" where
  "grey_box_run_instance fuel rng fl seed os_seed walk_dir conf fst_mount snd_mount crashes_path
      corpus_path no_qemu name broker n =
     then_do (local_create_new_tmp name) (\<lambda>local_tmp_dir.
     then_do (launch_cmdi_and_supervisor no_qemu conf local_tmp_dir broker) (\<lambda>(cmdi, sv).
     then_do (with_context (launch_failed n)
       (grey_box_create fuel rng fl seed os_seed walk_dir conf fst_mount snd_mount crashes_path corpus_path
          cmdi sv local_tmp_dir broker)) (\<lambda>(parts, gp).
     run_when_told broker (grey_box_run parts gp))))"

text \<open>The thread of an instance: an error goes to the broker.\<close>

definition instance_thread ::
    "broker_handle \<Rightarrow> ('z world_scheme, anyhow, unit) prog \<Rightarrow> ('z world_scheme, anyhow, unit) prog" where
  "instance_thread broker run_instance = (\<lambda>s. case run_instance s of
     None \<Rightarrow> None
   | Some (Ok _, s') \<Rightarrow> Some (Ok (), s')
   | Some (Err err, s') \<Rightarrow> unwrap_prog (handle_error broker err) s'
   | Some (Crash c, s') \<Rightarrow> Some (Crash c, s'))"

definition grey_box_create_without_broker ::
    "nat \<Rightarrow> 'g rng \<Rightarrow> ('f, 'g) float_ops \<Rightarrow> (u64 \<Rightarrow> 'g) \<Rightarrow> 'g \<Rightarrow>
     (string \<Rightarrow> string list) \<Rightarrow> config \<Rightarrow> fs_mount \<Rightarrow> fs_mount \<Rightarrow> local_path \<Rightarrow> string option \<Rightarrow> bool \<Rightarrow>
     (('f, 'g, 'y) grey_box_scheme, anyhow, (('f, 'g, 'y) grey_box_scheme) runner_parts \<times> ('f, 'g) grey_box_parts) prog" where
  "grey_box_create_without_broker fuel rng fl seed os_seed walk_dir conf fst_mount snd_mount crashes_path
      corpus_path no_qemu =
     then_do (local_create_new_tmp ''greybox'') (\<lambda>local_tmp_dir.
     then_do call_clock (\<lambda>start.
     let broker = FakeHandle start
     in then_do (launch_cmdi_and_supervisor no_qemu conf local_tmp_dir broker) (\<lambda>(cmdi, sv).
        grey_box_create fuel rng fl seed os_seed walk_dir conf fst_mount snd_mount crashes_path corpus_path
          cmdi sv local_tmp_dir broker)))"

subsection \<open>The latest statistics\<close>

text \<open>The statistics a message carries, with the position of the instance.\<close>

fun black_box_report :: "broker_message \<Rightarrow> (nat \<times> black_box_stats) option" where
  "black_box_report (MsgBlackBoxStats n stats) = Some (unat n, stats)"
| "black_box_report _ = None"

definition latest :: "broker_message list \<Rightarrow> nat \<Rightarrow> black_box_stats option" where
  "latest msgs i = map_of (rev (List.map_filter black_box_report msgs)) i"

lemma latest_simps:
  "latest [] i = None"
  "latest (msg # msgs) i = (case latest msgs i of Some st \<Rightarrow> Some st
     | None \<Rightarrow> (case black_box_report msg of Some (n, st) \<Rightarrow> if n = i then Some st else None | None \<Rightarrow> None))"
  by (auto simp: latest_def map_filter_simps map_add_def split: option.splits)

lemma appends_keeps_stats: "appends A s s' \<Longrightarrow> keeps bi_stats s s'"
  unfolding appends_def keeps_def by (elim exE conjE) simp

lemma shown_still: "steps (keeps bi_stats) (black_box_display start stats)"
    "steps (keeps bi_stats) (log_message l msg)"
proof -
  have "steps (appends (\<lambda>_. True)) (black_box_display start stats)" "steps (appends (\<lambda>_. True)) (log_message l msg)"
    unfolding black_box_display_def by (intro emits; simp)+
  then show "steps (keeps bi_stats) (black_box_display start stats)" "steps (keeps bi_stats) (log_message l msg)"
    unfolding steps_def using appends_keeps_stats by blast+
qed

lemma black_box_record_stats_Ok:
  assumes "black_box_record_stats n stats s = Some (Ok (), s')"
  shows "unat n < length (bi_stats s) \<and> bi_stats s' = (bi_stats s)[unat n := Some stats]"
  using assms by (cases "unat n < length (bi_stats s)") (auto simp: black_box_record_stats_def vec_get_def)

lemma black_box_handle_Ok:
  assumes "black_box_handle msg s = Some (Ok (), s')"
  shows "case black_box_report msg of None \<Rightarrow> bi_stats s' = bi_stats s
    | Some (i, st) \<Rightarrow> i < length (bi_stats s) \<and> bi_stats s' = (bi_stats s)[i := Some st]"
proof (cases msg)
  case (MsgBlackBoxStats n stats)
  obtain u s1 where 1: "black_box_record_stats n stats s = Some (Ok u, s1)"
    using assms unfolding MsgBlackBoxStats black_box_handle.simps by (rule then_do_OkE)
  then have 2: "then_do (then_do (black_box_display (bi_start s1) (black_box_total s1)) (log_message LogInfo)) (\<lambda>_.
      then_do (black_box_display (bi_start s1) stats) (\<lambda>line. log_message LogInfo (from_instance n line))) s1
      = (Some (Ok (), s') :: ((anyhow, unit) res \<times> _) option)"
    using assms MsgBlackBoxStats by simp
  have "keeps bi_stats s1 s'"
    using 2 by (rule stepsD [rotated]) (intro keeps.then_do shown_still)
  then show ?thesis
    using MsgBlackBoxStats black_box_record_stats_Ok [of n stats s s1] 1 by (simp add: keeps_def)
qed (use assms in \<open>auto simp: log_message_def record_call_def\<close>)

lemma black_box_handles:
  assumes "for_each msgs black_box_handle s = Some (Ok (), s')"
  shows "length (bi_stats s') = length (bi_stats s)
    \<and> (\<forall>i < length (bi_stats s). bi_stats s' ! i = (case latest msgs i of Some st \<Rightarrow> Some st | None \<Rightarrow> bi_stats s ! i))"
  using assms
proof (induction msgs arbitrary: s)
  case (Cons msg msgs)
  obtain u s1 where 1: "black_box_handle msg s = Some (Ok u, s1)"
      and 2: "for_each msgs black_box_handle s1 = Some (Ok (), s')"
    using Cons.prems unfolding for_each.simps by (rule then_do_OkE)
  have step: "case black_box_report msg of None \<Rightarrow> bi_stats s1 = bi_stats s
      | Some (i, st) \<Rightarrow> i < length (bi_stats s) \<and> bi_stats s1 = (bi_stats s)[i := Some st]"
    using black_box_handle_Ok [of msg s s1] 1 by simp
  then have len: "length (bi_stats s1) = length (bi_stats s)" by (auto split: option.splits)
  have "bi_stats s' ! i = (case latest (msg # msgs) i of Some st \<Rightarrow> Some st | None \<Rightarrow> bi_stats s ! i)"
    if i: "i < length (bi_stats s)" for i
  proof (cases "latest msgs i")
    case None
    then have "bi_stats s' ! i = bi_stats s1 ! i" using Cons.IH [OF 2] i len by simp
    then show ?thesis using None step i
      by (auto simp: latest_simps nth_list_update split: option.splits)
  next
    case (Some st)
    then show ?thesis using Cons.IH [OF 2] i len by (simp add: latest_simps)
  qed
  then show ?case using Cons.IH [OF 2] len by simp
qed (simp add: latest_simps)

text \<open>The sums.\<close>

lemma foldl_add: "foldl (\<lambda>acc x. acc + f x) a xs = a + (\<Sum>x \<leftarrow> xs. f x)" for f :: "'b \<Rightarrow> 'a::comm_monoid_add"
  by (induction xs arbitrary: a) (simp_all add: add.assoc)

lemma black_box_aggregate_sums:
  "bb_crashes (black_box_aggregate stats) = (\<Sum>st \<leftarrow> stats. bb_crashes st)"
  "bb_executions (black_box_aggregate stats) = (\<Sum>st \<leftarrow> stats. bb_executions st)"
  by (simp_all add: black_box_aggregate_def foldl_add)

text \<open>A message of a grey box instance is handled without a panic: the maxima are of a nonempty list.\<close>

lemma grey_box_aggregate_Ok: "stats \<noteq> [] \<Longrightarrow> \<exists>st. grey_box_aggregate stats = Ok st"
  by (cases stats) (auto simp: grey_box_aggregate_def list_max_def vec_get_def)

lemma present_update: "i < length xs \<Longrightarrow> present (xs[i := Some a]) \<noteq> []"
proof (induction xs arbitrary: i)
  case (Cons x xs)
  then show ?case by (cases i; cases x) (auto simp: present_def map_filter_simps)
qed simp

end
