(* ===== verification/Program.thy ===== *)
theory Program
  imports Broker
begin

text \<open>
  \<open>main.rs\<close> and \<open>args.rs\<close>: the program from its parsed command line on, for each of the five modes (but for
  \<open>qemu_drop\<close>, the destructor of the supervisor, at the end of a mode), and \<open>dash/src/main.rs\<close> and \<open>dash/src/args.rs\<close>, the binary that the Dash observer runs on the guest.

  The crate \<open>clap\<close> builds the records of arguments. \<open>crates\<close> holds the other parameters of the model: the random
  sources, the arithmetic of the power schedule, the directory walk and the parser of the configuration.

  A component keeps its own state while it runs; \<open>run_in\<close> starts it on a fresh one.
\<close>

subsection \<open>Arguments\<close>

datatype program_mode =
    GreyboxMode string string "u64 option" "string option" u8
  | BlackboxMode string string "u64 option" u8
  | SoloSingleMode string string bool string
  | DuoSingleMode string string string string bool
  | ReduceMode string string string string

record program_args =
  pa_config_path :: string
  pa_mode :: program_mode
  pa_no_qemu :: bool

record ('f, 'g) crates =
  cr_fuel :: nat
  cr_rng :: "'g rng"
  cr_seed :: "u64 \<Rightarrow> 'g"
  cr_os_seed :: 'g
  cr_float_ops :: "('f, 'g) float_ops"
  cr_walk_dir :: "string \<Rightarrow> string list"
  cr_parse_config :: "string \<Rightarrow> string + config"

subsection \<open>The state of each component\<close>

definition run_in ::
    "(world \<Rightarrow> 'z world_scheme) \<Rightarrow> ('z world_scheme, 'e, 'a) prog \<Rightarrow> (world, 'e, 'a) prog" where
  "run_in new m = (\<lambda>w. map_option (\<lambda>(r, s). (r, world.truncate s)) (m (new w)))"

definition new_rig :: "world \<Rightarrow> rig" where
  "new_rig w = \<lparr>env = env w, calls = calls w, observers_heap = []\<rparr>"

definition new_runner :: "world \<Rightarrow> runner" where
  "new_runner w = \<lparr>env = env w, calls = calls w, observers_heap = [], executions = 0, crashes = 0\<rparr>"

text \<open>The fields that \<open>create\<close> sets have any value before.\<close>

definition new_black_box :: "('f, 'g) crates \<Rightarrow> world \<Rightarrow> 'g black_box" where
  "new_black_box cr w =
     \<lparr>env = env w, calls = calls w, observers_heap = [], executions = 0, crashes = 0,
      bx_rng = cr_os_seed cr, bx_last_stats = 0\<rparr>"

definition new_grey_box :: "('f, 'g) crates \<Rightarrow> config \<Rightarrow> world \<Rightarrow> ('f, 'g) grey_box" where
  "new_grey_box cr conf w =
     \<lparr>env = env w, calls = calls w, observers_heap = [], executions = 0, crashes = 0,
      gx_initial_corpus = [], gx_next_initial = 0, gx_corpus = [],
      gx_scheduler = scheduler_new (cr_float_ops cr) (cr_os_seed cr) (cf_greybox conf),
      gx_fst_feedback = DummyFeedback [], gx_snd_feedback = DummyFeedback [],
      gx_rng = cr_os_seed cr, gx_last_stats = 0\<rparr>"

definition new_black_box_broker :: "world \<Rightarrow> black_box_broker" where
  "new_black_box_broker w = \<lparr>env = env w, calls = calls w, bi_stats = [], bi_start = 0\<rparr>"

definition new_grey_box_broker :: "world \<Rightarrow> grey_box_broker" where
  "new_grey_box_broker w = \<lparr>env = env w, calls = calls w, gi_stats = [], gi_start = 0\<rparr>"

subsection \<open>The five modes\<close>

definition crashes_dir :: local_path where
  "crashes_dir = ''./crashes''"

definition fs_pair :: "string \<Rightarrow> string \<Rightarrow> string" where
  "fs_pair fst_name snd_name = ''('' @ in_quotes fst_name @ '' + '' @ in_quotes snd_name @ '')''"

text \<open>Both \<open>into()\<close> conversions, before the call they are arguments of.\<close>

definition with_filesystems ::
    "string \<Rightarrow> string \<Rightarrow> (fs_mount \<Rightarrow> fs_mount \<Rightarrow> ('s, 'e, 'a) prog) \<Rightarrow> ('s, 'e, 'a) prog" where
  "with_filesystems fst_name snd_name f =
     then_do (lift_res (mount_from fst_name)) (\<lambda>fst_mount.
     then_do (lift_res (mount_from snd_name)) (\<lambda>snd_mount. f fst_mount snd_mount))"

definition duo_run ::
    "('z runner_scheme) runner_parts \<Rightarrow> local_path \<Rightarrow> u64 option \<Rightarrow> ('z runner_scheme, anyhow, unit) prog" where
  "duo_run parts test_path = fuzzer_run (duo_fuzz_one parts test_path) duo_send_stats"

fun run_mode :: "('f, 'g) crates \<Rightarrow> config \<Rightarrow> bool \<Rightarrow> program_mode \<Rightarrow> (world, anyhow, unit) prog" where
  "run_mode cr conf no_qemu (GreyboxMode fst_name snd_name test_count corpus_path instances) =
     then_do (log_message LogInfo (''start greybox fuzzing '' @ fs_pair fst_name snd_name)) (\<lambda>_.
     with_filesystems fst_name snd_name (\<lambda>fst_mount snd_mount.
     if instances > 1 then
       run_in new_grey_box_broker
         (then_do (grey_box_broker_create no_qemu instances) (\<lambda>_. grey_box_broker_run test_count))
     else
       run_in (new_grey_box cr conf)
         (then_do (grey_box_create_without_broker (cr_fuel cr) (cr_rng cr) (cr_float_ops cr) (cr_seed cr)
            (cr_os_seed cr) (cr_walk_dir cr) conf fst_mount snd_mount crashes_dir corpus_path no_qemu)
          (\<lambda>(parts, gp). grey_box_run parts gp test_count))))"
| "run_mode cr conf no_qemu (BlackboxMode fst_name snd_name test_count instances) =
     then_do (log_message LogInfo (''start blackbox fuzzing '' @ fs_pair fst_name snd_name)) (\<lambda>_.
     with_filesystems fst_name snd_name (\<lambda>fst_mount snd_mount.
     if instances > 1 then
       run_in new_black_box_broker
         (then_do (black_box_broker_create no_qemu instances) (\<lambda>_. black_box_broker_run test_count))
     else
       run_in (new_black_box cr)
         (then_do (black_box_create_without_broker (cr_seed cr) conf fst_mount snd_mount crashes_dir no_qemu)
          (\<lambda>parts. black_box_run (cr_fuel cr) (cr_rng cr) parts test_count))))"
| "run_mode cr conf no_qemu (SoloSingleMode output_dir test_path keep_fs fs_name) =
     then_do (log_message LogInfo (''run single test ('' @ in_quotes fs_name @ '')'')) (\<lambda>_.
     then_do (lift_res (mount_from fs_name)) (\<lambda>fs.
     run_in new_rig (solo_run test_path output_dir keep_fs fs conf no_qemu)))"
| "run_mode cr conf no_qemu (DuoSingleMode fst_name snd_name output_dir test_path keep_fs) =
     then_do (log_message LogInfo (''run single test '' @ fs_pair fst_name snd_name)) (\<lambda>_.
     with_filesystems fst_name snd_name (\<lambda>fst_mount snd_mount.
     run_in new_runner
       (then_do (duo_create conf fst_mount snd_mount output_dir keep_fs no_qemu)
        (\<lambda>parts. duo_run parts test_path (Some 1)))))"
| "run_mode cr conf no_qemu (ReduceMode output_dir test_path fst_name snd_name) =
     then_do (log_message LogInfo (''reduce test '' @ fs_pair fst_name snd_name)) (\<lambda>_.
     with_filesystems fst_name snd_name (\<lambda>fst_mount snd_mount.
     run_in new_runner
       (then_do (reducer_create conf fst_mount snd_mount output_dir no_qemu)
        (\<lambda>parts. reducer_run parts test_path output_dir))))"

definition program_run :: "('f, 'g) crates \<Rightarrow> program_args \<Rightarrow> (world, anyhow, unit) prog" where
  "program_run cr a =
     then_do (with_context ''failed to init logger'' (call_unit (InitLogger ''log4rs.yml''))) (\<lambda>_.
     then_do (log_message LogInfo ''init logger'') (\<lambda>_.
     then_do (log_message LogInfo ''read configuration'') (\<lambda>_.
     then_do (with_context ''failed to read configuration file'' (call_read (pa_config_path a))) (\<lambda>conf_text.
     then_do (with_context ''failed to parse configuration''
       (lift_res (of_reply (cr_parse_config cr conf_text)))) (\<lambda>conf.
     run_mode cr conf (pa_no_qemu a) (pa_mode a))))))"

definition program_main :: "('f, 'g) crates \<Rightarrow> program_args \<Rightarrow> (world, anyhow, unit) prog" where
  "program_main cr a =
     then_do (attempt (program_run cr a)) (\<lambda>status.
     case status of
       Inl err \<Rightarrow> then_do (asks show_error) (\<lambda>show_err. log_message LogError (show_err err))
     | Inr _ \<Rightarrow> return ())"

subsection \<open>The binary of the Dash observer\<close>

record dash_args =
  da_target_path :: string
  da_output_path :: string
  da_size :: bool
  da_file_nlink :: bool
  da_dir_nlink :: bool
  da_mode :: bool
  da_exclude :: "string list option"

text \<open>
  The parameters are the hash, \<open>RegexSet::new\<close> (an error for an invalid pattern), the walk below a directory and the
  JSON text of the files. An \<open>unwrap\<close> panics.
\<close>

definition dash_main ::
    "(u8 list \<Rightarrow> u64) \<Rightarrow> (string list \<Rightarrow> string + (string \<Rightarrow> bool)) \<Rightarrow>
     (string \<Rightarrow> (string, string \<times> (string, file_info) res) res list) \<Rightarrow> (file_info list \<Rightarrow> string + string) \<Rightarrow>
     dash_args \<Rightarrow> ('z world_scheme, anyhow, unit) prog" where
  "dash_main hash regex_set walk_dir json_text a =
     (let hasher_options = \<lparr>ho_size = da_size a, ho_file_nlink = da_file_nlink a,
            ho_dir_nlink = da_dir_nlink a, ho_mode = da_mode a\<rparr>
      in then_do (unwrap_prog (lift_res (of_reply (regex_set (case da_exclude a of Some ps \<Rightarrow> ps | None \<Rightarrow> []))))) (\<lambda>skip.
         then_do (unwrap_prog (lift_res (calc_dir_hash hash skip hasher_options (walk_dir (da_target_path a))))) (\<lambda>(h, files).
         then_do (unwrap_prog (call_unit (Print (show_u64 h @ [newline])))) (\<lambda>_.
         then_do (unwrap_prog (lift_res (of_reply (json_text files)))) (\<lambda>serialized.
         unwrap_prog (with_context ''failed write output to file''
           (call_unit (WriteFile (da_output_path a) serialized))))))))"

end
