(* ===== verification/Program_Correct.thy ===== *)
theory Program_Correct
  imports Program
begin

text \<open>
  How many test programs a run of the whole program starts. \<open>ran n\<close> relates the states before and after \<open>n\<close> starts;
  \<open>tests lo hi m\<close> bounds the number for the runs of \<open>m\<close> that end well. The interface of a fuzzer here is
  \<open>testing_fuzzer\<close>: one iteration starts one or two tests, reporting starts none.
\<close>

subsection \<open>Counting the tests of a program\<close>

definition ran :: "nat \<Rightarrow> 'z rig_scheme \<Rightarrow> 'z rig_scheme \<Rightarrow> bool" where
  "ran n s s' \<longleftrightarrow> (dash_paths_ok s \<longrightarrow> dash_paths_ok s'
     \<and> (\<exists>cs. calls s' = calls s @ cs \<and> length (filter is_test_run cs) = n))"

lemma ran_trans: "ran m s s' \<Longrightarrow> ran n s' s'' \<Longrightarrow> ran (m + n) s s''"
  unfolding ran_def by (metis append.assoc filter_append length_append)

lemma ran_same: "calls s' = calls s \<Longrightarrow> observers_heap s' = observers_heap s \<Longrightarrow> ran 0 s s'"
  by (auto simp: ran_def dash_paths_ok_def)

lemma rig_runs_ran: "rig_runs n k s s' \<Longrightarrow> ran n s s'"
  unfolding rig_runs_def ran_def counts_calls_def by fastforce

interpretation ran: state_preorder "ran 0"
  using ran_same ran_trans [of 0 _ _ 0] by unfold_locales auto

abbreviation no_test :: "('z rig_scheme, 'e, 'a) prog \<Rightarrow> bool" where
  "no_test m \<equiv> steps (ran 0) m"

lemma rig_quiet_no_test: "rig_quiet m \<Longrightarrow> no_test m"
  unfolding steps_def by (blast intro: rig_runs_ran)

lemma appends_no_test: "steps (appends (\<lambda>c. \<not> is_test_run c)) m \<Longrightarrow> no_test m"
  unfolding steps_def appends_def ran_def by (fastforce simp: dash_paths_ok_def filter_empty_conv)

lemma quiet_no_test: "quiet m \<Longrightarrow> no_test m"
  by (rule rig_quiet_no_test [OF quiet_rig])

lemma modify_no_test:
  assumes "\<And>s. calls (f s) = calls s" and "\<And>s. observers_heap (f s) = observers_heap s"
  shows "no_test (modify f)"
  using assms by (auto simp: steps_def intro: ran_same)

definition tests :: "nat \<Rightarrow> nat \<Rightarrow> ('z rig_scheme, 'e, 'a) prog \<Rightarrow> bool" where
  "tests lo hi m \<longleftrightarrow> (\<forall>s a s'. m s = Some (Ok a, s') \<longrightarrow> (\<exists>n. lo \<le> n \<and> n \<le> hi \<and> ran n s s'))"

lemma testsD: "tests lo hi m \<Longrightarrow> m s = Some (Ok a, s') \<Longrightarrow> \<exists>n. lo \<le> n \<and> n \<le> hi \<and> ran n s s'"
  by (auto simp: tests_def)

lemma tests_none: "no_test m \<Longrightarrow> tests 0 0 m"
  by (auto simp: tests_def steps_def)

lemma tests_then:
  assumes "tests lo hi m" and "\<And>s a s'. m s = Some (Ok a, s') \<Longrightarrow> tests lo' hi' (f a)"
  shows "tests (lo + lo') (hi + hi') (then_do m f)"
proof (unfold tests_def, intro allI impI)
  fix s a s'
  assume "then_do m f s = Some (Ok a, s')"
  then obtain b s1 where 1: "m s = Some (Ok b, s1)" and 2: "f b s1 = Some (Ok a, s')" by (rule then_do_OkE)
  from testsD [OF assms(1) 1] testsD [OF assms(2) [OF 1] 2] obtain j k
    where "lo \<le> j" "j \<le> hi" "ran j s s1" "lo' \<le> k" "k \<le> hi'" "ran k s1 s'" by blast
  then show "\<exists>n \<ge> lo + lo'. n \<le> hi + hi' \<and> ran n s s'"
    by (intro exI [of _ "j + k"]) (auto intro: ran_trans)
qed

lemma tests_after:
  "no_test m \<Longrightarrow> (\<And>s a s'. m s = Some (Ok a, s') \<Longrightarrow> tests lo hi (f a)) \<Longrightarrow> tests lo hi (then_do m f)"
  using tests_then [OF tests_none, of m lo hi f] by simp

lemma tests_before:
  "tests lo hi m \<Longrightarrow> (\<And>a. no_test (f a)) \<Longrightarrow> tests lo hi (then_do m f)"
  using tests_then [OF _ tests_none, of lo hi m f] by simp

lemma tests_with_context: "tests lo hi m \<Longrightarrow> tests lo hi (with_context c m)"
  by (simp add: tests_def with_context_Ok)

lemma tests_for_each:
  assumes "\<And>x. tests lo hi (f x)"
  shows "tests (length xs * lo) (length xs * hi) (for_each xs f)"
proof (induction xs)
  case Nil
  then show ?case by (simp only: for_each.simps list.size mult_0 tests_none [OF ran.still(1)])
next
  case (Cons x xs)
  then show ?case using tests_then [OF assms Cons, of x] by simp
qed

lemma tests_never: "(\<And>s a s'. m s \<noteq> Some (Ok a, s')) \<Longrightarrow> tests lo hi m"
  by (simp add: tests_def)

subsection \<open>Launching and creating\<close>

lemma no_test_log: "no_test (log_message l msg)" "no_test (asks g)" "no_test call_clock"
  by (rule quiet_no_test, intro emits, simp?)+

lemma no_test_tmp: "no_test (local_create_new_tmp nm)"
  unfolding local_create_new_tmp_def Let_def by (rule quiet_no_test) (intro emits, simp_all)

lemma no_test_launch: "no_test (launch_cmdi_and_supervisor no_qemu conf tmp_dir broker)"
  by (rule quiet_no_test [OF quiet_launch])

lemma no_test_save_snapshot:
  assumes "launched cmdi sv w"
  shows "no_test (sv_save_snapshot sv)"
proof -
  have "\<not> is_test_run c" if "is_report c" for c using that by (cases c) simp_all
  then have "no_test (monitor_command broker opts msg line)" for broker opts msg line
    unfolding monitor_command_def monitor_stream_def by (intro appends_no_test emits) simp_all
  then show ?thesis
    using assms by (auto simp: launched_def native_supervisor_def qemu_supervisor_def ran.still)
qed

lemma dash_observer_path:
  "dash_observer_create conf cmdi fs_dir patterns s = Some (Ok ob, s') \<Longrightarrow> do_dash_path ob \<noteq> Some ''timeout''"
  by (auto simp: dash_observer_create_def Ok_runs Let_def asks_def remote_new_tmp_def join_def TMP_DIR_PREFIX_def
      log_message_def split: if_splits)

lemma no_test_push: "do_dash_path ob \<noteq> Some ''timeout'' \<Longrightarrow> no_test (heap_push ob)"
  by (auto simp: steps_def heap_push_def ran_def dash_paths_ok_def)

lemma no_test_dash_observer:
  assumes "launched cmdi sv w"
  shows "no_test (dash_observer_create conf cmdi fs_dir patterns)"
proof -
  have "command_contract cmdi" using launched_contract [OF assms] by (simp add: rig_contract_def)
  note quiet = command_contract.quiet_methods [OF this]
  show ?thesis
    unfolding dash_observer_create_def Let_def
    by (rule quiet_no_test) (intro emits quiet, simp_all)
qed

text \<open>Like \<open>then_do\<close> of the preorder, with what the first program ensures.\<close>

lemma no_test_then:
  assumes "no_test m" and "\<And>s a s'. m s = Some (Ok a, s') \<Longrightarrow> no_test (f a)"
  shows "no_test (then_do m f)"
proof (unfold steps_def, intro allI impI)
  fix s r s'
  assume "then_do m f s = Some (r, s')"
  then show "ran 0 s s'"
  proof (cases rule: then_do_cases)
    case (1 a s1)
    then show ?thesis using stepsD [OF assms(1) 1(1)] stepsD [OF assms(2) [OF 1(1)] 1(2)] ran.trans by blast
  qed (use stepsD [OF assms(1)] in auto)
qed

lemma runner_create_ensures:
  "runner_create fst_mount snd_mount crashes_path conf keep_fs cmdi sv dir broker obs s = Some (Ok parts, s') \<Longrightarrow>
   rp_cmdi parts = cmdi \<and> rp_supervisor parts = sv"
  by (auto simp: runner_create_def Ok_runs Let_def)

lemma no_test_runner_create:
  assumes "launched cmdi sv w"
  shows "no_test (runner_create fst_mount snd_mount crashes_path conf keep_fs cmdi sv dir broker obs)"
proof -
  have c: "command_contract cmdi" using launched_contract [OF assms] by (simp add: rig_contract_def)
  have dir: "no_test (call_unit (CreateDirAll p))" for p by (rule quiet_no_test) (intro emits, simp)
  note parts = quiet_no_test [OF command_contract.quiet_setup_remote_dir [OF c]] dir
    no_test_dash_observer [OF assms] no_test_save_snapshot [OF assms] ran.still ran.with_context
  show ?thesis
    unfolding runner_create_def Let_def
    by (intro no_test_then parts modify_no_test no_test_push)
      (auto simp: with_context_Ok dest: dash_observer_path)
qed

subsection \<open>One iteration of a fuzzer\<close>

text \<open>The part of an iteration that an outcome leads to.\<close>

lemma no_test_outcome:
  assumes "\<And>diff. no_test (completed diff)" and "\<And>r. no_test (report r)"
  shows "no_test (case out of
       DiffCompleted diff \<Rightarrow> completed diff
     | FirstPanicked fs_name \<Rightarrow> report (panic_reason fs_name)
     | SecondPanicked fs_name \<Rightarrow> report (panic_reason fs_name)
     | FirstTimedOut fs_name timeout \<Rightarrow> report (timeout_reason fs_name timeout)
     | SecondTimedOut fs_name timeout \<Rightarrow> report (timeout_reason fs_name timeout))"
  using assms by (cases out) simp_all

lemma tests_run_harness:
  assumes "launched (rp_cmdi parts) (rp_supervisor parts) w"
  shows "tests 1 2 (run_harness parts binary_path)"
proof (unfold tests_def, intro allI impI)
  fix s out s'
  assume "run_harness parts binary_path s = Some (Ok out, s')"
  then have "ran (harnesses_run out) s s'" by (rule rig_runs_ran [OF run_harness_counts [OF assms]])
  moreover have "1 \<le> harnesses_run out \<and> harnesses_run out \<le> 2" by (cases out) simp_all
  ultimately show "\<exists>n \<ge> 1. n \<le> 2 \<and> ran n s s'" by blast
qed

lemma no_test_count: "no_test (count_crash :: ('z runner_scheme, 'e, unit) prog)"
  unfolding count_crash_def by (rule modify_no_test) simp_all

lemma no_test_objectives:
  assumes "launched (rp_cmdi parts) (rp_supervisor parts) w" and "\<And>lazy. no_test (send_stats lazy)"
  shows "no_test (do_objective parts send_stats input binary_path diff)"
    and "no_test (detect_errors parts input binary_path diff)"
    and "no_test (report_crash parts send_stats input why)"
  unfolding do_objective_def detect_errors_def report_crash_def Let_def
  by (intro ran.rules no_test_log quiet_reports [OF assms(1), THEN quiet_no_test] no_test_count assms(2))+

lemma tests_outcome:
  assumes "launched (rp_cmdi parts) (rp_supervisor parts) w"
    and "\<And>binary_path out. no_test (f binary_path out)"
  shows "tests 1 2 (then_do (compile_test parts input) (\<lambda>binary_path.
    then_do (run_harness parts binary_path) (f binary_path)))"
  by (intro tests_after tests_before tests_run_harness [OF assms(1)] quiet_no_test [OF quiet_reports(3) [OF assms(1)]]
      assms(2))

lemma tests_fuzz_input:
  assumes "launched (rp_cmdi parts) (rp_supervisor parts) w" and "\<And>lazy. no_test (send_stats lazy)"
  shows "tests 1 2 (fuzz_input parts send_stats input)"
  unfolding fuzz_input_def
  by (intro tests_outcome [OF assms(1)] no_test_outcome no_test_objectives [OF assms] ran.rules)

lemma tests_fuzzer_run:
  assumes "tests lo hi fuzz_one" and "\<And>lazy. no_test (send_stats lazy)"
  shows "tests (unat count * lo) (unat count * hi) (fuzzer_run fuzz_one send_stats (Some count))"
    and "tests lo' hi' (fuzzer_run fuzz_one send_stats None)"
proof -
  have count: "no_test count_execution" unfolding count_execution_def by (rule modify_no_test) simp_all
  have "tests lo hi (runs fuzz_one send_stats)"
    unfolding runs_def by (intro tests_before assms ran.rules count)
  from tests_for_each [OF this, of "[0..<unat count]"]
  show "tests (unat count * lo) (unat count * hi) (fuzzer_run fuzz_one send_stats (Some count))"
    by (simp add: fuzzer_run_def)
  show "tests lo' hi' (fuzzer_run fuzz_one send_stats None)"
    by (rule tests_never) (auto simp: fuzzer_run_def dest: repeat_forever_no_Ok)
qed

lemma no_test_duo: "no_test (duo_send_stats lazy)" "no_test (read_workload path)"
  unfolding duo_send_stats_def read_workload_def
  by (rule ran.still, intro ran.rules no_test_log quiet_no_test [OF emits_calls(3)]) simp

lemma tests_duo_run:
  assumes "launched (rp_cmdi parts) (rp_supervisor parts) w"
  shows "tests 1 2 (duo_run parts path (Some 1))"
proof -
  have "tests 1 2 (duo_fuzz_one parts path)"
    unfolding duo_fuzz_one_def by (intro tests_after no_test_duo tests_fuzz_input [OF assms])
  from tests_fuzzer_run(1) [OF this no_test_duo(1), of 1] show ?thesis unfolding duo_run_def by simp
qed

lemma no_test_black_box: "no_test (black_box_send_stats parts lazy)" "no_test (black_box_generate fuel rng conf)"
proof -
  have calls: "no_test (elapsed_secs n)" "no_test (handle_black_box_stats h stats)" for n h stats
    by (rule quiet_no_test, intro emits, simp)+
  have set: "no_test (modify (\<lambda>s. s\<lparr>bx_last_stats := now\<rparr>))" for now by (rule modify_no_test) simp_all
  show "no_test (black_box_send_stats parts lazy)"
    unfolding black_box_send_stats_def by (intro ran.rules calls no_test_log set)
  show "no_test (black_box_generate fuel rng conf)"
    by (auto simp: steps_def black_box_generate_def intro: ran_same)
qed

lemma tests_black_box_one:
  assumes "launched (rp_cmdi parts) (rp_supervisor parts) w"
  shows "tests 1 2 (black_box_fuzz_one fuel rng parts)"
  unfolding black_box_fuzz_one_def by (intro tests_after no_test_black_box tests_fuzz_input [OF assms])

lemma no_test_grey_box_stats: "no_test (grey_box_send_stats parts lazy)"
proof -
  have calls: "no_test (elapsed_secs n)" "no_test (handle_grey_box_stats h stats)" for n h stats
    by (rule quiet_no_test, intro emits, simp)+
  have set: "no_test (modify (\<lambda>s. s\<lparr>gx_last_stats := now\<rparr>))" for now by (rule modify_no_test) simp_all
  show ?thesis unfolding grey_box_send_stats_def by (intro ran.rules calls no_test_log set)
qed

lemma no_test_pick_input: "no_test (pick_input gp)"
proof (unfold steps_def, intro allI impI)
  fix s r s'
  assume run: "pick_input gp s = Some (r, s')"
  have parts: "no_test (choose_seed fl)" "no_test (mutate_seed gp w)" for fl w
    by (auto simp: steps_def choose_seed_def mutate_seed_def intro: ran_same split: prod.splits)
  show "ran 0 s s'"
  proof (cases "gx_next_initial s < length (gx_initial_corpus s)")
    case True
    then show ?thesis using run pick_input_initial [OF True] by (auto intro: ran_same)
  next
    case False
    then have "then_do (choose_seed (gp_float_ops gp)) (mutate_seed gp) s = Some (r, s')"
      using run by (simp add: pick_input_def)
    then show ?thesis by (rule stepsD [rotated]) (intro ran.rules parts)
  qed
qed

lemma no_test_opinions: "no_test (fst_opinion out)" "no_test (snd_opinion out)"
proof -
  have opinion: "no_test (feedback_opinion_prog fb out)" for fb
  proof -
    have "no_test (case opinion_of nc m of (op, m') \<Rightarrow> return (op, g m'))" for nc m g
      by (simp add: ran.still split: prod.splits)
    moreover have read: "no_test (call_read path)" for path by (rule quiet_no_test) (intro emits, simp)
    moreover have "no_test (read_lcov out)" unfolding read_lcov_def by (intro ran.rules read)
    ultimately show ?thesis
      by (cases fb) (auto simp: parse_kcov_def Let_def intro!: ran.rules no_test_log)
  qed
  have "no_test (case p of (op, fb') \<Rightarrow> then_do (modify (\<lambda>s. s\<lparr>gx_fst_feedback := fb'\<rparr>)) (\<lambda>_. return op))"
      "no_test (case p of (op, fb') \<Rightarrow> then_do (modify (\<lambda>s. s\<lparr>gx_snd_feedback := fb'\<rparr>)) (\<lambda>_. return op))" for p
    by (cases p; simp; intro ran.rules modify_no_test; simp)+
  note updates = this
  show "no_test (fst_opinion out)" "no_test (snd_opinion out)"
    unfolding fst_opinion_def snd_opinion_def by (intro ran.rules opinion updates)+
qed

lemma tests_grey_box_one:
  assumes "launched (rp_cmdi parts) (rp_supervisor parts) w"
  shows "tests 1 2 (grey_box_fuzz_one parts gp)"
proof -
  have considered: "no_test (consider_input parts gp input binary_path diff)" for input binary_path diff
    unfolding consider_input_def add_to_corpus_def
    by (intro ran.rules no_test_opinions no_test_grey_box_stats modify_no_test
        quiet_no_test [OF quiet_save_input [OF assms]]) simp_all
  show ?thesis
    unfolding grey_box_fuzz_one_def
    by (rule tests_after [OF no_test_pick_input], rule tests_outcome [OF assms], intro no_test_outcome considered
        no_test_objectives [OF assms no_test_grey_box_stats] ran.rules)
qed

subsection \<open>A run of the program\<close>

lemma tests_launched:
  assumes "\<And>cmdi sv w. launched cmdi sv w \<Longrightarrow> tests lo hi (f cmdi sv)"
  shows "tests lo hi (then_do (launch_cmdi_and_supervisor no_qemu conf dir broker) (\<lambda>(cmdi, sv). f cmdi sv))"
  by (rule tests_after [OF no_test_launch]) (auto dest!: launch_yields_launched intro!: assms)

text \<open>The tests of a run on a fresh state, as calls of the world.\<close>

lemma run_in_calls:
  assumes "tests lo hi m" and "run_in new m w = Some (Ok a, w')" and "calls (new w) = calls w"
    and "observers_heap (new w) = []"
  shows "\<exists>cs. calls w' = calls w @ cs \<and> lo \<le> length (filter is_test_run cs) \<and> length (filter is_test_run cs) \<le> hi"
proof -
  obtain s where "m (new w) = Some (Ok a, s)" and w': "w' = world.truncate s"
    using assms(2) by (auto simp: run_in_def)
  from testsD [OF assms(1) this(1)] obtain n where n: "lo \<le> n" "n \<le> hi" "ran n (new w) s" by blast
  moreover have "dash_paths_ok (new w)" using assms(4) by (simp add: dash_paths_ok_def)
  ultimately show ?thesis using assms(3) by (auto simp: ran_def w' world.truncate_def)
qed

text \<open>The number of tests that the command line asks for; none is known for a broker, a reducer or a run without end.\<close>

fun asked_tests :: "program_mode \<Rightarrow> (nat \<times> nat) option" where
  "asked_tests (GreyboxMode f s count corpus instances) =
     (if instances \<le> 1 then map_option (\<lambda>n. (unat n, 2 * unat n)) count else None)"
| "asked_tests (BlackboxMode f s count instances) =
     (if instances \<le> 1 then map_option (\<lambda>n. (unat n, 2 * unat n)) count else None)"
| "asked_tests (SoloSingleMode _ _ _ _) = Some (1, 1)"
| "asked_tests (DuoSingleMode _ _ _ _ _) = Some (1, 2)"
| "asked_tests (ReduceMode _ _ _ _) = None"

lemma tests_harness:
  assumes "launched cmdi sv w"
  shows "tests 1 1 (harness_run h cmdi sv binary_path keep_fs)"
  using rig_contract.harness_runs_once [OF launched_contract [OF assms]]
  by (fastforce simp: tests_def intro: rig_runs_ran)

lemma no_test_save_solo:
  assumes "launched cmdi sv w"
  shows "no_test (save_solo cmdi output_dir nm timeout binary_path input out)"
proof -
  have "command_contract cmdi" using launched_contract [OF assms] by (simp add: rig_contract_def)
  note quiets = command_contract.quiet_save_testcase [OF this] quiet_save_completed quiet_save_reason
  show ?thesis
    unfolding save_solo_def Let_def
    by (cases out; simp; rule quiet_no_test; intro emits quiets)
qed

lemma tests_solo: "tests 1 1 (solo_run path output_dir keep_fs fs conf no_qemu)"
proof -
  have remote: "no_test (with_context c (setup_remote_dir cmdi))" "no_test (with_context c (compile cmdi dir input))"
    if "launched cmdi sv w" for cmdi sv w c dir input
  proof -
    have "command_contract cmdi" using launched_contract [OF that] by (simp add: rig_contract_def)
    note quiets = command_contract.quiet_setup_remote_dir [OF this] command_contract.quiet_compile [OF this]
    show "no_test (with_context c (setup_remote_dir cmdi))" "no_test (with_context c (compile cmdi dir input))"
      by (intro ran.with_context quiet_no_test quiets)+
  qed
  have dir: "no_test (call_unit (CreateDirAll p))" for p by (rule quiet_no_test) (intro emits, simp)
  show ?thesis
    unfolding solo_run_def Let_def
    apply (rule tests_after [OF no_test_tmp], rule tests_after [OF no_test_log(3)], rule tests_launched)
    apply (rule tests_after [OF no_test_duo(2)], rule tests_after, erule remote, rule tests_after [OF no_test_log(1)],
        rule tests_after, erule remote, rule tests_after [OF no_test_log(1)], rule tests_before, rule tests_with_context,
        erule tests_harness)
    apply (intro ran.rules no_test_log dir, erule no_test_save_solo)
    done
qed

text \<open>A \<open>create\<close> function starts no test, and its runner is one of the two that are launched.\<close>

definition creates :: "('a \<Rightarrow> ('z runner_scheme) runner_parts) \<Rightarrow> ('z runner_scheme, 'e, 'a) prog \<Rightarrow> bool" where
  "creates parts_of m \<longleftrightarrow> no_test m \<and>
     (\<forall>s a s'. m s = Some (Ok a, s') \<longrightarrow> (\<exists>w. launched (rp_cmdi (parts_of a)) (rp_supervisor (parts_of a)) w))"

lemma creates_then:
  assumes "no_test m" and "\<And>s a s'. m s = Some (Ok a, s') \<Longrightarrow> creates parts_of (f a)"
  shows "creates parts_of (then_do m f)"
  unfolding creates_def
proof (intro conjI allI impI)
  show "no_test (then_do m f)" using assms by (intro no_test_then) (auto simp: creates_def)
  show "\<exists>w. launched (rp_cmdi (parts_of a)) (rp_supervisor (parts_of a)) w" if "then_do m f s = Some (Ok a, s')" for s a s'
    using that by (rule then_do_OkE) (use assms(2) in \<open>unfold creates_def, blast\<close>)
qed

lemma creates_return: "launched (rp_cmdi (parts_of a)) (rp_supervisor (parts_of a)) w \<Longrightarrow> creates parts_of (return a)"
  by (auto simp: creates_def ran.still)

lemma creates_launched:
  assumes "\<And>cmdi sv w. launched cmdi sv w \<Longrightarrow> creates parts_of (f cmdi sv)"
  shows "creates parts_of (then_do (launch_cmdi_and_supervisor no_qemu conf dir broker) (\<lambda>(cmdi, sv). f cmdi sv))"
  by (rule creates_then [OF no_test_launch]) (auto dest!: launch_yields_launched intro!: assms)

lemma creates_runner_then:
  assumes "launched cmdi sv w"
    and "\<And>parts. launched (rp_cmdi parts) (rp_supervisor parts) w \<Longrightarrow> creates parts_of (f parts)"
  shows "creates parts_of (then_do (with_context c
    (runner_create fst_mount snd_mount crashes_path conf keep_fs cmdi sv dir broker obs)) f)"
  using assms(1)
  by (intro creates_then ran.with_context no_test_runner_create [OF assms(1)] assms(2))
    (auto simp: with_context_Ok dest!: runner_create_ensures)

lemma creates_runner:
  assumes "launched cmdi sv w"
  shows "creates id (with_context c
    (runner_create fst_mount snd_mount crashes_path conf keep_fs cmdi sv dir broker obs))"
  using assms no_test_runner_create [OF assms]
  by (auto simp: creates_def with_context_Ok ran.with_context dest!: runner_create_ensures)

lemma tests_created:
  assumes "creates parts_of m"
    and "\<And>a w. launched (rp_cmdi (parts_of a)) (rp_supervisor (parts_of a)) w \<Longrightarrow> tests lo hi (f a)"
  shows "tests lo hi (then_do m f)"
  using assms unfolding creates_def by (intro tests_after) blast+

lemma creates_duo: "creates id (duo_create conf fst_mount snd_mount dir keep_fs no_qemu)"
  unfolding duo_create_def Let_def
  by (rule creates_then [OF no_test_tmp], rule creates_then [OF no_test_log(3)], rule creates_launched,
      erule creates_runner)

lemma creates_black_box: "creates id (black_box_create_without_broker seed conf fst_mount snd_mount dir no_qemu)"
proof -
  have set: "no_test (modify (\<lambda>s. s\<lparr>bx_rng := g, bx_last_stats := start\<rparr>))" for g :: 'a and start
    by (rule modify_no_test) simp_all
  have create: "creates id (black_box_create seed conf fst_mount snd_mount dir cmdi sv tmp broker)"
    if "launched cmdi sv w" for cmdi sv w tmp broker
    unfolding black_box_create_def
    by (rule creates_runner_then [OF that], rule creates_then [OF no_test_log(3)], rule creates_then [OF no_test_log(3)],
        rule creates_then [OF set], rule creates_return, simp)
  show ?thesis
    unfolding black_box_create_without_broker_def Let_def
    by (rule creates_then [OF no_test_tmp], rule creates_then [OF no_test_log(3)], rule creates_launched, erule create)
qed

lemma no_test_initial_corpus: "no_test (load_initial_corpus walk_dir broker weights corpus_path)"
proof -
  have report: "no_test (handle_info broker msg)" "no_test (handle_warn broker msg)" for msg
    by (rule quiet_no_test, intro emits, simp)+
  have read: "no_test (call_read p)" for p by (rule quiet_no_test) (intro emits, simp)
  have seed: "no_test (load_seed broker weights p)" for p
    unfolding load_seed_def
    by (intro ran.rules no_test_log read, split sum.split, intro conjI allI impI ran.rules report, split sum.split,
        intro conjI allI impI ran.rules report)
  have "no_test (load_seeds broker weights ps)" for ps
  proof (induction ps)
    case Nil
    show ?case unfolding load_seeds.simps by (intro ran.still)
  next
    case (Cons p ps)
    show ?case unfolding load_seeds.simps by (intro ran.rules seed Cons)
  qed
  then show ?thesis
    unfolding load_initial_corpus_def by (cases corpus_path) (auto intro!: ran.rules report)
qed

lemma creates_grey_box:
  "creates fst (grey_box_create_without_broker fuel rng fl seed os_seed walk_dir conf fst_mount snd_mount dir
     corpus_path no_qemu)"
proof -
  have set: "no_test (modify (\<lambda>s. s\<lparr>gx_initial_corpus := initial, gx_next_initial := 0, gx_corpus := corpus,
      gx_scheduler := sched, gx_fst_feedback := fb, gx_snd_feedback := fb', gx_rng := g, gx_last_stats := start\<rparr>))"
    for initial corpus sched fb fb' g start
    by (rule modify_no_test) simp_all
  have dir: "no_test (create_corpus_dir gconf)" for gconf
    unfolding create_corpus_dir_def by (rule quiet_no_test) (intro emits, simp)
  have create: "creates fst (grey_box_create fuel rng fl seed os_seed walk_dir conf fst_mount snd_mount dir
      corpus_path cmdi sv tmp broker)" if "launched cmdi sv w" for cmdi sv w tmp broker
    unfolding grey_box_create_def Let_def
    apply (rule creates_then [OF no_test_log(3)], rule creates_then [OF no_test_initial_corpus], rule creates_then [OF dir])
    apply (rule creates_then [OF ran.still(4)], split prod.split, intro allI impI)
    apply (rule creates_then [OF ran.still(4)], split prod.split, intro allI impI)
    apply (rule creates_runner_then [OF that], rule creates_then [OF no_test_log(3)], rule creates_then [OF set])
    by (rule creates_return) simp
  show ?thesis
    unfolding grey_box_create_without_broker_def Let_def
    by (rule creates_then [OF no_test_tmp], rule creates_then [OF no_test_log(3)], rule creates_launched, erule create)
qed

text \<open>The mode that was asked for starts the tests that were asked for.\<close>

lemma tests_grey_box_run:
  assumes "launched (rp_cmdi parts) (rp_supervisor parts) w"
  shows "tests (unat n) (2 * unat n) (grey_box_run parts gp (Some n))"
  using tests_fuzzer_run(1) [OF tests_grey_box_one [OF assms, of gp] no_test_grey_box_stats, of n]
  by (simp add: grey_box_run_def mult.commute)

lemma tests_black_box_run:
  assumes "launched (rp_cmdi parts) (rp_supervisor parts) w"
  shows "tests (unat n) (2 * unat n) (black_box_run fuel rng parts (Some n))"
  using tests_fuzzer_run(1) [OF tests_black_box_one [OF assms] no_test_black_box(1), of n]
  by (simp add: black_box_run_def mult.commute)

lemma tests_modes:
  "tests (unat n) (2 * unat n) (then_do (grey_box_create_without_broker fuel rng fl seed os_seed walk_dir conf
     fst_mount snd_mount dir corpus_path no_qemu) (\<lambda>(parts, gp). grey_box_run parts gp (Some n)))"
  "tests (unat n) (2 * unat n) (then_do (black_box_create_without_broker seed' conf fst_mount snd_mount dir no_qemu)
     (\<lambda>parts. black_box_run fuel' rng' parts (Some n)))"
  "tests 1 2 (then_do (duo_create conf fst_mount snd_mount dir keep_fs no_qemu) (\<lambda>parts. duo_run parts path (Some 1)))"
  by (rule tests_created [OF creates_grey_box], simp add: split_beta tests_grey_box_run,
      rule tests_created [OF creates_black_box], simp add: tests_black_box_run,
      rule tests_created [OF creates_duo], rule tests_duo_run, simp only: id_apply)

lemma run_in_tests:
  assumes "tests lo hi m" and "\<And>w. calls (new w) = calls w" and "\<And>w. observers_heap (new w) = []"
    and "run_in new m (record_call (Log LogInfo msg) w) = Some (Ok (), w')"
  shows "\<exists>cs. calls w' = calls w @ cs \<and> lo \<le> length (filter is_test_run cs) \<and> length (filter is_test_run cs) \<le> hi"
  using run_in_calls [OF assms(1,4,2,3)] by (auto simp: record_call_def)

lemma run_mode_tests:
  assumes "run_mode cr conf no_qemu mode w = Some (Ok (), w')" and "asked_tests mode = Some (lo, hi)"
  shows "\<exists>cs. calls w' = calls w @ cs \<and> lo \<le> length (filter is_test_run cs) \<and> length (filter is_test_run cs) \<le> hi"
  using assms
proof (cases mode)
  case (GreyboxMode f s count corpus instances)
  then show ?thesis
    using assms by (auto simp: with_filesystems_def then_do_Ok log_message_def not_le split: if_splits
        dest!: run_in_tests [OF tests_modes(1), rotated 2] simp: new_grey_box_def)
next
  case (BlackboxMode f s count instances)
  then show ?thesis
    using assms by (auto simp: with_filesystems_def then_do_Ok log_message_def not_le split: if_splits
        dest!: run_in_tests [OF tests_modes(2), rotated 2] simp: new_black_box_def)
next
  case (SoloSingleMode output_dir path keep_fs fs_name)
  then show ?thesis
    using assms by (auto simp: then_do_Ok log_message_def
        dest!: run_in_tests [OF tests_solo, rotated 2] simp: new_rig_def)
next
  case (DuoSingleMode f s output_dir path keep_fs)
  then show ?thesis
    using assms by (auto simp: with_filesystems_def then_do_Ok log_message_def
        dest!: run_in_tests [OF tests_modes(3), rotated 2] simp: new_runner_def)
qed simp

lemma program_run_tests:
  assumes "program_run cr a w = Some (Ok (), w')" and "asked_tests (pa_mode a) = Some (lo, hi)"
  shows "\<exists>cs. calls w' = calls w @ cs \<and> lo \<le> length (filter is_test_run cs) \<and> length (filter is_test_run cs) \<le> hi"
proof -
  let ?start = "[InitLogger ''log4rs.yml'', Log LogInfo ''init logger'', Log LogInfo ''read configuration'',
    ReadFile (pa_config_path a)]"
  obtain conf w1 where "run_mode cr conf (pa_no_qemu a) (pa_mode a) w1 = Some (Ok (), w')" "calls w1 = calls w @ ?start"
    using assms(1)
    by (auto simp: program_run_def then_do_Ok with_context_Ok call_unit_def call_read_def log_message_def record_call_def)
  moreover have "filter is_test_run ?start = []" by simp
  ultimately show ?thesis using run_mode_tests [OF _ assms(2)] by fastforce
qed

end
