(* ===== verification/Corpus_Correct.thy ===== *)
theory Corpus_Correct
  imports Greybox_Correct
begin

text \<open>
  The inputs of the coverage-guided fuzzer over a whole run: when the seeds it starts from can be
  replayed, every workload it ever picks and every workload of its corpus can. The invariant adds what
  mutations need, among it that a rank orders the links, so that no replay overflows the stack.
\<close>

context state_preorder
begin

lemma repeat_forever:
  assumes "steps R m"
  shows "steps R (repeat_forever m)"
proof -
  have "R s (snd y)" if "repeat_forever m s = Some y" for s y
    using that assms
  proof (induction m s y rule: repeat_forever.raw_induct [rotated, consumes 1])
    case (1 rec m s y)
    obtain r s' where y: "y = (r, s')" by (cases y)
    have "then_do m (\<lambda>_ s'. rec m s') s = Some (r, s')" using 1 y by simp
    then show ?case
    proof (cases rule: then_do_cases)
      case (1 a s1)
      then have "R s1 s'" using "1.IH" [of m s1 "(r, s')"] "1.prems" by simp
      then show ?thesis using stepsD [OF "1.prems" 1(1)] trans y by simp
    qed (use stepsD [OF "1.prems"] y in auto)
  qed
  then show ?thesis unfolding steps_def by fastforce
qed

end

subsection \<open>Inputs that can be mutated for ever\<close>

definition good_input :: "workload \<Rightarrow> bool" where
  "good_input w \<longleftrightarrow>
     runnable w \<and> wf_ops (ops w) \<and> ordered (ops w) \<and> small_writes (ops w) \<and> length (ops w) \<le> 65535"

lemma good_input_empty: "good_input workload_new"
proof -
  have "replay workload_new fs_new = (Ok (), fs_new)" "recording fs_new = workload_new"
    by (simp_all add: replay_def workload_new_def fs_new_def)
  then show ?thesis by (auto simp: good_input_def runnable_def workload_new_def ordered_def)
qed


lemma good_input_mutated:
  assumes "good_rng rng" and "usable_weights (mt_operation_weights mt)" and "good_input w"
    and "mutate fuel rng mt w g = Some (r, g')"
  shows "r \<noteq> Crash StackOverflow" and "r = Ok w' \<Longrightarrow> good_input w'"
proof -
  have "written (ops w) \<le> length (ops w) * max_write" "length (ops w) \<le> 65535"
    using assms(3) small_writes_written by (auto simp: good_input_def)
  then have "written (ops w) \<le> 65535 * max_write" by (meson le_trans mult_le_mono1)
  then have room: "written (ops w) + 65535 * max_write < 2 ^ 64" by (simp add: max_write_def)
  have w: "wf_ops (ops w)" "ordered (ops w)" using assms(3) by (simp_all add: good_input_def)
  note result = mutate_result [OF assms(1,2) w(1) room assms(4)]
  show "r \<noteq> Crash StackOverflow" using result(2) w(2) .
  have "unat (mt_max_length mt) < 2 ^ 16" using unsigned_less [of "mt_max_length mt"] by simp
  then show "good_input w'" if "r = Ok w'" using result(1) [OF that] assms(3) by (auto simp: good_input_def)
qed

subsection \<open>The corpus over a run\<close>

definition fuzzer_inputs :: "('f, 'g, 'y) grey_box_scheme \<Rightarrow> workload set" where
  "fuzzer_inputs s = set (gx_initial_corpus s) \<union> sd_workload ` set (gx_corpus s)"

definition good_inputs :: "('f, 'g, 'y) grey_box_scheme \<Rightarrow> bool" where
  "good_inputs s \<longleftrightarrow> dash_paths_ok s \<and> (\<forall>w \<in> fuzzer_inputs s. good_input w)"

definition keeps_inputs :: "('f, 'g, 'y) grey_box_scheme \<Rightarrow> ('f, 'g, 'y) grey_box_scheme \<Rightarrow> bool" where
  "keeps_inputs s s' \<longleftrightarrow> (good_inputs s \<longrightarrow> good_inputs s')"

interpretation keeps_inputs: state_preorder keeps_inputs
  by unfold_locales (simp_all add: keeps_inputs_def)

lemma rig_runs_keep: "rig_runs n k s s' \<Longrightarrow> keeps_inputs s s'"
  unfolding rig_runs_def keeps_inputs_def good_inputs_def fuzzer_inputs_def by auto

lemma appends_keep: "steps (appends A) m \<Longrightarrow> steps keeps_inputs m"
  unfolding steps_def appends_def keeps_inputs_def good_inputs_def fuzzer_inputs_def dash_paths_ok_def by fastforce

lemma rig_quiet_keep: "rig_quiet m \<Longrightarrow> steps keeps_inputs m"
  by (auto simp: steps_def intro: rig_runs_keep)

lemma update_keeps:
  assumes "\<And>s. observers_heap (f s) = observers_heap s" and "\<And>s. fuzzer_inputs (f s) = fuzzer_inputs s"
  shows "steps keeps_inputs (modify f)"
  using assms by (simp add: steps_def keeps_inputs_def good_inputs_def dash_paths_ok_def)

lemma run_harness_keeps:
  assumes "launched (rp_cmdi parts) (rp_supervisor parts) w"
  shows "steps keeps_inputs (run_harness parts binary_path)"
proof -
  have c: "rig_contract (rp_cmdi parts) (rp_supervisor parts) w" by (rule launched_contract [OF assms])
  then have sv: "supervisor_contract (rp_supervisor parts) w" by (simp add: rig_contract_def)
  have harness: "steps keeps_inputs (harness_run h (rp_cmdi parts) (rp_supervisor parts) binary_path k)" for h k
    unfolding steps_def using rig_contract.harness_runs_once [OF c] by (blast intro: rig_runs_keep)
  have load: "steps keeps_inputs (load_snapshot parts)"
    unfolding load_snapshot_def
    by (intro keeps_inputs.with_context appends_keep [OF supervisor_contract.load_snapshot_runs_no_test [OF sv]])
  show ?thesis
    unfolding run_harness_def run_fst_def run_snd_def
    by (intro keeps_inputs.rules keeps_inputs.outcome_cases harness load rig_quiet_keep [OF rig_quiet_runner_diff])
qed

lemma send_stats_keeps: "steps keeps_inputs (grey_box_send_stats parts lazy)"
  unfolding grey_box_send_stats_def
  by (intro keeps_inputs.rules any_call [THEN appends_keep] update_keeps) (simp_all add: fuzzer_inputs_def)

lemma count_crash_keeps: "steps keeps_inputs count_crash"
  unfolding count_crash_def by (auto simp: steps_def keeps_inputs_def good_inputs_def fuzzer_inputs_def dash_paths_ok_def)

lemma reports_keep:
  assumes "launched (rp_cmdi parts) (rp_supervisor parts) w"
  shows "steps keeps_inputs (report_crash parts (grey_box_send_stats parts) input why)"
    and "steps keeps_inputs (do_objective parts (grey_box_send_stats parts) input binary_path diff)"
    and "steps keeps_inputs (detect_errors parts input binary_path diff)"
    and "steps keeps_inputs (compile_test parts input)"
proof -
  note reports = quiet_reports [OF assms, THEN appends_keep]
  show "steps keeps_inputs (report_crash parts (grey_box_send_stats parts) input why)"
    unfolding report_crash_def asks_def
    by (intro keeps_inputs.rules count_crash_keeps send_stats_keeps reports)
  show "steps keeps_inputs (do_objective parts (grey_box_send_stats parts) input binary_path diff)"
    unfolding do_objective_def asks_def
    by (intro keeps_inputs.rules count_crash_keeps send_stats_keeps reports)
  show "steps keeps_inputs (detect_errors parts input binary_path diff)"
    unfolding detect_errors_def asks_def log_message_def Let_def
    by (auto simp: steps_def [of keeps_inputs "modify f" for f] record_call_def keeps_inputs_def good_inputs_def
        fuzzer_inputs_def dash_paths_ok_def intro!: keeps_inputs.rules reports)
  show "steps keeps_inputs (compile_test parts input)" by (rule reports(3))
qed

lemma opinions_keep: "steps keeps_inputs (fst_opinion out)" "steps keeps_inputs (snd_opinion out)"
proof -
  have prog: "steps keeps_inputs (feedback_opinion_prog fb out)" for fb :: coverage_feedback
  proof -
    have "steps keeps_inputs (case opinion_of nc m of (op, m') \<Rightarrow> return (op, g m'))" for nc m g
      by (simp add: keeps_inputs.still split: prod.splits)
    then show ?thesis
      by (cases fb) (auto simp: parse_kcov_def asks_def Let_def intro!: keeps_inputs.rules appends_keep [OF reads_append(1)]
          appends_keep [OF reads_append(2)])
  qed
  have "steps keeps_inputs (case p of (op, fb') \<Rightarrow> then_do (modify (\<lambda>s. s\<lparr>gx_fst_feedback := fb'\<rparr>)) (\<lambda>_. return op))"
      "steps keeps_inputs (case p of (op, fb') \<Rightarrow> then_do (modify (\<lambda>s. s\<lparr>gx_snd_feedback := fb'\<rparr>)) (\<lambda>_. return op))" for p
    by (cases p; simp; intro keeps_inputs.rules update_keeps; simp add: fuzzer_inputs_def)+
  note updates = this
  show "steps keeps_inputs (fst_opinion out)" "steps keeps_inputs (snd_opinion out)"
    unfolding fst_opinion_def snd_opinion_def by (intro keeps_inputs.rules prog updates)+
qed

lemma consider_input_keeps:
  assumes "launched (rp_cmdi parts) (rp_supervisor parts) w" and "good_input input"
  shows "steps keeps_inputs (consider_input parts gp input binary_path diff)"
proof -
  have "steps keeps_inputs (add_to_corpus input fst_coverage snd_coverage)" for fst_coverage snd_coverage
    using assms(2)
    by (auto simp: add_to_corpus_def steps_def keeps_inputs_def good_inputs_def fuzzer_inputs_def dash_paths_ok_def
        seed_new_def)
  then show ?thesis
    unfolding consider_input_def
    by (intro keeps_inputs.rules opinions_keep send_stats_keeps appends_keep [OF quiet_save_input [OF assms(1)]])
qed

text \<open>The next input is good, and picking it does not overflow.\<close>

lemma pick_input_good:
  assumes "good_rng (gp_rng gp)" and "usable_weights (mt_operation_weights (gp_mutator gp))"
    and "good_inputs s" and "pick_input gp s = Some (r, s')"
  shows "good_inputs s' \<and> r \<noteq> Crash StackOverflow \<and> (\<forall>w. r = Ok w \<longrightarrow> good_input w)"
proof (cases "gx_next_initial s < length (gx_initial_corpus s)")
  case True
  then have "gx_initial_corpus s ! gx_next_initial s \<in> fuzzer_inputs s" by (simp add: fuzzer_inputs_def)
  then show ?thesis using assms(3,4) pick_input_initial [OF True]
    by (auto simp: good_inputs_def fuzzer_inputs_def dash_paths_ok_def)
next
  case False
  then have run: "then_do (choose_seed (gp_float_ops gp)) (\<lambda>next. mutate_seed gp next) s = Some (r, s')"
    using assms(4) by (simp add: pick_input_def)
  obtain r1 sched corpus where choice: "scheduler_choose (gp_float_ops gp) (fb_map (gx_fst_feedback s))
      (fb_map (gx_snd_feedback s)) (gx_scheduler s) (gx_corpus s) = (r1, sched, corpus)"
    by (metis prod_cases3)
  let ?s1 = "s\<lparr>gx_scheduler := sched, gx_corpus := corpus\<rparr>"
  have chosen: "choose_seed (gp_float_ops gp) s = Some (r1, ?s1)" by (simp add: choose_seed_def choice)
  have "sd_workload ` set corpus = sd_workload ` set (gx_corpus s)"
    using schedulers.workloads_kept [OF choice] by (metis set_map)
  then have s1: "good_inputs ?s1" using assms(3) by (simp add: good_inputs_def fuzzer_inputs_def dash_paths_ok_def)
  have r1: "r1 \<noteq> Crash StackOverflow"
    using choice by (cases "gx_scheduler s")
      (auto simp: queue_choose_def fast_choose_def Let_def split: prod.splits option.splits sum.splits)
  show ?thesis
  proof (cases r1)
    case (Ok w)
    then have w: "good_input w"
      using schedulers.chosen_in_corpus [OF choice [unfolded Ok]] assms(3) by (auto simp: good_inputs_def fuzzer_inputs_def)
    have "mutate_seed gp w ?s1 = Some (r, s')" using run chosen Ok by (simp add: then_do_def)
    then obtain r2 g where m: "mutate (gp_fuel gp) (gp_rng gp) (gp_mutator gp) w (gx_rng s) = Some (r2, g)"
      "r = (case r2 of Ok w \<Rightarrow> Ok w | Err _ \<Rightarrow> Crash Panicked | Crash c \<Rightarrow> Crash c)" "s' = ?s1\<lparr>gx_rng := g\<rparr>"
      by (auto simp: mutate_seed_def)
    have "good_inputs s'" using s1 m(3) by (simp add: good_inputs_def fuzzer_inputs_def dash_paths_ok_def)
    then show ?thesis using good_input_mutated [OF assms(1,2) w m(1)] m(2) by (cases r2) auto
  qed (use run chosen s1 r1 in \<open>auto simp: then_do_def\<close>)
qed

text \<open>When the first step establishes what the rest relies on.\<close>

lemma then_do_keeps:
  assumes "\<And>s r s'. good_inputs s \<Longrightarrow> m s = Some (r, s') \<Longrightarrow> good_inputs s' \<and> (\<forall>a. r = Ok a \<longrightarrow> P a)"
    and "\<And>a. P a \<Longrightarrow> steps keeps_inputs (f a)"
  shows "steps keeps_inputs (then_do m f)"
proof (unfold steps_def keeps_inputs_def, intro allI impI)
  fix s r s'
  assume "then_do m f s = Some (r, s')" and s: "good_inputs s"
  then show "good_inputs s'"
  proof (cases rule: then_do_cases)
    case (1 a s1)
    then show ?thesis using assms(1) [OF s 1(1)] stepsD [OF assms(2) 1(2)] by (simp add: keeps_inputs_def)
  qed (use assms(1) [OF s] in auto)
qed

lemma fuzz_one_keeps:
  assumes "good_rng (gp_rng gp)" and "usable_weights (mt_operation_weights (gp_mutator gp))"
    and l: "launched (rp_cmdi parts) (rp_supervisor parts) w"
  shows "steps keeps_inputs (grey_box_fuzz_one parts gp)"
proof -
  have found: "steps keeps_inputs (if found_errors then return ()
         else then_do (do_objective parts (grey_box_send_stats parts) input binary_path diff) (\<lambda>found_diff.
           if found_diff then return () else consider_input parts gp input binary_path diff))"
    if "good_input input" for found_errors input binary_path diff
    by (rule keeps_inputs.branch, rule keeps_inputs.still, rule keeps_inputs.then_do, rule reports_keep [OF l],
        rule keeps_inputs.branch, rule keeps_inputs.still, rule consider_input_keeps [OF l that])
  show ?thesis
    unfolding grey_box_fuzz_one_def
  proof (rule then_do_keeps [where P = good_input])
    show "good_inputs s' \<and> (\<forall>w. r = Ok w \<longrightarrow> good_input w)"
      if "good_inputs s" "pick_input gp s = Some (r, s')" for s r s'
      using pick_input_good [OF assms(1,2) that] by blast
  qed (intro keeps_inputs.then_do diff_outcome_cases found reports_keep [OF l] run_harness_keeps [OF l])
qed

text \<open>However the run ends, the inputs at its end are good.\<close>

lemma grey_box_run_keeps:
  assumes "good_rng (gp_rng gp)" and "usable_weights (mt_operation_weights (gp_mutator gp))"
    and "launched (rp_cmdi parts) (rp_supervisor parts) w"
  shows "steps keeps_inputs (grey_box_run parts gp test_count)"
proof -
  have "steps keeps_inputs count_execution"
    unfolding count_execution_def by (rule update_keeps) (simp_all add: fuzzer_inputs_def)
  then have "steps keeps_inputs (runs (grey_box_fuzz_one parts gp) (grey_box_send_stats parts))"
    unfolding runs_def by (intro keeps_inputs.then_do fuzz_one_keeps [OF assms] send_stats_keeps)
  then show ?thesis
    unfolding grey_box_run_def fuzzer_run_def
    by (intro keeps_inputs.option keeps_inputs.repeat_forever keeps_inputs.for_each)
qed

text \<open>A fuzzer created without a directory of seeds starts from the empty workload.\<close>

lemma created_inputs:
  assumes "grey_box_create fuel rng fl seed os_seed walk_dir conf fst_mount snd_mount crashes_path None cmdi sv dir broker s
      = Some (Ok (parts, gp), s')"
  shows "fuzzer_inputs s' = {workload_new}" and "gp_rng gp = rng"
    and "mt_operation_weights (gp_mutator gp) = cf_operation_weights conf"
  using assms
  by (auto simp: grey_box_create_def load_initial_corpus_def fuzzer_inputs_def seed_new_def mutator_new_def Let_def
      then_do_Ok)

end
