(* ===== verification/Corpus_Growth.thy ===== *)
theory Corpus_Growth
  imports Corpus_Correct
begin

text \<open>
  One iteration of the coverage-guided fuzzer against the coverage files it reads: which addresses they name,
  how they are counted, and when the input enters the corpus. And the states that the iterations of a run
  reach, whether the run ends or not.
\<close>

subsection \<open>The addresses in the coverage file of an outcome\<close>

text \<open>The file is read in the state with the calls \<open>cs\<close>.\<close>

definition coverage_of ::
    "environment \<Rightarrow> call list \<Rightarrow> coverage_feedback \<Rightarrow> completed \<Rightarrow> input_coverage option" where
  "coverage_of e cs fb out =
     (case fb of
        DummyFeedback _ \<Rightarrow> Some []
      | KCovFeedback _ \<Rightarrow>
          (case read_text e cs (join (co_dir out) KCOV_FILENAME) of
             Inl _ \<Rightarrow> None
           | Inr content \<Rightarrow> (case kcov_parse content of Ok cov \<Rightarrow> Some (map fst cov) | _ \<Rightarrow> None))
      | LCovFeedback _ \<Rightarrow>
          (case read_text e cs (join (co_dir out) LCOV_INFO_FILE_NAME) of
             Inl _ \<Rightarrow> None
           | Inr content \<Rightarrow> Some (map fst (lcov_map (name_hash e) (lcov_parse content)))))"

definition coverage_reads :: "coverage_feedback \<Rightarrow> completed \<Rightarrow> call list" where
  "coverage_reads fb out =
     (case fb of
        DummyFeedback _ \<Rightarrow> []
      | KCovFeedback _ \<Rightarrow> [ReadFile (join (co_dir out) KCOV_FILENAME)]
      | LCovFeedback _ \<Rightarrow> [ReadFile (join (co_dir out) LCOV_INFO_FILE_NAME)])"

lemma call_read_Ok:
  "call_read path s = Some (Ok content, s') \<longleftrightarrow>
     read_text (env s) (calls s) path = Inr content \<and> s' = s\<lparr>calls := calls s @ [ReadFile path]\<rparr>"
  by (cases "read_text (env s) (calls s) path") (auto simp: call_read_def record_call_def)

lemma opinion_of_coverage: "opinion_of cov m = (op, m') \<Longrightarrow> opinion_coverage op = map fst cov"
  by (auto simp: opinion_of_def split: prod.splits if_splits)

lemma feedback_prog_reads:
  assumes run: "feedback_opinion_prog fb out s = Some (Ok (op, fb'), s')"
  shows "coverage_of (env s) (calls s) fb out = Some (opinion_coverage op)"
    and "s' = s\<lparr>calls := calls s @ coverage_reads fb out\<rparr>"
proof -
  have "coverage_of (env s) (calls s) fb out = Some (opinion_coverage op)
      \<and> s' = s\<lparr>calls := calls s @ coverage_reads fb out\<rparr>"
  proof (cases fb)
    case (DummyFeedback m)
    then show ?thesis using run by (auto simp: coverage_of_def coverage_reads_def)
  next
    case (KCovFeedback m)
    obtain nc s1 where 1: "parse_kcov (co_dir out) s = Some (Ok nc, s1)"
      using run [unfolded KCovFeedback feedback_opinion_prog.simps] by (rule then_do_OkE)
    obtain op1 m1 where op: "opinion_of nc m = (op1, m1)" by (cases "opinion_of nc m")
    have "op1 = op" "s' = s1" using run 1 op by (simp_all add: KCovFeedback)
    then show ?thesis using 1 opinion_of_coverage [OF op] KCovFeedback
      by (auto simp: parse_kcov_def Let_def Ok_runs call_read_Ok coverage_of_def coverage_reads_def)
  next
    case (LCovFeedback m)
    obtain content s1 where 1: "read_lcov out s = Some (Ok content, s1)"
      using run [unfolded LCovFeedback feedback_opinion_prog.simps] by (rule then_do_OkE)
    have e: "env s1 = env s" using 1 by (auto simp: read_lcov_def Ok_runs call_read_Ok)
    let ?cov = "lcov_map (name_hash (env s)) (lcov_parse content)"
    obtain op1 m1 where op: "opinion_of ?cov m = (op1, m1)" by (cases "opinion_of ?cov m")
    have "op1 = op" "s' = s1" using run 1 op by (simp_all add: LCovFeedback asks_def e)
    then show ?thesis using 1 opinion_of_coverage [OF op] LCovFeedback
      by (auto simp: read_lcov_def Ok_runs call_read_Ok coverage_of_def coverage_reads_def)
  qed
  then show "coverage_of (env s) (calls s) fb out = Some (opinion_coverage op)"
    "s' = s\<lparr>calls := calls s @ coverage_reads fb out\<rparr>" by blast+
qed

lemma fst_opinion_reads:
  assumes "fst_opinion out s = Some (Ok op, s')"
  shows "coverage_of (env s) (calls s) (gx_fst_feedback s) out = Some (opinion_coverage op)"
    and "calls s' = calls s @ coverage_reads (gx_fst_feedback s) out" and "env s' = env s"
proof -
  obtain fb' s1 where 1: "feedback_opinion_prog (gx_fst_feedback s) out s = Some (Ok (op, fb'), s1)"
      and 2: "s' = s1\<lparr>gx_fst_feedback := fb'\<rparr>"
    using assms unfolding fst_opinion_def then_do_Ok with_context_Ok by auto
  show "coverage_of (env s) (calls s) (gx_fst_feedback s) out = Some (opinion_coverage op)"
    "calls s' = calls s @ coverage_reads (gx_fst_feedback s) out" "env s' = env s"
    using feedback_prog_reads [OF 1] 2 by simp_all
qed

lemma snd_opinion_reads:
  assumes "snd_opinion out s = Some (Ok op, s')"
  shows "coverage_of (env s) (calls s) (gx_snd_feedback s) out = Some (opinion_coverage op)"
proof -
  obtain fb' s1 where "feedback_opinion_prog (gx_snd_feedback s) out s = Some (Ok (op, fb'), s1)"
    using assms unfolding snd_opinion_def then_do_Ok with_context_Ok by auto
  then show ?thesis by (rule feedback_prog_reads)
qed

text \<open>What becomes of a completed run without a finding, by the coverage of both outcomes.\<close>

definition considered ::
    "('f, 'g, 'y) grey_box_scheme \<Rightarrow> workload \<Rightarrow> input_coverage \<Rightarrow> input_coverage \<Rightarrow> ('f, 'g, 'y) grey_box_scheme \<Rightarrow> bool" where
  "considered s input c1 c2 s' \<longleftrightarrow>
     (\<forall>a. hits (fb_map (gx_fst_feedback s')) a = hits (fb_map (gx_fst_feedback s)) a + of_bool (a \<in> set c1))
     \<and> (\<forall>a. hits (fb_map (gx_snd_feedback s')) a = hits (fb_map (gx_snd_feedback s)) a + of_bool (a \<in> set c2))
     \<and> gx_corpus s' = gx_corpus s @
         (if (\<exists>a \<in> set c1. hits (fb_map (gx_fst_feedback s)) a = 0)
             \<or> (\<exists>a \<in> set c2. hits (fb_map (gx_snd_feedback s)) a = 0)
          then [seed_new input c1 c2] else [])"

lemma consider_input_reads:
  assumes l: "launched (rp_cmdi parts) (rp_supervisor parts) w"
    and run: "consider_input parts gp input binary_path diff s = Some (Ok (), s')"
  shows "\<exists>c1 c2. coverage_of (env s) (calls s) (gx_fst_feedback s) (dc_fst_outcome diff) = Some c1
    \<and> coverage_of (env s) (calls s @ coverage_reads (gx_fst_feedback s) (dc_fst_outcome diff))
         (gx_snd_feedback s) (dc_snd_outcome diff) = Some c2
    \<and> considered s input c1 c2 s'"
proof -
  define rest where "rest op1 op2 = (if is_interesting op1 \<or> is_interesting op2 then
       then_do (add_to_corpus input (opinion_coverage op1) (opinion_coverage op2)) (\<lambda>_.
       then_do (grey_box_send_stats parts False) (\<lambda>_.
       do_when (gp_corpus_path gp \<noteq> None)
         (with_context ''failed to save input''
           (save_input parts (gp_corpus_path gp) input binary_path (dc_fst_outcome diff) (dc_snd_outcome diff)))))
     else return ())" for op1 op2
  have run0: "then_do (fst_opinion (dc_fst_outcome diff)) (\<lambda>op1. then_do (snd_opinion (dc_snd_outcome diff)) (rest op1)) s
      = Some (Ok (), s')"
    using run unfolding consider_input_def rest_def .
  obtain op1 s1 where 1: "fst_opinion (dc_fst_outcome diff) s = Some (Ok op1, s1)"
      and run1: "then_do (snd_opinion (dc_snd_outcome diff)) (\<lambda>op2. rest op1 op2) s1 = Some (Ok (), s')"
    using run0 by (rule then_do_OkE)
  obtain op2 s2 where 2: "snd_opinion (dc_snd_outcome diff) s1 = Some (Ok op2, s2)"
      and 3: "rest op1 op2 s2 = Some (Ok (), s')"
    using run1 by (rule then_do_OkE)
  note fst = fst_opinion_Ok [OF 1] and snd = snd_opinion_Ok [OF 2]
  have "corpus_view s' = (gx_corpus s2 @ (if is_interesting op1 \<or> is_interesting op2
         then [seed_new input (opinion_coverage op1) (opinion_coverage op2)] else []), gx_fst_feedback s2, gx_snd_feedback s2)"
  proof (cases "is_interesting op1 \<or> is_interesting op2")
    case True
    define s3 where "s3 = s2\<lparr>gx_corpus := gx_corpus s2 @ [seed_new input (opinion_coverage op1) (opinion_coverage op2)]\<rparr>"
    have quiet: "steps (keeps corpus_view) (then_do (grey_box_send_stats parts False) (\<lambda>_.
       do_when (gp_corpus_path gp \<noteq> None)
         (with_context ''failed to save input''
           (save_input parts (gp_corpus_path gp) input binary_path (dc_fst_outcome diff) (dc_snd_outcome diff)))))"
      by (intro keeps.then_do keeps.do_when keeps.with_context send_stats_keeps_corpus
          corpus_view_appends [OF quiet_save_input [OF l]])
    have "keeps corpus_view s3 s'"
      by (rule stepsD [OF quiet]) (use 3 True in \<open>simp add: rest_def add_to_corpus_def s3_def\<close>)
    then show ?thesis using True by (simp add: keeps_def corpus_view_def s3_def)
  next
    case False
    then show ?thesis using 3 by (simp add: rest_def corpus_view_def)
  qed
  then have "considered s input (opinion_coverage op1) (opinion_coverage op2) s'"
    using fst snd by (simp add: considered_def counts_opinion_def corpus_view_def)
  moreover have "coverage_of (env s) (calls s) (gx_fst_feedback s) (dc_fst_outcome diff) = Some (opinion_coverage op1)"
    "coverage_of (env s) (calls s @ coverage_reads (gx_fst_feedback s) (dc_fst_outcome diff))
       (gx_snd_feedback s) (dc_snd_outcome diff) = Some (opinion_coverage op2)"
    using fst_opinion_reads [OF 1] snd_opinion_reads [OF 2] fst by simp_all
  ultimately show ?thesis by blast
qed

subsection \<open>The other parts of an iteration\<close>

lemma count_crash_keeps_corpus: "steps (keeps corpus_view) count_crash"
  by (simp add: count_crash_def steps_def keeps_def corpus_view_def)

lemma reports_keep_corpus:
  assumes "launched (rp_cmdi parts) (rp_supervisor parts) w"
  shows "steps (keeps corpus_view) (report_crash parts (grey_box_send_stats parts) input why)"
    and "steps (keeps corpus_view) (do_objective parts (grey_box_send_stats parts) input binary_path diff)"
    and "steps (keeps corpus_view) (detect_errors parts input binary_path diff)"
proof -
  note reports = quiet_reports [OF assms, THEN corpus_view_appends]
  show "steps (keeps corpus_view) (report_crash parts (grey_box_send_stats parts) input why)"
    unfolding report_crash_def asks_def
    by (intro keeps.rules count_crash_keeps_corpus send_stats_keeps_corpus reports)
  show "steps (keeps corpus_view) (do_objective parts (grey_box_send_stats parts) input binary_path diff)"
    unfolding do_objective_def asks_def
    by (intro keeps.rules count_crash_keeps_corpus send_stats_keeps_corpus reports)
  have log: "steps (keeps corpus_view) (log_message l msg)" for l msg
    by (simp add: log_message_def steps_def keeps_def corpus_view_def record_call_def)
  show "steps (keeps corpus_view) (detect_errors parts input binary_path diff)"
    unfolding detect_errors_def asks_def Let_def by (intro keeps.rules log reports)
qed

text \<open>Picking counts a choice and may draw from the random source.\<close>

lemma pick_keeps:
  assumes "pick_input gp s = Some (r, s0)"
  shows "map sd_workload (gx_corpus s0) = map sd_workload (gx_corpus s)
    \<and> gx_fst_feedback s0 = gx_fst_feedback s \<and> gx_snd_feedback s0 = gx_snd_feedback s"
proof (cases "gx_next_initial s < length (gx_initial_corpus s)")
  case True
  then show ?thesis using assms pick_input_initial [OF True] by auto
next
  case False
  obtain r1 sched corpus where choice: "scheduler_choose (gp_float_ops gp) (fb_map (gx_fst_feedback s))
      (fb_map (gx_snd_feedback s)) (gx_scheduler s) (gx_corpus s) = (r1, sched, corpus)"
    by (metis prod_cases3)
  have "then_do (choose_seed (gp_float_ops gp)) (\<lambda>next. mutate_seed gp next) s = Some (r, s0)"
    using assms False by (simp add: pick_input_def)
  then have "\<exists>g. s0 = s\<lparr>gx_scheduler := sched, gx_corpus := corpus, gx_rng := g\<rparr>
      \<or> s0 = s\<lparr>gx_scheduler := sched, gx_corpus := corpus\<rparr>"
    by (cases rule: then_do_cases) (auto simp: choose_seed_def choice mutate_seed_def)
  then show ?thesis using schedulers.workloads_kept [OF choice] by auto
qed

lemma fuzz_one_corpus:
  assumes l: "launched (rp_cmdi parts) (rp_supervisor parts) w" and ok: "dash_paths_ok s"
    and pick: "pick_input gp s = Some (Ok input, s0)"
    and comp: "compile_test parts input s0 = Some (Ok binary_path, s1)"
    and ran: "run_harness parts binary_path s1 = Some (Ok out, s2)"
    and run: "grey_box_fuzz_one parts gp s = Some (Ok (), s')"
  shows "corpus_view s2 = corpus_view s0"
    and "\<nexists>diff. out = DiffCompleted diff \<and> \<not> any_interesting diff
           \<and> (trace_errors (dc_fst_trace diff) = [] \<or> trace_errors (dc_snd_trace diff) = []) \<Longrightarrow>
         corpus_view s' = corpus_view s0"
    and "out = DiffCompleted diff \<Longrightarrow> \<not> any_interesting diff \<Longrightarrow>
         trace_errors (dc_fst_trace diff) = [] \<or> trace_errors (dc_snd_trace diff) = [] \<Longrightarrow>
         consider_input parts gp input binary_path diff s2 = Some (Ok (), s')"
proof -
  have "corpus_view s1 = corpus_view s0" "dash_paths_ok s1"
  proof -
    show "corpus_view s1 = corpus_view s0"
      using stepsD [OF corpus_view_appends [OF quiet_reports(3) [OF l]] comp] by (simp add: keeps_def)
    have "dash_paths_ok s0" using stepsD [OF counted_pick pick] ok by (simp add: counted_def)
    then show "dash_paths_ok s1"
      using stepsD [OF appends_counted [OF quiet_reports(3) [OF l]] comp] by (simp add: counted_def)
  qed
  then show s2: "corpus_view s2 = corpus_view s0"
    using run_harness_counts [OF l ran] by (auto simp: rig_runs_def corpus_view_def)
  have rest: "(case out of
       DiffCompleted diff \<Rightarrow>
         then_do (detect_errors parts input binary_path diff) (\<lambda>found_errors.
         if found_errors then return ()
         else then_do (do_objective parts (grey_box_send_stats parts) input binary_path diff) (\<lambda>found_diff.
           if found_diff then return () else consider_input parts gp input binary_path diff))
     | FirstPanicked fs_name \<Rightarrow> report_crash parts (grey_box_send_stats parts) input (panic_reason fs_name)
     | SecondPanicked fs_name \<Rightarrow> report_crash parts (grey_box_send_stats parts) input (panic_reason fs_name)
     | FirstTimedOut fs_name timeout \<Rightarrow>
         report_crash parts (grey_box_send_stats parts) input (timeout_reason fs_name timeout)
     | SecondTimedOut fs_name timeout \<Rightarrow>
         report_crash parts (grey_box_send_stats parts) input (timeout_reason fs_name timeout)) s2 = Some (Ok (), s')"
    using run pick comp ran by (simp add: grey_box_fuzz_one_def)
  note keep = reports_keep_corpus [OF l, THEN stepsD, unfolded keeps_def]
  show "consider_input parts gp input binary_path diff s2 = Some (Ok (), s')"
    if "out = DiffCompleted diff" "\<not> any_interesting diff"
      "trace_errors (dc_fst_trace diff) = [] \<or> trace_errors (dc_snd_trace diff) = []" for diff
    using rest that by (auto simp: detect_errors_def do_objective_def Let_def)
  assume none: "\<nexists>diff. out = DiffCompleted diff \<and> \<not> any_interesting diff
           \<and> (trace_errors (dc_fst_trace diff) = [] \<or> trace_errors (dc_snd_trace diff) = [])"
  have "corpus_view s' = corpus_view s2"
  proof (cases out)
    case (DiffCompleted diff)
    note rest1 = rest [unfolded DiffCompleted diff_outcome.case]
    obtain found s3 where 1: "detect_errors parts input binary_path diff s2 = Some (Ok found, s3)"
        and 2: "(if found then return ()
         else then_do (do_objective parts (grey_box_send_stats parts) input binary_path diff) (\<lambda>found_diff.
           if found_diff then return () else consider_input parts gp input binary_path diff)) s3 = Some (Ok (), s')"
      using rest1 by (rule then_do_OkE)
    show ?thesis
    proof (cases found)
      case True
      then show ?thesis using 2 keep(3) [OF 1] by simp
    next
      case False
      then have "\<not> (trace_errors (dc_fst_trace diff) \<noteq> [] \<and> trace_errors (dc_snd_trace diff) \<noteq> [])"
        using 1 by (auto simp: detect_errors_def Let_def Ok_runs split: if_splits)
      then have "any_interesting diff" using none DiffCompleted by blast
      moreover obtain d s4 where 3: "do_objective parts (grey_box_send_stats parts) input binary_path diff s3 = Some (Ok d, s4)"
          and 4: "(if d then return () else consider_input parts gp input binary_path diff) s4 = Some (Ok (), s')"
        using 2 False by (auto elim: then_do_OkE)
      ultimately have "d" by (auto simp: do_objective_def Ok_runs)
      then show ?thesis using 4 keep(3) [OF 1] keep(2) [OF 3] by simp
    qed
  qed (use rest in \<open>auto dest!: keep(1)\<close>)
  then show "corpus_view s' = corpus_view s0" using s2 by simp
qed

subsection \<open>The iterations of a run\<close>

text \<open>The states between the iterations of a run, which need not end.\<close>

inductive grey_box_reach ::
    "(('f, 'g, 'y) grey_box_scheme) runner_parts \<Rightarrow> ('f, 'g) grey_box_parts \<Rightarrow>
     ('f, 'g, 'y) grey_box_scheme \<Rightarrow> ('f, 'g, 'y) grey_box_scheme \<Rightarrow> bool" for parts gp s where
  here: "grey_box_reach parts gp s s"
| iterate: "\<lbrakk>grey_box_reach parts gp s s1;
     runs (grey_box_fuzz_one parts gp) (grey_box_send_stats parts) s1 = Some (r, s2)\<rbrakk> \<Longrightarrow> grey_box_reach parts gp s s2"

lemma runs_keep:
  assumes "good_rng (gp_rng gp)" and "usable_weights (mt_operation_weights (gp_mutator gp))"
    and "launched (rp_cmdi parts) (rp_supervisor parts) w"
  shows "steps keeps_inputs (runs (grey_box_fuzz_one parts gp) (grey_box_send_stats parts))"
proof -
  have "steps keeps_inputs count_execution"
    unfolding count_execution_def by (rule update_keeps) (simp_all add: fuzzer_inputs_def)
  then show ?thesis
    unfolding runs_def by (intro keeps_inputs.then_do fuzz_one_keeps [OF assms] send_stats_keeps)
qed

lemma reach_keeps:
  assumes "good_rng (gp_rng gp)" and "usable_weights (mt_operation_weights (gp_mutator gp))"
    and "launched (rp_cmdi parts) (rp_supervisor parts) w" and "grey_box_reach parts gp s s'"
  shows "keeps_inputs s s'"
  using assms(4)
proof induction
  case (iterate s1 r s2)
  then show ?case using keeps_inputs.trans stepsD [OF runs_keep [OF assms(1-3)]] by blast
qed (rule keeps_inputs.refl)

end
