(* ===== verification/Run_Order.thy ===== *)
theory Run_Order
  imports Runner
begin

text \<open>
  Which test programs a run of both harnesses starts and what it sends to the monitor, in order:
  \<open>run_effects\<close> is the exact list of these calls. The other calls of a run (files, mounts, observers, copies)
  are \<open>is_plain\<close>: no process under \<open>timeout\<close> and no command to the monitor.
\<close>

subsection \<open>The commands\<close>

text \<open>The command under which a harness runs a test program: directly, or over SSH with the options given.\<close>

definition test_command :: "remote_options option \<Rightarrow> environment \<Rightarrow> harness \<Rightarrow> remote_path \<Rightarrow> command" where
  "test_command remote e h binary_path =
     (let secs = show_nat (unat (h_timeout h))
      in case remote of
           None \<Rightarrow>
             \<lparr>cmd_program = ''timeout'', cmd_args = [secs, binary_path, h_fs_dir h], cmd_dir = Some (h_exec_dir h)\<rparr>
         | Some opts \<Rightarrow>
             \<lparr>cmd_program = ''timeout'',
              cmd_args = [secs, ''ssh''] @ connection_args opts
                @ [''-p'', show_nat (unat (ro_ssh_port opts)), ''root@localhost'', ''-t'', ''cd'', h_exec_dir h, ''&&'',
                   debug_command e \<lparr>cmd_program = binary_path, cmd_args = [h_fs_dir h], cmd_dir = None\<rparr>],
              cmd_dir = None\<rparr>)"

definition launched_with ::
    "('z world_scheme) command_interface \<Rightarrow> ('z world_scheme) supervisor \<Rightarrow> remote_options option \<Rightarrow> bool" where
  "launched_with cmdi sv remote \<longleftrightarrow>
     (case remote of
        None \<Rightarrow> cmdi = local_command_interface \<and> sv = native_supervisor
      | Some opts \<Rightarrow> cmdi = remote_command_interface opts \<and> (\<exists>broker qopts. sv = qemu_supervisor broker qopts))"

lemma launched_with_launched: "launched_with cmdi sv remote \<Longrightarrow> launched cmdi sv (of_bool (remote \<noteq> None))"
  by (auto simp: launched_with_def launched_def split: option.splits)

text \<open>What a run of both harnesses with a given outcome does.\<close>

definition run_effects ::
    "'s runner_parts \<Rightarrow> remote_options option \<Rightarrow> environment \<Rightarrow> remote_path \<Rightarrow> diff_outcome \<Rightarrow> call list" where
  "run_effects parts remote e binary_path out =
     (let fst_test = Run (test_command remote e (rp_fst_harness parts) binary_path);
          snd_test = Run (test_command remote e (rp_snd_harness parts) binary_path);
          load = (if remote = None then [] else [MonitorWrite (''loadvm fresh'' @ [newline])])
      in case out of
           DiffCompleted _ \<Rightarrow> [fst_test, snd_test]
         | FirstPanicked _ \<Rightarrow> [fst_test] @ load
         | FirstTimedOut _ _ \<Rightarrow> [fst_test]
         | SecondPanicked _ \<Rightarrow> [fst_test, snd_test] @ load
         | SecondTimedOut _ _ \<Rightarrow> [fst_test, snd_test])"

subsection \<open>The calls that are not plain, in order\<close>

definition effects :: "call list \<Rightarrow> call list" where
  "effects cs = filter (\<lambda>c. \<not> is_plain c) cs"

lemma effects_simps [simp]:
  "effects [] = []" "effects (cs @ ds) = effects cs @ effects ds"
  "effects (c # cs) = (if is_plain c then effects cs else c # effects cs)"
  by (simp_all add: effects_def)

definition rig_does :: "call list \<Rightarrow> 'z rig_scheme \<Rightarrow> 'z rig_scheme \<Rightarrow> bool" where
  "rig_does es s s' \<longleftrightarrow> (dash_paths_ok s \<longrightarrow> dash_paths_ok s' \<and>
     (\<exists>cs obs. s' = s\<lparr>calls := calls s @ cs, observers_heap := obs\<rparr> \<and> effects cs = es))"

lemma rig_runs_does: "rig_runs 0 0 s s' \<Longrightarrow> rig_does [] s s'"
  by (fastforce simp: rig_runs_def rig_does_def counts_calls_zero effects_def)

lemma rig_does_trans:
  assumes "rig_does es s s'" and "rig_does fs s' s''"
  shows "rig_does (es @ fs) s s''"
  unfolding rig_does_def
proof
  assume "dash_paths_ok s"
  then obtain cs obs where 1: "dash_paths_ok s'" "s' = s\<lparr>calls := calls s @ cs, observers_heap := obs\<rparr>" "effects cs = es"
    using assms(1) by (auto simp: rig_does_def)
  then obtain ds obs' where "dash_paths_ok s''" "s'' = s'\<lparr>calls := calls s' @ ds, observers_heap := obs'\<rparr>" "effects ds = fs"
    using assms(2) by (auto simp: rig_does_def)
  moreover from this 1 have "s'' = s\<lparr>calls := calls s @ cs @ ds, observers_heap := obs'\<rparr>" "effects (cs @ ds) = es @ fs"
    by simp_all
  ultimately show "dash_paths_ok s'' \<and>
      (\<exists>cs obs. s'' = s\<lparr>calls := calls s @ cs, observers_heap := obs\<rparr> \<and> effects cs = es @ fs)"
    by blast
qed

lemma rig_does_call: "\<not> is_plain c \<Longrightarrow> rig_does [c] s (record_call c s)"
  unfolding rig_does_def record_call_def dash_paths_ok_def
  by (intro impI conjI exI [of _ "[c]"] exI [of _ "observers_heap s"]) auto

lemma rig_does_env: "rig_does es s s' \<Longrightarrow> dash_paths_ok s \<Longrightarrow> env s' = env s"
  by (auto simp: rig_does_def)

text \<open>One test, by each interface.\<close>

lemma test_command_run:
  assumes "launched_with cmdi sv remote"
    and "ci_exec_in_dir cmdi (args [h_fs_dir h] (command_new binary_path)) (h_exec_dir h) (Some (h_timeout h)) s = Some (r, s')"
  shows "s' = record_call (Run (test_command remote (env s) h binary_path)) s"
proof (cases remote)
  case None
  let ?cmd = "(args [h_fs_dir h] (command_new binary_path))\<lparr>cmd_dir := Some (h_exec_dir h)\<rparr>"
  have "exec_local ?cmd (Some (h_timeout h)) s = Some (r, s')"
    using assms None by (simp add: launched_with_def local_command_interface_def)
  then have "s' = record_call (Run (under_timeout (Some (h_timeout h)) ?cmd)) s"
    using exec_local_run [of ?cmd "Some (h_timeout h)" s] by auto
  then show ?thesis using None by (simp add: test_command_def under_timeout_def args_def command_new_def)
next
  case (Some opts)
  let ?shown = "debug_command (env s) (args [h_fs_dir h] (command_new binary_path))"
  let ?cmd = "args ([''-t'', ''cd'', h_exec_dir h, ''&&''] @ [?shown] @ []) (exec_common opts)"
  have "map_error (remote_error ?shown) (exec_local ?cmd (Some (h_timeout h))) s = Some (r, s')"
    using assms Some by (auto simp: launched_with_def remote_command_interface_def remote_run_eq Let_def)
  then have "s' = record_call (Run (under_timeout (Some (h_timeout h)) ?cmd)) s"
    using exec_local_run [of ?cmd "Some (h_timeout h)" s] by (auto simp: map_error_def)
  then show ?thesis
    using Some by (simp add: test_command_def under_timeout_def args_def command_new_def exec_common_def)
qed

lemma harness_does:
  assumes l: "launched_with cmdi sv remote"
    and run: "harness_run h cmdi sv binary_path keep_fs s = Some (Ok out, s')"
  shows "rig_does [Run (test_command remote (env s) h binary_path)] s s'"
proof -
  have c: "rig_contract cmdi sv (of_bool (remote \<noteq> None))"
    by (rule launched_contract [OF launched_with_launched [OF l]])
  show ?thesis
  proof (rule rig_contract.harness_run_exec [OF c run])
    fix s1 r1 s2
    assume 1: "harness_prepare h cmdi sv s = Some (Ok (), s1)"
      and 2: "ci_exec_in_dir cmdi (args [h_fs_dir h] (command_new binary_path)) (h_exec_dir h) (Some (h_timeout h)) s1 = Some (r1, s2)"
      and 3: "case r1 of Ok out' \<Rightarrow> rig_contract.after_exec cmdi sv h keep_fs (Inr out') s2 = Some (Ok out, s')
          | Err e \<Rightarrow> rig_contract.after_exec cmdi sv h keep_fs (Inl e) s2 = Some (Ok out, s') | Crash c \<Rightarrow> Ok out = Crash c \<and> s' = s2"
    have a: "rig_does [] s s1"
      by (rule rig_runs_does [OF stepsD [OF rig_contract.rig_quiet_harness_parts(1) [OF c] 1]])
    have b: "rig_does [Run (test_command remote (env s1) h binary_path)] s1 s2"
      unfolding test_command_run [OF l 2]
      by (rule rig_does_call) (simp add: test_command_def Let_def split: option.split)
    have "rig_does [] s2 s'"
      using 3 stepsD [OF rig_contract.rig_quiet_after_exec [OF c]] by (cases r1) (auto intro: rig_runs_does)
    from rig_does_trans [OF rig_does_trans [OF a b] this]
    have "rig_does [Run (test_command remote (env s1) h binary_path)] s s'" by simp
    then show ?thesis using rig_does_env [OF a] by (auto simp: rig_does_def)
  qed simp
qed

lemma load_snapshot_does:
  assumes l: "launched_with (rp_cmdi parts) (rp_supervisor parts) remote"
    and run: "load_snapshot parts s = Some (Ok (), s')"
  shows "rig_does (if remote = None then [] else [MonitorWrite (''loadvm fresh'' @ [newline])]) s s'"
proof (cases remote)
  case None
  then have "s' = s"
    using assms by (simp add: launched_with_def load_snapshot_def with_context_Ok native_supervisor_def)
  then show ?thesis using None rig_runs_does [OF rig_runs_refl] by simp
next
  case (Some opts)
  then obtain broker qopts where "rp_supervisor parts = qemu_supervisor broker qopts"
    using l by (auto simp: launched_with_def)
  then obtain s1 s2 where 1: "handle_info broker ''load vm snapshot'' s = Some (Ok (), s1)"
      and 2: "monitor_stream qopts s1 = Some (Ok (), s2)"
      and 3: "s' = record_call (MonitorWrite (''loadvm fresh'' @ [newline])) s2"
    using run by (auto simp: load_snapshot_def with_context_Ok qemu_supervisor_def monitor_command_def then_do_Ok
        call_unit_def SNAPSHOT_TAG_def)
  have "quiet (monitor_stream qopts)" unfolding monitor_stream_def by (intro emits) simp
  note quiet = quiet_handle_info [THEN quiet_rig] quiet_rig [OF this]
  have a: "rig_does [] s s1" by (rule rig_runs_does [OF stepsD [OF quiet(1) 1]])
  have b: "rig_does [] s1 s2" by (rule rig_runs_does [OF stepsD [OF quiet(2) 2]])
  have "rig_does [MonitorWrite (''loadvm fresh'' @ [newline])] s2 s'"
    unfolding 3 by (rule rig_does_call) simp
  from rig_does_trans [OF rig_does_trans [OF a b] this] show ?thesis using Some by simp
qed

lemma run_harness_does:
  assumes l: "launched_with (rp_cmdi parts) (rp_supervisor parts) remote"
    and ok: "dash_paths_ok s" and run: "run_harness parts binary_path s = Some (Ok out, s')"
  shows "rig_does (run_effects parts remote (env s) binary_path out) s s'"
proof -
  let ?fst = "Run (test_command remote (env s) (rp_fst_harness parts) binary_path)"
  let ?snd = "Run (test_command remote (env s) (rp_snd_harness parts) binary_path)"
  note loads = load_snapshot_does [OF l]
  obtain fst_result s1 where fst_run: "run_fst parts binary_path s = Some (Ok fst_result, s1)"
    and rest: "(case fst_result of
       OutcomePanicked \<Rightarrow> then_do (load_snapshot parts) (\<lambda>_. return (FirstPanicked (rp_fst_fs_name parts)))
     | OutcomeTimedOut \<Rightarrow> return (FirstTimedOut (rp_fst_fs_name parts) (cf_timeout (rp_config parts)))
     | OutcomeCompleted fst_outcome \<Rightarrow>
         then_do (run_snd parts binary_path) (\<lambda>snd_result.
         case snd_result of
           OutcomePanicked \<Rightarrow> then_do (load_snapshot parts) (\<lambda>_. return (SecondPanicked (rp_snd_fs_name parts)))
         | OutcomeTimedOut \<Rightarrow> return (SecondTimedOut (rp_snd_fs_name parts) (cf_timeout (rp_config parts)))
         | OutcomeCompleted snd_outcome \<Rightarrow>
             then_do (runner_diff parts fst_outcome snd_outcome) (\<lambda>diff. return (DiffCompleted diff)))) s1
       = Some (Ok out, s')"
    using run unfolding run_harness_def then_do_Ok by blast
  have one: "rig_does [?fst] s s1"
    using harness_does [OF l] fst_run unfolding run_fst_def with_context_Ok by blast
  show ?thesis
  proof (cases fst_result)
    case OutcomePanicked
    then have "load_snapshot parts s1 = Some (Ok (), s')" "out = FirstPanicked (rp_fst_fs_name parts)"
      using rest by (auto simp: then_do_Ok)
    then show ?thesis using rig_does_trans [OF one loads] by (simp add: run_effects_def Let_def)
  next
    case OutcomeTimedOut
    then show ?thesis using rest one by (auto simp: run_effects_def Let_def)
  next
    case (OutcomeCompleted fst_outcome)
    then obtain snd_result s2 where snd_run: "run_snd parts binary_path s1 = Some (Ok snd_result, s2)"
      and rest2: "(case snd_result of
           OutcomePanicked \<Rightarrow> then_do (load_snapshot parts) (\<lambda>_. return (SecondPanicked (rp_snd_fs_name parts)))
         | OutcomeTimedOut \<Rightarrow> return (SecondTimedOut (rp_snd_fs_name parts) (cf_timeout (rp_config parts)))
         | OutcomeCompleted snd_outcome \<Rightarrow>
             then_do (runner_diff parts fst_outcome snd_outcome) (\<lambda>diff. return (DiffCompleted diff))) s2
         = Some (Ok out, s')"
      using rest by (auto simp: then_do_Ok)
    have "rig_does [?snd] s1 s2"
      using harness_does [OF l] snd_run rig_does_env [OF one ok] unfolding run_snd_def with_context_Ok by fastforce
    from rig_does_trans [OF one this] have two: "rig_does [?fst, ?snd] s s2" by simp
    show ?thesis
    proof (cases snd_result)
      case OutcomePanicked
      then have "load_snapshot parts s2 = Some (Ok (), s')" "out = SecondPanicked (rp_snd_fs_name parts)"
        using rest2 by (auto simp: then_do_Ok)
      then show ?thesis using rig_does_trans [OF two loads] by (simp add: run_effects_def Let_def)
    next
      case OutcomeTimedOut
      then show ?thesis using rest2 two by (auto simp: run_effects_def Let_def)
    next
      case (OutcomeCompleted snd_outcome)
      then obtain diff where "runner_diff parts fst_outcome snd_outcome s2 = Some (Ok diff, s')" "out = DiffCompleted diff"
        using rest2 by (auto simp: then_do_Ok)
      then show ?thesis
        using rig_does_trans [OF two rig_runs_does [OF stepsD [OF rig_quiet_runner_diff]]] by (simp add: run_effects_def Let_def)
    qed
  qed
qed

end
