(* ===== verification/Demo_World.thy ===== *)
theory Demo_World
  imports Examples Program_Correct Corpus_Growth Run_Order
begin

text \<open>
  A concrete environment on which the witnesses of the fuzzing layer run the model: every process ends with
  status 0 and no output, every file operation succeeds, the trace of every run has one row without an error, and
  the coverage file names one address.
\<close>

definition demo_call :: executed where
  "demo_call = \<lparr>ex_idx = 0, ex_cmd = ''MKDIR'', ex_ret_code = 0, ex_err = 0, ex_extra = []\<rparr>"

definition demo_trace :: trace where
  "demo_trace = \<lparr>rows = [read_back demo_strerror demo_call]\<rparr>"

definition demo_text :: string where
  "demo_text = dump_trace demo_strerror [demo_call]"

definition demo_env :: environment where
  "demo_env =
     \<lparr>run_command = \<lambda>_ _. Inr (Some 0, \<lparr>out_stdout = [], out_stderr = []\<rparr>),
      perform = \<lambda>_ _. Inr (),
      read_text = \<lambda>_ path. Inr (if last path = CHR ''t'' then ''0xff'' else demo_text),
      list_dir = \<lambda>_ _. Inr [],
      poll_event = \<lambda>_. NoEvent,
      bind_port = \<lambda>_. Inr (Inr 2222),
      receive_message = \<lambda>_. Inl ''closed'',
      receive_run = \<lambda>_. Inr (Some 1),
      spawn_machine = \<lambda>_. Inr 4242,
      wait_machine = \<lambda>_. Inr ''exit status: 0'',
      receive_pid = \<lambda>_. Inr 4242,
      read_json = \<lambda>_. Inr (JsonObject [''return'']),
      decode_error = \<lambda>_. ''missing field'',
      clock_nanos = \<lambda>_. 0,
      debug_command = cmd_program,
      show_error = concat,
      show_rate = \<lambda>_ _. ''0.00'',
      parse_workload = \<lambda>_. Inr workload_new,
      show_workload = \<lambda>_. Inr ''{}'',
      workload_name = \<lambda>_. ''name'',
      parse_file_infos = \<lambda>_. Inr [],
      show_file_info = rel_path,
      regex_match = \<lambda>_ _. False,
      file_hash = \<lambda>_. 0,
      name_hash = \<lambda>_. 0\<rparr>"

definition demo_config :: config where
  "demo_config =
     \<lparr>cf_greybox = \<lparr>max_mutations = 1, save_corpus = False, scheduler_of = QueueKind, m_constant = 1\<rparr>,
      cf_operation_weights = uniform_weights, cf_mutation_weights = [(MInsert, 1)],
      cf_max_workload_length = 1, cf_fs_name = ''fs'', cf_heartbeat_interval = 10, cf_timeout = 5,
      cf_qemu = \<lparr>launch_script = [], ssh_private_key_path = [], os_image = [], boot_wait_time = 0, log_path = [],
        direct_boot = False, kernel_image_path = [], root_disk_partition = []\<rparr>,
      cf_dash = \<lparr>dash_enabled = False, debug_binary_path = [], release_binary_path = [], dash_size = False,
        dash_file_hardlink = False, dash_dir_hardlink = False, dash_mode = False\<rparr>\<rparr>"

definition demo_observer :: dash_observer_state where
  "demo_observer =
     \<lparr>do_hash = 0, do_fs_state = [], do_fs_internal = \<lambda>_. False, do_dash_path = None, do_fs_dir = ''/mnt'',
      do_patterns = [], do_flags = []\<rparr>"

definition demo_parts :: "('z runner_scheme) runner_parts" where
  "demo_parts =
     \<lparr>rp_config = demo_config, rp_keep_fs = False, rp_cmdi = local_command_interface,
      rp_supervisor = native_supervisor, rp_test_dir = ''/tmp/t'', rp_crashes_path = ''./crashes'',
      rp_accidents_path = ''./accidents'', rp_dash_objective = dash_objective_new False,
      rp_fst_dash = 0, rp_snd_dash = 1, rp_fst_fs_name = ''ext4'', rp_snd_fs_name = ''btrfs'',
      rp_fst_harness = harness_new Ext4 ''/mnt/a'' ''/tmp/x'' ''/tmp/o1'' 5 [DashRef 0],
      rp_snd_harness = harness_new Btrfs ''/mnt/b'' ''/tmp/x'' ''/tmp/o2'' 5 [DashRef 1],
      rp_broker = FakeHandle 0\<rparr>"

lemma demo_fields:
  "rp_config demo_parts = demo_config" "rp_keep_fs demo_parts = False" "rp_cmdi demo_parts = local_command_interface"
  "rp_supervisor demo_parts = native_supervisor" "rp_test_dir demo_parts = ''/tmp/t''"
  "rp_dash_objective demo_parts = dash_objective_new False" "rp_fst_dash demo_parts = 0" "rp_snd_dash demo_parts = 1"
  "rp_fst_fs_name demo_parts = ''ext4''" "rp_snd_fs_name demo_parts = ''btrfs''"
  "rp_fst_harness demo_parts = harness_new Ext4 ''/mnt/a'' ''/tmp/x'' ''/tmp/o1'' 5 [DashRef 0]"
  "rp_snd_harness demo_parts = harness_new Btrfs ''/mnt/b'' ''/tmp/x'' ''/tmp/o2'' 5 [DashRef 1]"
  "rp_broker demo_parts = FakeHandle 0"
  by (simp_all add: demo_parts_def)

lemma demo_launched: "launched (rp_cmdi demo_parts) (rp_supervisor demo_parts) 0"
  by (simp add: launched_def demo_parts_def)

definition demo_runner :: runner where
  "demo_runner = \<lparr>env = demo_env, calls = [], observers_heap = [demo_observer, demo_observer],
     executions = 0, crashes = 0\<rparr>"

definition demo_black_box :: "nat black_box" where
  "demo_black_box = runner.extend demo_runner (black_box.fields 0 0)"

lemma demo_paths_ok: "dash_paths_ok demo_runner" "dash_paths_ok demo_black_box"
  by (simp_all add: dash_paths_ok_def demo_runner_def demo_black_box_def demo_observer_def runner.extend_def
      black_box.fields_def)

subsection \<open>Evaluating programs\<close>

text \<open>
  The simplifier runs a program front to back: the first program of a sequence is run, and the rest is not looked at
  before the result is there.
\<close>

definition then_result :: "(('e, 'a) res \<times> 's) option \<Rightarrow> ('a \<Rightarrow> ('s, 'e, 'b) prog) \<Rightarrow> (('e, 'b) res \<times> 's) option" where
  "then_result r f = (case r of
     None \<Rightarrow> None
   | Some (Ok a, s') \<Rightarrow> f a s'
   | Some (Err e, s') \<Rightarrow> Some (Err e, s')
   | Some (Crash c, s') \<Rightarrow> Some (Crash c, s'))"

lemma then_result_simps:
  "then_result (Some (Ok a, s')) f = f a s'" "then_result (Some (Err e, s')) f = Some (Err e, s')"
  "then_result (Some (Crash c, s')) f = Some (Crash c, s')"
  by (simp_all add: then_result_def)

lemma run_steps:
  "then_do m f s = then_result (m s) f"
  "with_context c m s = map_option (\<lambda>(r, s'). (map_err (\<lambda>e. c # e) r, s')) (m s)"
  "exec_context c n s = map_option (\<lambda>(r, s'). (map_err (\<lambda>e. [c, show_exec_error e]) r, s')) (n s)"
  "map_error h m s = map_option (\<lambda>(r, s'). (map_err h r, s')) (m s)"
  by (simp_all add: then_do_def then_result_def with_context_def exec_context_def map_error_def)

lemma frozen:
  "then_do m f = then_do m f" "with_context c m = with_context c m"
  "exec_context c n = exec_context c n" "map_error h m = map_error h m"
  "ignore_error m = ignore_error m" "attempt m = attempt m"
  by (rule refl)+

lemma first_argument:
  "r = r' \<Longrightarrow> then_result r f = then_result r' f" "xs = ys \<Longrightarrow> for_each xs g = for_each ys g"
  "b = b' \<Longrightarrow> do_when b m = do_when b' m"
  by simp_all

lemmas frozen_congs = frozen first_argument

lemmas run_calls = call_unit_def call_run_def call_read_def call_list_def call_poll_def call_clock_def
  log_message_def asks_def record_call_def ignore_error_def attempt_def unwrap_prog_def elapsed_secs_def

lemmas run_methods = local_copy_file_def local_copy_dir_def exec_local_def under_timeout_def exec_status_def
  exec_unit_def setup_modprobe_def default_setup_def mount_setup_def mount_teardown_def
  harness_new_def harness_teardown_def harness_prepare_def harness_completed_def harness_timed_out_def harness_run_def
  heap_get_def dash_post_exec_def observer_skip_exec_def args_def command_new_def option_args_def from_utf8_def

lemma local_methods:
  "ci_create_dir_all local_command_interface = (\<lambda>path. with_context (''failed to create local dir at '' @ in_quotes path)
        (call_unit (CreateDirAll path)))"
  "ci_remove_dir_all local_command_interface = (\<lambda>path. with_context (''failed to remove local dir at '' @ in_quotes path)
        (call_unit (RemoveDirAll path)))"
  "ci_copy_to_remote local_command_interface = local_copy_file"
  "ci_copy_from_remote local_command_interface = local_copy_file"
  "ci_copy_dir_from_remote local_command_interface = local_copy_dir"
  "ci_write local_command_interface = (\<lambda>path contents. with_context (''failed to write local file '' @ in_quotes path)
        (call_unit (WriteFile path contents)))"
  "ci_exec local_command_interface = exec_local"
  "ci_exec_in_dir local_command_interface = (\<lambda>cmd dir. exec_local (cmd\<lparr>cmd_dir := Some dir\<rparr>))"
  by (simp_all add: local_command_interface_def)

lemma native_methods:
  "sv_load_snapshot native_supervisor = return ()" "sv_save_snapshot native_supervisor = return ()"
  "sv_reset_events native_supervisor = return ()" "sv_had_panic_event native_supervisor = return False"
  by (simp_all add: native_supervisor_def)

lemma demo_answers:
  "run_command demo_env cs cmd = Inr (Some 0, \<lparr>out_stdout = [], out_stderr = []\<rparr>)"
  "perform demo_env cs c = Inr ()" "list_dir demo_env cs p = Inr []" "clock_nanos demo_env = (\<lambda>_. 0)"
  "debug_command demo_env = cmd_program" "workload_name demo_env = (\<lambda>_. ''name'')"
  "show_workload demo_env = (\<lambda>_. Inr ''{}'')"
  by (simp_all add: demo_env_def)

lemma demo_harness:
  assumes "env s = demo_env" and "i < length (observers_heap s)" and "do_dash_path (observers_heap s ! i) = None"
    and "fs = Ext4 \<or> fs = Btrfs"
  shows "\<exists>cs. harness_run (harness_new fs dir x o' 5 [DashRef i]) local_command_interface native_supervisor bin False s
    = Some (Ok (OutcomeCompleted \<lparr>co_stdout = [], co_stderr = [], co_dir = o'\<rparr>), s\<lparr>calls := calls s @ cs\<rparr>)"
  using assms(4)
  apply (elim disjE)
  apply (simp_all add: run_methods run_steps then_result_simps run_calls local_methods native_methods demo_answers assms(1-3) vec_get_def cong: frozen_congs)
  by (rule exI, rule refl)+

lemma demo_parse: "try_parse demo_text = Ok demo_trace"
proof -
  have "clean_call demo_strerror demo_call"
    by (simp add: clean_call_def clean_def demo_call_def demo_strerror_def is_white_def newline_def)
  then show ?thesis using try_parse_dump [of "[demo_call]" demo_strerror] by (simp add: demo_text_def demo_trace_def)
qed

lemma demo_no_diff: "trace_objective_diff demo_trace demo_trace = []" "trace_errors demo_trace = []"
  by (simp add: trace_diff_empty) (simp add: trace_errors_def demo_trace_def read_back_def demo_call_def)

lemma demo_read:
  "read_text demo_env cs (join dir TRACE_FILENAME) = Inr (demo_text)"
  "read_text demo_env cs (join dir KCOV_FILENAME) = Inr ''0xff''"
  by (simp_all add: demo_env_def join_def TRACE_FILENAME_def KCOV_FILENAME_def)

text \<open>A completed run on both file systems, without a difference.\<close>

definition demo_diff :: diff_completed where
  "demo_diff = \<lparr>dc_dash_diff = [], dc_trace_diff = [],
     dc_fst_outcome = \<lparr>co_stdout = [], co_stderr = [], co_dir = ''/tmp/o1''\<rparr>,
     dc_snd_outcome = \<lparr>co_stdout = [], co_stderr = [], co_dir = ''/tmp/o2''\<rparr>,
     dc_fst_trace = demo_trace, dc_snd_trace = demo_trace\<rparr>"

lemma demo_dash: "\<not> dash_is_interesting (dash_objective_new False) ob ob'"
  by (simp add: dash_is_interesting_def dash_objective_new_def)

lemma demo_launched_with: "launched_with (rp_cmdi demo_parts) (rp_supervisor demo_parts) None"
  by (simp add: launched_with_def demo_parts_def)

definition ready :: "'z runner_scheme \<Rightarrow> bool" where
  "ready s \<longleftrightarrow> env s = demo_env \<and> observers_heap s = [demo_observer, demo_observer]"

lemma ready_calls [simp]: "ready (s\<lparr>calls := cs\<rparr>) \<longleftrightarrow> ready s"
  by (simp add: ready_def)

lemma demo_run_harness:
  assumes "ready s"
  shows "\<exists>cs. run_harness demo_parts bin s = Some (Ok (DiffCompleted demo_diff), s\<lparr>calls := calls s @ cs\<rparr>)"
proof -
  obtain cs where 1: "run_fst demo_parts bin s
      = Some (Ok (OutcomeCompleted \<lparr>co_stdout = [], co_stderr = [], co_dir = ''/tmp/o1''\<rparr>), s\<lparr>calls := calls s @ cs\<rparr>)"
    using demo_harness [of s 0 Ext4 "''/mnt/a''" "''/tmp/x''" "''/tmp/o1''" bin] assms
    by (auto simp: run_fst_def demo_parts_def ready_def demo_observer_def)
  obtain ds where 2: "run_snd demo_parts bin (s\<lparr>calls := calls s @ cs\<rparr>)
      = Some (Ok (OutcomeCompleted \<lparr>co_stdout = [], co_stderr = [], co_dir = ''/tmp/o2''\<rparr>),
        s\<lparr>calls := (calls s @ cs) @ ds\<rparr>)"
    using demo_harness [of "s\<lparr>calls := calls s @ cs\<rparr>" 1 Btrfs "''/mnt/b''" "''/tmp/x''" "''/tmp/o2''" bin] assms
    by (auto simp: run_snd_def demo_parts_def ready_def demo_observer_def)
  show ?thesis
    using assms
    by (simp add: run_harness_def run_steps then_result_simps 1 2 runner_diff_def parse_trace_def run_calls demo_read
        demo_parse demo_no_diff demo_answers demo_dash demo_fields ready_def heap_get_def vec_get_def demo_diff_def cong: frozen_congs)
      (rule exI, rule refl)
qed


text \<open>Compiling a test, and an input without a finding.\<close>

lemma demo_compile:
  assumes "ready s"
  shows "\<exists>bin cs. compile_test demo_parts w s = Some (Ok bin, s\<lparr>calls := calls s @ cs\<rparr>)"
  using assms
  apply (simp add: compile_test_def compile_def run_steps then_result_simps run_calls run_methods demo_answers demo_fields
      ready_def Let_def local_methods cong: frozen_congs)
  by (rule exI, rule refl)+

lemma demo_not_interesting: "\<not> any_interesting demo_diff"
  by (simp add: any_interesting_def dash_interesting_def trace_interesting_def demo_diff_def)

lemma demo_fuzz_input:
  assumes "ready s"
  shows "\<exists>cs. fuzz_input demo_parts send w s = Some (Ok (), s\<lparr>calls := calls s @ cs\<rparr>)"
proof -
  obtain bin cs where 1: "compile_test demo_parts w s = Some (Ok bin, s\<lparr>calls := calls s @ cs\<rparr>)"
    using demo_compile [OF assms] by blast
  obtain ds where 2: "run_harness demo_parts bin (s\<lparr>calls := calls s @ cs\<rparr>)
      = Some (Ok (DiffCompleted demo_diff), s\<lparr>calls := (calls s @ cs) @ ds\<rparr>)"
    using demo_run_harness [of "s\<lparr>calls := calls s @ cs\<rparr>" bin] assms by auto
  have 3: "detect_errors demo_parts w bin demo_diff = return False"
    by (simp add: detect_errors_def demo_diff_def demo_no_diff)
  have 4: "do_objective demo_parts send w bin demo_diff = return False"
    by (simp add: do_objective_def demo_not_interesting)
  show ?thesis
    by (simp add: fuzz_input_def run_steps then_result_simps 1 2 3 4 cong: frozen_congs) (rule exI, rule refl)
qed

text \<open>The black box fuzzer.\<close>

lemma demo_generate: "\<exists>w g. generate_new 1 demo_rng 0 1 uniform_weights = Some (Ok w, g)"
proof -
  have "(case generate_new 1 demo_rng 0 1 uniform_weights of Some (Ok w, g) \<Rightarrow> True | _ \<Rightarrow> False)"
    by code_simp
  then show ?thesis by (auto split: option.splits prod.splits res.splits)
qed

lemma demo_black_box_one:
  assumes "ready s" and "bx_rng s = 0"
  shows "\<exists>g cs. black_box_fuzz_one 1 demo_rng demo_parts s = Some (Ok (), s\<lparr>bx_rng := g, calls := calls s @ cs\<rparr>)"
proof -
  obtain w g where w: "generate_new 1 demo_rng 0 1 uniform_weights = Some (Ok w, g)" using demo_generate by blast
  have "ready (s\<lparr>bx_rng := g\<rparr>)" using assms by (simp add: ready_def)
  from demo_fuzz_input [OF this, of "black_box_send_stats (demo_parts :: (nat, 'a) black_box_scheme runner_parts)" w]
  obtain cs where "fuzz_input demo_parts (black_box_send_stats (demo_parts :: (nat, 'a) black_box_scheme runner_parts)) w
      (s\<lparr>bx_rng := g\<rparr>) = Some (Ok (), s\<lparr>bx_rng := g, calls := calls s @ cs\<rparr>)" by auto
  then show ?thesis
    using assms(2) w
    by (auto simp: black_box_fuzz_one_def run_steps then_result_simps black_box_generate_def demo_fields demo_config_def
        simp del: One_nat_def cong: frozen_congs)
qed

lemma demo_black_box_run:
  "\<exists>s'. black_box_run 1 demo_rng demo_parts (Some 1) demo_black_box = Some (Ok (), s')"
proof -
  have r: "ready demo_black_box" "bx_rng demo_black_box = 0"
    by (simp_all add: ready_def demo_black_box_def demo_runner_def runner.extend_def black_box.fields_def)
  obtain g cs where 1: "black_box_fuzz_one 1 demo_rng demo_parts demo_black_box
      = Some (Ok (), demo_black_box\<lparr>bx_rng := g, calls := calls demo_black_box @ cs\<rparr>)"
    using demo_black_box_one [OF r] by blast
  have e: "env demo_black_box = demo_env" using r by (simp add: ready_def)
  show ?thesis
    by (simp add: black_box_run_def fuzzer_run_def runs_def run_steps then_result_simps 1 [simplified] count_execution_def
        black_box_send_stats_def run_calls e demo_answers demo_fields demo_config_def Let_def cong: frozen_congs)
qed

subsection \<open>A coverage-guided fuzzer, and a machine that reports two events\<close>

definition demo_grey_box :: "(nat, nat) grey_box" where
  "demo_grey_box = runner.extend demo_runner
     (grey_box.fields [] 0 [] (QueueScheduler 0) (KCovFeedback []) (DummyFeedback []) 0 0)"

definition demo_grey_box_parts :: "(nat, nat) grey_box_parts" where
  "demo_grey_box_parts =
     \<lparr>gp_fuel = 1, gp_rng = demo_rng,
      gp_float_ops = \<lparr>fl_of = unat, fl_powf = (^), fl_div = (div), fl_less = (<), fl_choose_weighted = \<lambda>_ g. (Inr 0, g)\<rparr>,
      gp_mutator = mutator_new uniform_weights [(MInsert, 1)] 9 1, gp_corpus_path = None\<rparr>"

text \<open>One iteration from a single seed.\<close>

definition demo_seeded :: "(nat, nat) grey_box" where
  "demo_seeded = demo_grey_box\<lparr>gx_initial_corpus := [workload_new]\<rparr>"

lemma demo_seeded_fields:
  "env demo_seeded = demo_env" "observers_heap demo_seeded = [demo_observer, demo_observer]"
  "gx_initial_corpus demo_seeded = [workload_new]" "gx_next_initial demo_seeded = 0" "gx_corpus demo_seeded = []"
  "gx_fst_feedback demo_seeded = KCovFeedback []" "gx_snd_feedback demo_seeded = DummyFeedback []"
  by (simp_all add: demo_seeded_def demo_grey_box_def demo_runner_def runner.extend_def grey_box.fields_def)

lemma demo_consider:
  assumes "env s = demo_env" and "gx_fst_feedback s = KCovFeedback []" and "gx_snd_feedback s = DummyFeedback []"
  shows "\<exists>s'. consider_input demo_parts demo_grey_box_parts w bin demo_diff s = Some (Ok (), s')
    \<and> env s' = demo_env \<and> gx_initial_corpus s' = gx_initial_corpus s"
proof -
  have parse: "kcov_parse ''0xff'' = Ok [(255, 1)]"
    by (simp add: kcov_parse_def str_lines_def drop_cr_def newline_def parse_addr_def trim_0x.simps
        parse_hex_def hex_value_def hits_def Let_def)
  show ?thesis
    by (simp add: consider_input_def run_steps then_result_simps fst_opinion_def snd_opinion_def parse_kcov_def
        run_calls assms demo_diff_def demo_read demo_answers demo_fields parse opinion_of_def hits_def Let_def
        add_to_corpus_def grey_box_send_stats_def grey_box_display_def demo_grey_box_parts_def cong: frozen_congs)
qed

lemma demo_grey_box_one:
  "\<exists>s0 bin s1 s2 s'. pick_input demo_grey_box_parts demo_seeded = Some (Ok workload_new, s0)
     \<and> compile_test demo_parts workload_new s0 = Some (Ok bin, s1)
     \<and> run_harness demo_parts bin s1 = Some (Ok (DiffCompleted demo_diff), s2)
     \<and> grey_box_fuzz_one demo_parts demo_grey_box_parts demo_seeded = Some (Ok (), s')
     \<and> gx_corpus s0 = [] \<and> env s' = demo_env \<and> gx_initial_corpus s' = [workload_new]"
proof -
  let ?s1 = "demo_seeded\<lparr>gx_next_initial := 1\<rparr>"
  have 0: "pick_input demo_grey_box_parts demo_seeded = Some (Ok workload_new, ?s1)"
    using pick_input_initial [of demo_seeded demo_grey_box_parts] by (simp add: demo_seeded_fields)
  have r: "ready ?s1" by (simp add: ready_def demo_seeded_fields)
  obtain bin cs where 1: "compile_test demo_parts workload_new ?s1 = Some (Ok bin, ?s1\<lparr>calls := calls ?s1 @ cs\<rparr>)"
    using demo_compile [OF r] by blast
  obtain ds where 2: "run_harness demo_parts bin (?s1\<lparr>calls := calls ?s1 @ cs\<rparr>)
      = Some (Ok (DiffCompleted demo_diff), ?s1\<lparr>calls := (calls ?s1 @ cs) @ ds\<rparr>)"
    using demo_run_harness [of "?s1\<lparr>calls := calls ?s1 @ cs\<rparr>" bin] r by auto
  have 3: "detect_errors demo_parts workload_new bin demo_diff = return False"
    by (simp add: detect_errors_def demo_diff_def demo_no_diff)
  have 4: "do_objective demo_parts send workload_new bin demo_diff = return False" for send
    by (simp add: do_objective_def demo_not_interesting)
  let ?s2 = "?s1\<lparr>calls := (calls ?s1 @ cs) @ ds\<rparr>"
  obtain s3 where 5: "consider_input demo_parts demo_grey_box_parts workload_new bin demo_diff ?s2 = Some (Ok (), s3)"
      and s3: "env s3 = demo_env" "gx_initial_corpus s3 = [workload_new]"
    using demo_consider [of ?s2 workload_new bin] by (auto simp: demo_seeded_fields)
  have "grey_box_fuzz_one demo_parts demo_grey_box_parts demo_seeded = Some (Ok (), s3)"
    using 1 2 5 by (simp add: grey_box_fuzz_one_def run_steps then_result_simps 0 3 4 cong: frozen_congs)
  moreover have "gx_corpus ?s1 = []" by (simp add: demo_seeded_fields)
  ultimately show ?thesis using 0 1 2 s3 by blast
qed

lemma demo_iteration:
  "\<exists>s'. runs (grey_box_fuzz_one demo_parts demo_grey_box_parts) (grey_box_send_stats demo_parts) demo_seeded = Some (Ok (), s')
     \<and> gx_initial_corpus s' = [workload_new]"
proof -
  obtain s3 where one: "grey_box_fuzz_one demo_parts demo_grey_box_parts demo_seeded = Some (Ok (), s3)"
      and s3: "env s3 = demo_env" "gx_initial_corpus s3 = [workload_new]"
    using demo_grey_box_one by blast
  show ?thesis
    by (simp add: runs_def run_steps then_result_simps one count_execution_def
        grey_box_send_stats_def run_calls s3 demo_answers demo_fields demo_config_def Let_def cong: frozen_congs)
qed

definition demo_events :: world where
  "demo_events = \<lparr>env = demo_env\<lparr>poll_event := \<lambda>cs. if length cs < 2 then EventReceived else NoEvent\<rparr>, calls = []\<rparr>"

subsection \<open>A run of the whole program\<close>

definition demo_crates :: "(unit, nat) crates" where
  "demo_crates = \<lparr>cr_fuel = 1, cr_rng = demo_rng, cr_seed = unat, cr_os_seed = 0,
     cr_float_ops = \<lparr>fl_of = \<lambda>_. (), fl_powf = \<lambda>_ _. (), fl_div = \<lambda>_ _. (), fl_less = \<lambda>_ _. False,
       fl_choose_weighted = \<lambda>_ g. (Inr 0, g)\<rparr>,
     cr_walk_dir = \<lambda>_. [], cr_parse_config = \<lambda>_. Inr demo_config\<rparr>"

definition demo_args :: program_args where
  "demo_args = \<lparr>pa_config_path = ''./config.toml'', pa_mode = SoloSingleMode ''/o'' ''/t'' False ''ext4'', pa_no_qemu = True\<rparr>"

definition demo_world :: world where
  "demo_world = \<lparr>env = demo_env, calls = []\<rparr>"

lemma demo_program_answers:
  "bind_port demo_env cs = Inr (Inr 2222)" "parse_workload demo_env = (\<lambda>_. Inr workload_new)"
  "read_text demo_env cs path = Inr (if last path = CHR ''t'' then ''0xff'' else demo_text)"
  by (simp_all add: demo_env_def)

text \<open>Programs that succeed in the environment, and only make calls.\<close>

definition succeeds :: "('z world_scheme, 'e, 'a) prog \<Rightarrow> 'a \<Rightarrow> bool" where
  "succeeds m a \<longleftrightarrow> (\<forall>s. env s = demo_env \<longrightarrow> (\<exists>cs. m s = Some (Ok a, s\<lparr>calls := calls s @ cs\<rparr>)))"

lemma succeeds_then: "succeeds m a \<Longrightarrow> succeeds (f a) b \<Longrightarrow> succeeds (then_do m f) b"
proof (unfold succeeds_def, intro allI impI)
  fix s :: "'a world_scheme"
  assume m: "\<forall>s. env s = demo_env \<longrightarrow> (\<exists>cs. m s = Some (Ok a, s\<lparr>calls := calls s @ cs\<rparr>))"
    and f: "\<forall>s. env s = demo_env \<longrightarrow> (\<exists>cs. f a s = Some (Ok b, s\<lparr>calls := calls s @ cs\<rparr>))"
    and s: "env s = demo_env"
  obtain cs where 1: "m s = Some (Ok a, s\<lparr>calls := calls s @ cs\<rparr>)" using m s by blast
  obtain ds where "f a (s\<lparr>calls := calls s @ cs\<rparr>) = Some (Ok b, s\<lparr>calls := (calls s @ cs) @ ds\<rparr>)"
    using f [rule_format, of "s\<lparr>calls := calls s @ cs\<rparr>"] s by auto
  then show "\<exists>cs. then_do m f s = Some (Ok b, s\<lparr>calls := calls s @ cs\<rparr>)" using 1 by auto
qed

lemma succeeds_with_context: "succeeds m a \<Longrightarrow> succeeds (with_context c m) a"
  by (fastforce simp: succeeds_def)

lemma calls_appended: "\<exists>cs. s\<lparr>calls := calls s @ ds\<rparr> = s\<lparr>calls := calls s @ cs\<rparr>"
  by (rule exI, rule refl)

lemma succeeds_log: "succeeds (log_message l msg) ()" "succeeds call_clock 0" "succeeds (call_unit c) ()"
  by (simp_all add: succeeds_def run_calls demo_answers calls_appended)

lemma demo_tmp: "succeeds (local_create_new_tmp nm) (join ''/tmp'' (TMP_DIR_PREFIX @ ''-'' @ nm))"
  unfolding succeeds_def
  by (simp add: local_create_new_tmp_def run_steps then_result_simps run_calls demo_answers Let_def calls_appended cong: frozen_congs)

lemma demo_launch:
  "succeeds (launch_cmdi_and_supervisor True conf dir broker) (local_command_interface, native_supervisor)"
  unfolding succeeds_def
  by (simp add: launch_cmdi_and_supervisor_def fresh_tcp_port_def call_bind_def launch_supervisor_def launch_cmdi_def
      run_steps then_result_simps run_calls demo_program_answers demo_answers Let_def calls_appended cong: frozen_congs)

lemma demo_read_workload: "succeeds (read_workload path) workload_new"
  by (simp add: succeeds_def read_workload_def run_steps then_result_simps run_calls demo_program_answers
      calls_appended cong: frozen_congs)

lemma demo_setup: "succeeds (setup_remote_dir local_command_interface) (remote_new_tmp ''remote'')"
  unfolding succeeds_def
  by (simp add: setup_remote_dir_def run_steps then_result_simps run_calls run_methods demo_answers
      Let_def local_methods calls_appended cong: frozen_congs)

lemma demo_solo_compile: "succeeds (compile local_command_interface dir w) (join dir TEST_EXE_FILENAME)"
  unfolding succeeds_def
  by (simp add: compile_def run_steps then_result_simps run_calls run_methods demo_answers
      Let_def local_methods calls_appended cong: frozen_congs)

lemma demo_solo_harness:
  "succeeds (harness_run (harness_new Ext4 dir x o' t []) local_command_interface native_supervisor bin False)
     (OutcomeCompleted \<lparr>co_stdout = [], co_stderr = [], co_dir = o'\<rparr>)"
  unfolding succeeds_def
  by (simp add: run_methods run_steps then_result_simps run_calls local_methods native_methods demo_answers calls_appended cong: frozen_congs)

lemma demo_solo_save: "succeeds (save_solo local_command_interface dir nm t bin w (OutcomeCompleted out)) ()"
  unfolding succeeds_def
  by (simp add: save_solo_def save_testcase_def save_completed_def save_reason_def run_methods run_steps then_result_simps run_calls local_methods native_methods demo_answers
     Let_def calls_appended cong: frozen_congs)

lemma demo_solo: "succeeds (solo_run ''/t'' ''/o'' False Ext4 demo_config True) ()"
  unfolding solo_run_def Let_def
  by (rule succeeds_then succeeds_with_context succeeds_log demo_tmp demo_launch demo_read_workload demo_setup
      demo_solo_compile demo_solo_harness demo_solo_save | simp only: prod.case)+

lemma run_in_succeeds:
  assumes "succeeds m a" and "env (new w) = demo_env"
  shows "\<exists>y. run_in new m w = Some (Ok a, y)"
proof -
  obtain cs where "m (new w) = Some (Ok a, new w\<lparr>calls := calls (new w) @ cs\<rparr>)"
    using assms unfolding succeeds_def by blast
  then show ?thesis by (simp add: run_in_def)
qed

lemma demo_program_run: "\<exists>w. program_run demo_crates demo_args demo_world = Some (Ok (), w)"
proof -
  have fs: "(mount_from ''ext4'' :: (anyhow, fs_mount) res) = Ok Ext4" by code_simp
  have "\<exists>y. run_in new_rig (solo_run ''/t'' ''/o'' False Ext4 demo_config True) w = Some (Ok (), y)"
    if "env w = demo_env" for w
    by (rule run_in_succeeds [OF demo_solo]) (simp add: new_rig_def that)
  then show ?thesis
    by (simp add: program_run_def demo_args_def demo_crates_def demo_world_def run_steps then_result_simps run_calls
        demo_answers demo_program_answers fs cong: frozen_congs)
qed

end
