(* ===== verification/FS_Tests.thy ===== *)
theory FS_Tests
  imports World Alive
begin

text \<open>
  The unit tests of \<open>abstract_fs/fs.rs\<close>, run on the model. A test is a program over the file system it creates:
  \<open>unwrapped\<close> is \<open>.unwrap()\<close> on an operation, the assertions are \<open>assert_eq!\<close>, and a test passes when it does not panic.
\<close>

subsection \<open>Assertions\<close>

type_synonym test = "(abstract_fs, fs_error, unit) prog"

definition on_fs :: "(abstract_fs \<Rightarrow> (fs_error, 'a) res \<times> abstract_fs) \<Rightarrow> (abstract_fs, fs_error, 'a) prog" where
  "on_fs m = (\<lambda>fs. Some (m fs))"

definition unwrapped :: "(abstract_fs \<Rightarrow> (fs_error, 'a) res \<times> abstract_fs) \<Rightarrow> (abstract_fs, fs_error, 'a) prog" where
  "unwrapped m = unwrap_prog (on_fs m)"

definition assert_fs :: "(abstract_fs \<Rightarrow> bool) \<Rightarrow> test" where
  "assert_fs P = (\<lambda>fs. if P fs then return () fs else panic fs)"

definition assert_that :: "bool \<Rightarrow> test" where
  "assert_that b = assert_fs (\<lambda>_. b)"

definition assert_err :: "(abstract_fs \<Rightarrow> (fs_error, 'a) res \<times> abstract_fs) \<Rightarrow> fs_error \<Rightarrow> test" where
  "assert_err m e = then_do (attempt (on_fs m)) (\<lambda>r. assert_that (case r of Inl e' \<Rightarrow> e' = e | Inr _ \<Rightarrow> False))"

definition alive_is ::
    "(dir_index \<times> pathname) list \<Rightarrow> (file_index \<times> pathname) list \<Rightarrow> (file_index \<times> pathname) list \<Rightarrow> pathname list \<Rightarrow> test" where
  "alive_is ds fls fls_symlinked syms =
     assert_fs (\<lambda>fs. alive fs = Some (Ok \<lparr>al_dirs = ds, al_files = fls, al_files_symlinked = fls_symlinked, al_symlinks = syms\<rparr>))"

definition recorded :: "operation list \<Rightarrow> test" where
  "recorded os = assert_fs (\<lambda>fs. recording fs = \<lparr>ops = os\<rparr>)"

definition entry_of :: "dir_index \<Rightarrow> name \<Rightarrow> abstract_fs \<Rightarrow> node option" where
  "entry_of idx nm fs = (case (get_dir fs idx :: (fs_error, dir_node) res) of Ok d \<Rightarrow> child d nm | _ \<Rightarrow> None)"

definition entries_of :: "dir_index \<Rightarrow> abstract_fs \<Rightarrow> nat" where
  "entries_of idx fs = (case (get_dir fs idx :: (fs_error, dir_node) res) of Ok d \<Rightarrow> length (children d) | _ \<Rightarrow> 0)"

definition descriptor_of :: "file_index \<Rightarrow> abstract_fs \<Rightarrow> fd_index option option" where
  "descriptor_of idx fs = (case (get_file fs idx :: (fs_error, file_node) res) of Ok f \<Rightarrow> Some (descriptor f) | _ \<Rightarrow> None)"

definition slices_of :: "file_index \<Rightarrow> abstract_fs \<Rightarrow> source_slice list option" where
  "slices_of idx fs = (case (get_file fs idx :: (fs_error, file_node) res) of Ok f \<Rightarrow> Some (slices (cont f)) | _ \<Rightarrow> None)"

definition test_replay :: test where
  "test_replay = assert_fs (\<lambda>fs. case replay (recording fs) fs_new of
     (Ok _, fs') \<Rightarrow> recording fs' = recording fs | _ \<Rightarrow> False)"

definition passes :: "test \<Rightarrow> bool" where
  "passes t = (case t fs_new of Some (Ok _, _) \<Rightarrow> True | _ \<Rightarrow> False)"

subsection \<open>The tests\<close>

definition test_init_root :: test where
  "test_init_root =
     alive_is [(root_index, ''/'')] [] [] []"

definition test_remove_root :: test where
  "test_remove_root =
     assert_err (remove ''/'') (RootRemovalForbidden)"

definition test_mkdir :: test where
  "test_mkdir =
     then_do (unwrapped (mkdir ''/foobar'' [])) (\<lambda>foo.
     then_do (assert_fs (\<lambda>fs. entry_of root_index ''foobar'' fs = Some (NodeDir foo))) (\<lambda>_.
     then_do (recorded
       [OpMkDir ''/foobar'' []]) (\<lambda>_.
     then_do (alive_is [(root_index, ''/''), (foo, ''/foobar'')] [] [] []) (\<lambda>_.
     test_replay))))"

definition test_mkdir_name_exists :: test where
  "test_mkdir_name_exists =
     then_do (unwrapped (mkdir ''/foobar'' [])) (\<lambda>_.
     assert_err (mkdir ''/foobar'' []) (NameAlreadyExists ''/foobar''))"

definition test_create :: test where
  "test_create =
     then_do (unwrapped (create ''/foobar'' [])) (\<lambda>foo.
     then_do (assert_fs (\<lambda>fs. entry_of root_index ''foobar'' fs = Some (NodeFile foo))) (\<lambda>_.
     then_do (alive_is [(root_index, ''/'')] [(foo, ''/foobar'')] [] []) (\<lambda>_.
     then_do (recorded
       [OpCreate ''/foobar'' []]) (\<lambda>_.
     test_replay))))"

definition test_create_name_exists :: test where
  "test_create_name_exists =
     then_do (unwrapped (create ''/foobar'' [])) (\<lambda>_.
     assert_err (create ''/foobar'' []) (NameAlreadyExists ''/foobar''))"

definition test_remove_file :: test where
  "test_remove_file =
     then_do (unwrapped (create ''/foobar'' [])) (\<lambda>foo.
     then_do (unwrapped (create ''/boo'' [])) (\<lambda>boo.
     then_do (alive_is [(root_index, ''/'')] [(foo, ''/foobar''), (boo, ''/boo'')] [] []) (\<lambda>_.
     then_do (unwrapped (remove ''/foobar'')) (\<lambda>_.
     then_do (assert_fs (\<lambda>fs. entries_of root_index fs = 1)) (\<lambda>_.
     then_do (assert_fs (\<lambda>fs. entry_of root_index ''boo'' fs = Some (NodeFile boo))) (\<lambda>_.
     then_do (alive_is [(root_index, ''/'')] [(boo, ''/boo'')] [] []) (\<lambda>_.
     then_do (recorded
       [OpCreate ''/foobar'' [],
        OpCreate ''/boo'' [],
        OpRemove ''/foobar'']) (\<lambda>_.
     test_replay))))))))"

definition test_hardlink :: test where
  "test_hardlink =
     then_do (unwrapped (create ''/foo'' [])) (\<lambda>foo.
     then_do (unwrapped (mkdir ''/bar'' [])) (\<lambda>bar.
     then_do (unwrapped (hardlink ''/foo'' ''/bar/boo'')) (\<lambda>boo.
     then_do (assert_that (foo = boo)) (\<lambda>_.
     then_do (alive_is [(root_index, ''/''), (bar, ''/bar'')] [(boo, ''/bar/boo''), (foo, ''/foo'')] [] []) (\<lambda>_.
     then_do (assert_fs (\<lambda>fs. entries_of root_index fs = 2)) (\<lambda>_.
     then_do (assert_fs (\<lambda>fs. entries_of bar fs = 1)) (\<lambda>_.
     then_do (assert_fs (\<lambda>fs. entry_of root_index ''foo'' fs \<noteq> None
         \<and> entry_of root_index ''foo'' fs = entry_of bar ''boo'' fs)) (\<lambda>_.
     then_do (recorded
       [OpCreate ''/foo'' [],
        OpMkDir ''/bar'' [],
        OpHardlink ''/foo'' ''/bar/boo'']) (\<lambda>_.
     test_replay)))))))))"

definition test_remove_hardlink :: test where
  "test_remove_hardlink =
     then_do (unwrapped (create ''/foo'' [])) (\<lambda>foo.
     then_do (unwrapped (hardlink ''/foo'' ''/bar'')) (\<lambda>_.
     then_do (unwrapped (remove ''/bar'')) (\<lambda>_.
     then_do (alive_is [(root_index, ''/'')] [(foo, ''/foo'')] [] []) (\<lambda>_.
     then_do (assert_fs (\<lambda>fs. entries_of root_index fs = 1)) (\<lambda>_.
     then_do (recorded
       [OpCreate ''/foo'' [],
        OpHardlink ''/foo'' ''/bar'',
        OpRemove ''/bar'']) (\<lambda>_.
     test_replay))))))"

definition test_remove_hardlink_dir :: test where
  "test_remove_hardlink_dir =
     then_do (unwrapped (create ''/0'' [])) (\<lambda>zero.
     then_do (unwrapped (mkdir ''/1'' [])) (\<lambda>one.
     then_do (unwrapped (mkdir ''/1/2'' [])) (\<lambda>two.
     then_do (unwrapped (hardlink ''/0'' ''/1/2/3'')) (\<lambda>_.
     then_do (assert_fs (\<lambda>fs. resolve_file fs ''/1/2/3'' = Ok ([root_index, one, two], zero))) (\<lambda>_.
     then_do (unwrapped (remove ''/1'')) (\<lambda>_.
     then_do (assert_fs (\<lambda>fs. resolve_file fs ''/1/2/3'' = Err (NotFound ''/1''))) (\<lambda>_.
     assert_fs (\<lambda>fs. resolve_file fs ''/0'' = Ok ([root_index], zero)))))))))"

definition test_hardlink_name_exists :: test where
  "test_hardlink_name_exists =
     then_do (unwrapped (create ''/foo'' [])) (\<lambda>_.
     then_do (unwrapped (create ''/bar'' [])) (\<lambda>_.
     assert_err (hardlink ''/bar'' ''/foo'') (NameAlreadyExists ''/foo'')))"

definition test_remove_dir :: test where
  "test_remove_dir =
     then_do (unwrapped (mkdir ''/foobar'' [])) (\<lambda>foo.
     then_do (unwrapped (mkdir ''/boo'' [])) (\<lambda>boo.
     then_do (alive_is [(root_index, ''/''), (foo, ''/foobar''), (boo, ''/boo'')] [] [] []) (\<lambda>_.
     then_do (unwrapped (remove ''/foobar'')) (\<lambda>_.
     then_do (assert_fs (\<lambda>fs. entries_of root_index fs = 1)) (\<lambda>_.
     then_do (assert_fs (\<lambda>fs. entry_of root_index ''boo'' fs = Some (NodeDir boo))) (\<lambda>_.
     then_do (alive_is [(root_index, ''/''), (boo, ''/boo'')] [] [] []) (\<lambda>_.
     then_do (recorded
       [OpMkDir ''/foobar'' [],
        OpMkDir ''/boo'' [],
        OpRemove ''/foobar'']) (\<lambda>_.
     test_replay))))))))"

definition test_remove_twice :: test where
  "test_remove_twice =
     then_do (unwrapped (create ''/0'' [])) (\<lambda>_.
     then_do (unwrapped (remove ''/0'')) (\<lambda>_.
     assert_err (remove ''/0'') (NotFound ''/0'')))"

definition test_rename_file :: test where
  "test_rename_file =
     then_do (unwrapped (create ''/foo'' [])) (\<lambda>foo.
     then_do (unwrapped (rename ''/foo'' ''/bar'')) (\<lambda>_.
     then_do (alive_is [(root_index, ''/'')] [(foo, ''/bar'')] [] []) (\<lambda>_.
     then_do (recorded
       [OpCreate ''/foo'' [],
        OpRename ''/foo'' ''/bar'']) (\<lambda>_.
     test_replay))))"

definition test_rename_dir :: test where
  "test_rename_dir =
     then_do (unwrapped (mkdir ''/foo'' [])) (\<lambda>foo.
     then_do (unwrapped (rename ''/foo'' ''/bar'')) (\<lambda>_.
     then_do (alive_is [(root_index, ''/''), (foo, ''/bar'')] [] [] []) (\<lambda>_.
     then_do (recorded
       [OpMkDir ''/foo'' [],
        OpRename ''/foo'' ''/bar'']) (\<lambda>_.
     test_replay))))"

definition test_rename_dir_non_empty :: test where
  "test_rename_dir_non_empty =
     then_do (unwrapped (mkdir ''/foo'' [])) (\<lambda>_.
     then_do (unwrapped (mkdir ''/bar'' [])) (\<lambda>_.
     then_do (unwrapped (create ''/bar/baz'' [])) (\<lambda>_.
     then_do (assert_err (rename ''/foo'' ''/bar'') (DirNotEmpty ''/bar'')) (\<lambda>_.
     then_do (unwrapped (remove ''/bar/baz'')) (\<lambda>_.
     then_do (unwrapped (rename ''/foo'' ''/bar'')) (\<lambda>_.
     return ()))))))"

definition test_rename_to_subdirectory :: test where
  "test_rename_to_subdirectory =
     then_do (unwrapped (mkdir ''/0'' [])) (\<lambda>_.
     assert_err (rename ''/0'' ''/0/1'') (RenameToSubdirectoryError ''/0'' ''/0/1''))"

definition test_rename_to_subdirectory_symlink :: test where
  "test_rename_to_subdirectory_symlink =
     then_do (unwrapped (mkdir ''/0'' [])) (\<lambda>_.
     then_do (unwrapped (make_symlink ''/0'' ''/symlink'')) (\<lambda>_.
     assert_err (rename ''/0'' ''/symlink/1'') (RenameToSubdirectoryError ''/0'' ''/symlink/1'')))"

definition test_open_close_file :: test where
  "test_open_close_file =
     then_do (unwrapped (create ''/foo'' [])) (\<lambda>foo.
     then_do (unwrapped (open_file ''/foo'')) (\<lambda>des.
     then_do (assert_fs (\<lambda>fs. descriptor_of foo fs = Some (Some des))) (\<lambda>_.
     then_do (unwrapped (close_fd des)) (\<lambda>_.
     then_do (assert_fs (\<lambda>fs. descriptor_of foo fs = Some None)) (\<lambda>_.
     then_do (recorded
       [OpCreate ''/foo'' [],
        OpOpen ''/foo'' des,
        OpClose des]) (\<lambda>_.
     test_replay))))))"

definition test_close_bad_descriptor :: test where
  "test_close_bad_descriptor =
     assert_err (close_fd (FileDescriptorIndex 0)) (BadDescriptor (FileDescriptorIndex 0) 0)"

definition test_close_twice :: test where
  "test_close_twice =
     then_do (unwrapped (create ''/foo'' [])) (\<lambda>_.
     then_do (unwrapped (open_file ''/foo'')) (\<lambda>des.
     then_do (unwrapped (close_fd des)) (\<lambda>_.
     assert_err (close_fd des) (DescriptorWasClosed des))))"

definition test_open_twice :: test where
  "test_open_twice =
     then_do (unwrapped (create ''/foo'' [])) (\<lambda>_.
     then_do (unwrapped (open_file ''/foo'')) (\<lambda>_.
     assert_err (open_file ''/foo'') (FileAlreadyOpened ''/foo'')))"

definition test_read_bad_descriptor :: test where
  "test_read_bad_descriptor =
     assert_err (read_fd (FileDescriptorIndex 0) 0) (BadDescriptor (FileDescriptorIndex 0) 0)"

definition test_read_closed :: test where
  "test_read_closed =
     then_do (unwrapped (create ''/foo'' [])) (\<lambda>_.
     then_do (unwrapped (open_file ''/foo'')) (\<lambda>des.
     then_do (unwrapped (close_fd des)) (\<lambda>_.
     assert_err (read_fd des 0) (DescriptorWasClosed des))))"

definition test_read_empty :: test where
  "test_read_empty =
     then_do (unwrapped (create ''/foo'' [])) (\<lambda>_.
     then_do (unwrapped (open_file ''/foo'')) (\<lambda>des.
     then_do (unwrapped (read_fd des 1024)) (\<lambda>content.
     then_do (unwrapped (close_fd des)) (\<lambda>_.
     then_do (assert_that (content = content_new)) (\<lambda>_.
     then_do (recorded
       [OpCreate ''/foo'' [],
        OpOpen ''/foo'' des,
        OpRead des 1024,
        OpClose des]) (\<lambda>_.
     test_replay))))))"

definition test_write_bad_descriptor :: test where
  "test_write_bad_descriptor =
     assert_err (write_fd (FileDescriptorIndex 0) 0 0) (BadDescriptor (FileDescriptorIndex 0) 0)"

definition test_write_closed :: test where
  "test_write_closed =
     then_do (unwrapped (create ''/foo'' [])) (\<lambda>_.
     then_do (unwrapped (open_file ''/foo'')) (\<lambda>des.
     then_do (unwrapped (close_fd des)) (\<lambda>_.
     assert_err (write_fd des 0 0) (DescriptorWasClosed des))))"

definition test_write :: test where
  "test_write =
     then_do (unwrapped (create ''/foo'' [])) (\<lambda>foo.
     then_do (unwrapped (open_file ''/foo'')) (\<lambda>des.
     then_do (unwrapped (write_fd des 999 1024)) (\<lambda>_.
     then_do (unwrapped (close_fd des)) (\<lambda>_.
     then_do (assert_fs (\<lambda>fs. slices_of foo fs = Some [\<lparr>slice_from = 999, slice_to = 999 + 1024 - 1\<rparr>])) (\<lambda>_.
     then_do (recorded
       [OpCreate ''/foo'' [],
        OpOpen ''/foo'' des,
        OpWrite des 999 1024,
        OpClose des]) (\<lambda>_.
     test_replay))))))"

definition test_write_rewrite :: test where
  "test_write_rewrite =
     then_do (unwrapped (create ''/foo'' [])) (\<lambda>foo.
     then_do (unwrapped (open_file ''/foo'')) (\<lambda>des_1.
     then_do (unwrapped (write_fd des_1 13 100)) (\<lambda>_.
     then_do (unwrapped (close_fd des_1)) (\<lambda>_.
     then_do (unwrapped (open_file ''/foo'')) (\<lambda>des_2.
     then_do (unwrapped (write_fd des_2 42 55)) (\<lambda>_.
     then_do (unwrapped (close_fd des_2)) (\<lambda>_.
     then_do (assert_fs (\<lambda>fs. slices_of foo fs = Some [\<lparr>slice_from = 42, slice_to = 42 + 55 - 1\<rparr>, \<lparr>slice_from = 13 + 55, slice_to = 13 + 100 - 1\<rparr>])) (\<lambda>_.
     then_do (recorded
       [OpCreate ''/foo'' [],
        OpOpen ''/foo'' des_1,
        OpWrite des_1 13 100,
        OpClose des_1,
        OpOpen ''/foo'' des_2,
        OpWrite des_2 42 55,
        OpClose des_2]) (\<lambda>_.
     test_replay)))))))))"

definition test_read :: test where
  "test_read =
     then_do (unwrapped (create ''/foo'' [])) (\<lambda>_.
     then_do (unwrapped (open_file ''/foo'')) (\<lambda>des_write.
     then_do (unwrapped (write_fd des_write 13 100)) (\<lambda>_.
     then_do (unwrapped (write_fd des_write 42 55)) (\<lambda>_.
     then_do (unwrapped (close_fd des_write)) (\<lambda>_.
     then_do (unwrapped (open_file ''/foo'')) (\<lambda>des_read.
     then_do (then_do (unwrapped (read_fd des_read 0)) (\<lambda>c. assert_that (slices c = []))) (\<lambda>_.
     then_do (then_do (unwrapped (read_fd des_read 10)) (\<lambda>c. assert_that (slices c = [\<lparr>slice_from = 13, slice_to = 13 + 10 - 1\<rparr>]))) (\<lambda>_.
     then_do (then_do (unwrapped (read_fd des_read 10)) (\<lambda>c. assert_that (slices c = [\<lparr>slice_from = (13 + 10), slice_to = (13 + 10) + 10 - 1\<rparr>]))) (\<lambda>_.
     then_do (then_do (unwrapped (read_fd des_read 1024)) (\<lambda>c. assert_that (slices c = [\<lparr>slice_from = (13 + 20), slice_to = 13 + 100 - 1\<rparr>, \<lparr>slice_from = 42, slice_to = 42 + 55 - 1\<rparr>]))) (\<lambda>_.
     then_do (unwrapped (close_fd des_read)) (\<lambda>_.
     then_do (recorded
       [OpCreate ''/foo'' [],
        OpOpen ''/foo'' des_write,
        OpWrite des_write 13 100,
        OpWrite des_write 42 55,
        OpClose des_write,
        OpOpen ''/foo'' des_read,
        OpRead des_read 0,
        OpRead des_read 10,
        OpRead des_read 10,
        OpRead des_read 1024,
        OpClose des_read]) (\<lambda>_.
     test_replay))))))))))))"

definition test_fsync_bad_descriptor :: test where
  "test_fsync_bad_descriptor =
     assert_err (fsync_fd (FileDescriptorIndex 0)) (BadDescriptor (FileDescriptorIndex 0) 0)"

definition test_fsync_closed :: test where
  "test_fsync_closed =
     then_do (unwrapped (create ''/foo'' [])) (\<lambda>_.
     then_do (unwrapped (open_file ''/foo'')) (\<lambda>des.
     then_do (unwrapped (close_fd des)) (\<lambda>_.
     assert_err (fsync_fd des) (DescriptorWasClosed des))))"

definition test_fsync :: test where
  "test_fsync =
     then_do (unwrapped (create ''/foo'' [])) (\<lambda>_.
     then_do (unwrapped (open_file ''/foo'')) (\<lambda>des.
     then_do (unwrapped (fsync_fd des)) (\<lambda>_.
     then_do (unwrapped (close_fd des)) (\<lambda>_.
     then_do (recorded
       [OpCreate ''/foo'' [],
        OpOpen ''/foo'' des,
        OpFSync des,
        OpClose des]) (\<lambda>_.
     test_replay)))))"

definition test_symlink :: test where
  "test_symlink =
     then_do (unwrapped (mkdir ''/foo'' [])) (\<lambda>foo.
     then_do (unwrapped (create ''/foo/bar'' [])) (\<lambda>bar.
     then_do (unwrapped (make_symlink ''/foo'' ''/baz'')) (\<lambda>_.
     then_do (alive_is [(root_index, ''/''), (foo, ''/baz''), (foo, ''/foo'')] [(bar, ''/baz/bar''), (bar, ''/foo/bar'')] [] [''/baz'']) (\<lambda>_.
     then_do (recorded
       [OpMkDir ''/foo'' [],
        OpCreate ''/foo/bar'' [],
        OpSymlink ''/foo'' ''/baz'']) (\<lambda>_.
     test_replay)))))"

definition test_symlink_name_exists :: test where
  "test_symlink_name_exists =
     then_do (unwrapped (create ''/foo'' [])) (\<lambda>_.
     then_do (unwrapped (create ''/bar'' [])) (\<lambda>_.
     assert_err (make_symlink ''/foo'' ''/bar'') (NameAlreadyExists ''/bar'')))"

definition test_symlink_recursion :: test where
  "test_symlink_recursion =
     then_do (unwrapped (mkdir ''/foo'' [])) (\<lambda>foo.
     then_do (unwrapped (make_symlink ''/foo'' ''/foo/bar'')) (\<lambda>_.
     alive_is [(root_index, ''/''), (foo, ''/foo''), (foo, ''/foo/bar''), (foo, ''/foo/bar/bar'')] [] [] [''/foo/bar'', ''/foo/bar/bar'']))"

definition test_symlink_to_symlink :: test where
  "test_symlink_to_symlink =
     then_do (unwrapped (create ''/foo'' [])) (\<lambda>foo.
     then_do (unwrapped (make_symlink ''/foo'' ''/bar'')) (\<lambda>_.
     then_do (unwrapped (make_symlink ''/bar'' ''/boo'')) (\<lambda>_.
     alive_is [(root_index, ''/'')] [(foo, ''/foo'')] [(foo, ''/bar''), (foo, ''/boo'')] [''/bar'', ''/boo''])))"

definition test_symlink_to_symlink_recursive :: test where
  "test_symlink_to_symlink_recursive =
     then_do (unwrapped (make_symlink ''/foo'' ''/bar'')) (\<lambda>_.
     then_do (unwrapped (make_symlink ''/bar'' ''/foo'')) (\<lambda>_.
     alive_is [(root_index, ''/'')] [] [] [''/bar'', ''/foo'']))"

definition test_remove_symlink :: test where
  "test_remove_symlink =
     then_do (unwrapped (create ''/foo'' [])) (\<lambda>foo.
     then_do (unwrapped (make_symlink ''/foo'' ''/bar'')) (\<lambda>_.
     then_do (unwrapped (remove ''/bar'')) (\<lambda>_.
     then_do (alive_is [(root_index, ''/'')] [(foo, ''/foo'')] [] []) (\<lambda>_.
     test_replay))))"

definition test_rename_symlink :: test where
  "test_rename_symlink =
     then_do (unwrapped (create ''/foo'' [])) (\<lambda>foo.
     then_do (unwrapped (make_symlink ''/foo'' ''/bar'')) (\<lambda>_.
     then_do (unwrapped (rename ''/bar'' ''/baz'')) (\<lambda>_.
     then_do (alive_is [(root_index, ''/'')] [(foo, ''/foo'')] [(foo, ''/baz'')] [''/baz'']) (\<lambda>_.
     test_replay))))"

definition test_rename_symlink_overwrite :: test where
  "test_rename_symlink_overwrite =
     then_do (unwrapped (create ''/foo'' [])) (\<lambda>foo.
     then_do (unwrapped (make_symlink ''/foo'' ''/bar'')) (\<lambda>_.
     then_do (unwrapped (rename ''/foo'' ''/bar'')) (\<lambda>_.
     then_do (alive_is [(root_index, ''/'')] [(foo, ''/bar'')] [] []) (\<lambda>_.
     test_replay))))"

definition test_hardlink_to_symlink :: test where
  "test_hardlink_to_symlink =
     then_do (unwrapped (create ''/foo'' [])) (\<lambda>_.
     then_do (unwrapped (make_symlink ''/foo'' ''/bar'')) (\<lambda>_.
     then_do (assert_err (hardlink ''/bar'' ''/boo'') (HardlinkToSymlinkForbidden ''/bar'')) (\<lambda>_.
     test_replay)))"

definition test_resolve_node :: test where
  "test_resolve_node =
     then_do (assert_fs (\<lambda>fs. resolve_node fs ''/'' True = Ok ([], NodeDir root_index))) (\<lambda>_.
     then_do (unwrapped (mkdir ''/foo'' [])) (\<lambda>foo.
     then_do (unwrapped (mkdir ''/foo/bar'' [])) (\<lambda>bar.
     then_do (unwrapped (create ''/foo/bar/boo'' [])) (\<lambda>boo.
     then_do (assert_fs (\<lambda>fs. resolve_node fs [] True = Err (InvalidPath []))) (\<lambda>_.
     then_do (assert_fs (\<lambda>fs. resolve_node fs ''foo'' True = Err (InvalidPath ''foo''))) (\<lambda>_.
     then_do (assert_fs (\<lambda>fs. resolve_node fs ''/foo/'' True = Err (InvalidPath ''/foo/''))) (\<lambda>_.
     then_do (assert_fs (\<lambda>fs. resolve_node fs ''/foo'' True = Ok ([root_index], NodeDir foo))) (\<lambda>_.
     then_do (assert_fs (\<lambda>fs. resolve_node fs ''/foo/bar'' True = Ok ([root_index, foo], NodeDir bar))) (\<lambda>_.
     then_do (assert_fs (\<lambda>fs. resolve_node fs ''/foo/bar/boo'' True = Ok ([root_index, foo, bar], NodeFile boo))) (\<lambda>_.
     test_replay))))))))))"

definition test_resolve_node_symlinks :: test where
  "test_resolve_node_symlinks =
     then_do (unwrapped (mkdir ''/foo'' [])) (\<lambda>foo.
     then_do (unwrapped (create ''/foo/bar'' [])) (\<lambda>bar.
     then_do (unwrapped (make_symlink ''/foo'' ''/foos'')) (\<lambda>foos.
     then_do (assert_fs (\<lambda>fs. resolve_node fs ''/foo'' True = Ok ([root_index], NodeDir foo))) (\<lambda>_.
     then_do (assert_fs (\<lambda>fs. resolve_node fs ''/foos'' True = Ok ([root_index, root_index], NodeDir foo))) (\<lambda>_.
     then_do (assert_fs (\<lambda>fs. resolve_node fs ''/foos'' False = Ok ([root_index], NodeSymlink foos))) (\<lambda>_.
     then_do (assert_fs (\<lambda>fs. resolve_node fs ''/foo/bar'' True = Ok ([root_index, foo], NodeFile bar))) (\<lambda>_.
     then_do (assert_fs (\<lambda>fs. resolve_node fs ''/foos/bar'' True = Ok ([root_index, root_index, foo], NodeFile bar))) (\<lambda>_.
     then_do (assert_fs (\<lambda>fs. resolve_node fs ''/foos/bar'' False = Ok ([root_index, root_index, foo], NodeFile bar))) (\<lambda>_.
     test_replay)))))))))"

subsection \<open>The tests pass\<close>

definition fs_tests_1 :: "test list" where
  "fs_tests_1 =
     [test_init_root, test_remove_root, test_mkdir, test_mkdir_name_exists, test_create,
      test_create_name_exists, test_remove_file, test_hardlink, test_remove_hardlink,
      test_remove_hardlink_dir, test_hardlink_name_exists]"

definition fs_tests_2 :: "test list" where
  "fs_tests_2 =
     [test_remove_dir, test_remove_twice, test_rename_file, test_rename_dir,
      test_rename_dir_non_empty, test_rename_to_subdirectory, test_rename_to_subdirectory_symlink,
      test_open_close_file, test_close_bad_descriptor, test_close_twice, test_open_twice]"

definition fs_tests_3 :: "test list" where
  "fs_tests_3 =
     [test_read_bad_descriptor, test_read_closed, test_read_empty, test_write_bad_descriptor,
      test_write_closed, test_write, test_write_rewrite, test_read, test_fsync_bad_descriptor,
      test_fsync_closed, test_fsync]"

definition fs_tests_4 :: "test list" where
  "fs_tests_4 =
     [test_symlink, test_symlink_name_exists, test_symlink_recursion, test_symlink_to_symlink,
      test_symlink_to_symlink_recursive, test_remove_symlink, test_rename_symlink,
      test_rename_symlink_overwrite, test_hardlink_to_symlink, test_resolve_node,
      test_resolve_node_symlinks]"

lemma fs_tests_1_pass: "list_all passes fs_tests_1"
  by code_simp

lemma fs_tests_2_pass: "list_all passes fs_tests_2"
  by code_simp

lemma fs_tests_3_pass: "list_all passes fs_tests_3"
  by code_simp

lemma fs_tests_4_pass: "list_all passes fs_tests_4"
  by code_simp

end
