(* ===== verification/Unit_Tests.thy ===== *)
theory Unit_Tests
  imports FS_Tests Encode Markdown Examples
begin

text \<open>
  The unit tests of the other modules, run on the model: file contents, the encoder, the removal of an operation, the
  trace parser, the coverage parsers and Markdown. An \<open>assert_eq!\<close> is an equation, and \<open>text_of\<close> joins the lines of
  a raw string.
\<close>

definition text_of :: "string list \<Rightarrow> string" where
  "text_of ls = str_join [newline] ls"

definition content_test_read_empty :: bool where
  "content_test_read_empty \<longleftrightarrow>
     (let content = content_new in
     (case content_read 0 0 content of Ok c \<Rightarrow> slices content_new = slices c | _ \<Rightarrow> False))"

definition content_test_read_bad_offset :: bool where
  "content_test_read_bad_offset \<longleftrightarrow>
     (let content = content_new in
     content_read 42 0 content = Err (BadOffset 42 0))"

definition content_test_read_from_start :: bool where
  "content_test_read_from_start \<longleftrightarrow>
     (let content = content_new in
     (let content = write_back 42 100 content in
     (let content = write_back 1 2 content in
     (let content = write_back 13 55 content in
     content_read 0 1024 content = Ok content))))"

definition content_test_read_from_middle :: bool where
  "content_test_read_from_middle \<longleftrightarrow>
     (let content = content_new in
     (let content = write_back 42 100 content in
     (let content = write_back 1 2 content in
     (let content = write_back 13 55 content in
     (let expected = content_new in
     (let expected = write_back (42 + 95) 5 expected in
     (let expected = write_back 1 2 expected in
     (let expected = write_back 13 (10 - 5 - 2) expected in
     content_read 95 10 content = Ok expected))))))))"

definition content_test_read_end :: bool where
  "content_test_read_end \<longleftrightarrow>
     (let content = content_new in
     (let content = write_back 42 100 content in
     (let content = write_back 1 2 content in
     content_read 102 1024 content = Ok content_new)))"

definition content_test_write_empty :: bool where
  "content_test_write_empty \<longleftrightarrow>
     (let content = content_new in
     (case content_write 42 0 100 content of
        Ok content \<Rightarrow>
     (let expected = content_new in
     (let expected = write_back 42 100 expected in
     expected = content)) | _ \<Rightarrow> False))"

definition content_test_write_bad_offset :: bool where
  "content_test_write_bad_offset \<longleftrightarrow>
     (let content = content_new in
     content_write 0 42 0 content = Err (BadOffset 42 0))"

definition content_test_write_in_middle :: bool where
  "content_test_write_in_middle \<longleftrightarrow>
     (let content = content_new in
     (let content = write_back 42 100 content in
     (let content = write_back 1 2 content in
     (let content = write_back 13 55 content in
     (case content_write 77 33 10 content of
        Ok content \<Rightarrow>
     (let expected = content_new in
     (let expected = write_back 42 33 expected in
     (let expected = write_back 77 10 expected in
     (let expected = write_back (42 + 33 + 10) (100 - 33 - 10) expected in
     (let expected = write_back 1 2 expected in
     (let expected = write_back 13 55 expected in
     expected = content)))))) | _ \<Rightarrow> False)))))"

definition content_test_write_append :: bool where
  "content_test_write_append \<longleftrightarrow>
     (let content = content_new in
     (let content = write_back 42 100 content in
     (case content_write 13 100 55 content of
        Ok content \<Rightarrow>
     (let expected = content_new in
     (let expected = write_back 42 100 expected in
     (let expected = write_back 13 55 expected in
     expected = content))) | _ \<Rightarrow> False)))"

definition content_test_write_single :: bool where
  "content_test_write_single \<longleftrightarrow>
     (let content = content_new in
     (let content = write_back 1000 1 content in
     (case content_write 1000 0 1 content of
        Ok content \<Rightarrow>
     (let expected = content_new in
     (let expected = write_back 1000 1 expected in
     expected = content)) | _ \<Rightarrow> False)))"

definition content_test_write_overwrite :: bool where
  "content_test_write_overwrite \<longleftrightarrow>
     (let content = content_new in
     (let content = write_back 0 4096 content in
     (case content_write 512 0 100000 content of
        Ok content \<Rightarrow>
     (let expected = content_new in
     (let expected = write_back 512 100000 expected in
     expected = content)) | _ \<Rightarrow> False)))"

definition encode_test_encode_c_empty :: bool where
  "encode_test_encode_c_empty \<longleftrightarrow>
     encode_c \<lparr>ops = []\<rparr> = text_of
      [''#include '' @ [CHR 0x22] @ ''executor.h'' @ [CHR 0x22],
       [],
       ''// no descriptors'',
       [],
       ''void test_workload()'',
       ''{'',
       ''}'']"

definition encode_test_encode_c :: bool where
  "encode_test_encode_c \<longleftrightarrow>
     encode_c \<lparr>ops =
       [OpMkDir ''/foo'' [],
        OpCreate ''/foo/bar'' [S_IRWXU, S_IRWXG, S_IROTH, S_IXOTH],
        OpOpen ''/foo/bar'' (FileDescriptorIndex 0),
        OpWrite (FileDescriptorIndex 0) 999 1024,
        OpClose (FileDescriptorIndex 0),
        OpHardlink ''/foo/bar'' ''/baz'',
        OpOpen ''/baz'' (FileDescriptorIndex 1),
        OpRead (FileDescriptorIndex 1) 1024,
        OpFSync (FileDescriptorIndex 1),
        OpClose (FileDescriptorIndex 1),
        OpRename ''/baz'' ''/gaz'',
        OpSymlink ''/foo'' ''/moo'',
        OpRemove ''/foo'']\<rparr>
     = text_of
      [''#include '' @ [CHR 0x22] @ ''executor.h'' @ [CHR 0x22],
       [],
       ''int fd_0, fd_1;'',
       [],
       ''void test_workload()'',
       ''{'',
       ''do_mkdir('' @ [CHR 0x22] @ ''/foo'' @ [CHR 0x22] @ '', 0);'',
       ''do_create('' @ [CHR 0x22] @ ''/foo/bar'' @ [CHR 0x22] @ '', S_IRWXU | S_IRWXG | S_IROTH | S_IXOTH);'',
       ''fd_0 = do_open('' @ [CHR 0x22] @ ''/foo/bar'' @ [CHR 0x22] @ '');'',
       ''do_write(fd_0, 999, 1024);'',
       ''do_close(fd_0);'',
       ''do_hardlink('' @ [CHR 0x22] @ ''/foo/bar'' @ [CHR 0x22] @ '', '' @ [CHR 0x22] @ ''/baz'' @ [CHR 0x22] @ '');'',
       ''fd_1 = do_open('' @ [CHR 0x22] @ ''/baz'' @ [CHR 0x22] @ '');'',
       ''do_read(fd_1, 1024);'',
       ''do_fsync(fd_1);'',
       ''do_close(fd_1);'',
       ''do_rename('' @ [CHR 0x22] @ ''/baz'' @ [CHR 0x22] @ '', '' @ [CHR 0x22] @ ''/gaz'' @ [CHR 0x22] @ '');'',
       ''do_symlink('' @ [CHR 0x22] @ ''/foo'' @ [CHR 0x22] @ '', '' @ [CHR 0x22] @ ''/moo'' @ [CHR 0x22] @ '');'',
       ''do_remove('' @ [CHR 0x22] @ ''/foo'' @ [CHR 0x22] @ '');'',
       ''}'']"

definition mutator_test_remove :: bool where
  "mutator_test_remove \<longleftrightarrow>
     (let w = \<lparr>ops = [OpMkDir ''/foobar'' [], OpCreate ''/foobar/boo'' [], OpCreate ''/foobar/zoo'' []]\<rparr>
      in mutator_remove w 0 = Ok None
         \<and> mutator_remove w 1 = Ok (Some \<lparr>ops = [OpMkDir ''/foobar'' [], OpCreate ''/foobar/zoo'' []]\<rparr>))"

definition mutator_test_append :: bool where
  "mutator_test_append \<longleftrightarrow>
     (let w = \<lparr>ops = [OpMkDir ''/foobar'' [], OpCreate ''/foobar/boo'' [], OpRemove ''/foobar/boo'']\<rparr>
      in (case mutator_insert 1 demo_rng 0 w 1 [(KRemove, 100)] of Some (Ok None, _) \<Rightarrow> True | _ \<Rightarrow> False)
         \<and> (case mutator_insert 1 demo_rng 0 w 3 [(KRemove, 100)] of
              Some (Ok (Some w'), _) \<Rightarrow>
                w' = \<lparr>ops = [OpMkDir ''/foobar'' [], OpCreate ''/foobar/boo'' [], OpRemove ''/foobar/boo'',
                        OpRemove ''/foobar'']\<rparr>
            | _ \<Rightarrow> False))"

definition trace_test_empty_trace :: bool where
  "trace_test_empty_trace \<longleftrightarrow>
     try_parse [] = Err EmptyTrace"

definition trace_test_header_only :: bool where
  "trace_test_header_only \<longleftrightarrow>
     try_parse (''Index,Command,ReturnCode,Errno'' @ [newline]) = Ok \<lparr>rows = []\<rparr>"

definition trace_test_invalid_columns_count :: bool where
  "trace_test_invalid_columns_count \<longleftrightarrow>
     try_parse (text_of
      [''Index,Command,ReturnCode,Errno,Extra'',
       ''    1,    Foo,        42,Success(0),a=1, ???'',
       ''    2,    Bar,        -1,Error(42),b=2'']) = Err InvalidColumnNumber"

definition trace_test_ok_trace :: bool where
  "trace_test_ok_trace \<longleftrightarrow>
     try_parse (text_of
      [''Index,Command,ReturnCode,Errno,Extra'',
       ''    1,    Foo,        42,Success(0),a=1'',
       ''    2,    Bar,        -1,Error(42),b=2''])
     = Ok \<lparr>rows =
       [\<lparr>tr_index = 1, tr_command = ''Foo'', tr_return_code = 42,
         tr_errno = \<lparr>errno_name = ''Success'', errno_code = 0\<rparr>, tr_extra = ''a=1'',
         tr_source = ''    1,    Foo,        42,Success(0),a=1''\<rparr>,
        \<lparr>tr_index = 2, tr_command = ''Bar'', tr_return_code = -1,
         tr_errno = \<lparr>errno_name = ''Error'', errno_code = 42\<rparr>, tr_extra = ''b=2'',
         tr_source = ''    2,    Bar,        -1,Error(42),b=2''\<rparr>]\<rparr>"

definition trace_test_invalid_errno_no_brackets :: bool where
  "trace_test_invalid_errno_no_brackets \<longleftrightarrow>
     try_parse (text_of
      [''Index,Command,ReturnCode,Errno,Extra'',
       ''            1,    Foo,        42,Success 0,a=1'',
       ''            2,    Bar,        -1,Error(42),b=2'']) = Err (InvalidErrno ''Success 0'')"

definition lcov_test_parse_lcov :: bool where
  "lcov_test_parse_lcov \<longleftrightarrow>
     lcov_parse (text_of
      [''TN:'', ''SF:/root/littlefs-fuse/littlefs/lfs_util.c'', ''FN:17,lfs_crc'', ''FNDA:65,lfs_crc'', ''DA:17,65'',
       ''DA:25,65'', ''DA:27,317'', ''DA:28,252'', ''DA:29,252'', ''DA:32,65'', ''end_of_record'', ''TN:'',
       ''SF:/root/littlefs-fuse/littlefs/lfs_util.h'', ''FN:126,lfs_max'', ''FNDA:42,lfs_max'',
       ''FN:130,lfs_min'', ''FNDA:143,lfs_min'', ''FN:135,lfs_aligndown'', ''FNDA:17,lfs_aligndown'',
       ''FN:139,lfs_alignup'', ''FNDA:10,lfs_alignup'', ''FN:144,lfs_npw2'', ''FNDA:1,lfs_npw2'',
       ''FN:161,lfs_ctz'', ''FNDA:0,lfs_ctz'', ''FN:170,lfs_popc'', ''FNDA:0,lfs_popc'', ''FN:182,lfs_scmp'',
       ''FNDA:2,lfs_scmp'', ''FN:187,lfs_fromle32'', ''FNDA:18,lfs_fromle32'', ''FN:205,lfs_tole32'',
       ''FNDA:11,lfs_tole32'', ''FN:210,lfs_frombe32'', ''FNDA:18,lfs_frombe32'', ''FN:228,lfs_tobe32'',
       ''FNDA:6,lfs_tobe32'', ''FN:245,lfs_malloc'', ''FNDA:3,lfs_malloc'', ''FN:257,lfs_free'',
       ''FNDA:3,lfs_free'', ''DA:126,42'', ''DA:127,42'', ''DA:130,143'', ''DA:131,143'', ''DA:135,17'',
       ''DA:136,17'', ''DA:139,10'', ''DA:140,10'', ''DA:144,1'', ''DA:146,1'', ''DA:161,0'', ''DA:163,0'',
       ''DA:170,0'', ''DA:172,0'', ''DA:182,2'', ''DA:183,2'', ''DA:187,18'', ''DA:191,18'', ''DA:205,11'',
       ''DA:206,11'', ''DA:210,18'', ''DA:215,18'', ''DA:228,6'', ''DA:229,6'', ''DA:245,3'', ''DA:249,3'',
       ''DA:257,3'', ''DA:261,3'', ''DA:265,3'', ''end_of_record''])
     = [(''/root/littlefs-fuse/littlefs/lfs_util.c'',
         [(17, 65), (25, 65), (27, 317), (28, 252), (29, 252), (32, 65)]),
        (''/root/littlefs-fuse/littlefs/lfs_util.h'',
         [(126, 42), (127, 42), (130, 143), (131, 143), (135, 17), (136, 17), (139, 10), (140, 10), (144, 1),
         (146, 1), (182, 2), (183, 2), (187, 18), (191, 18), (205, 11), (206, 11), (210, 18), (215,
         18), (228, 6), (229, 6), (245, 3), (249, 3), (257, 3), (261, 3), (265, 3)])]"

definition kcov_test_parse_addr :: bool where
  "kcov_test_parse_addr \<longleftrightarrow>
     parse_addr ''0xffffffff81460712'' = Ok 18446744071583434514"

definition markdown_test_heading :: bool where
  "markdown_test_heading \<longleftrightarrow>
     md_heading (text_of [''some'', ''heading'']) (md_new (text_of [''some'', ''title'']))
     = text_of
      [''some title'',
       ''=========='',
       [],
       ''some heading'',
       ''------------'',
       [],
       []]"

definition markdown_test_paragraph :: bool where
  "markdown_test_paragraph \<longleftrightarrow>
     md_paragraph (text_of [[], ''first para'', ''second para'', []]) (md_new ''foobar'')
     = text_of
      [''foobar'',
       ''======'',
       [],
       ''first para'',
       [],
       ''second para'',
       [],
       []]"

definition markdown_test_codeblock :: bool where
  "markdown_test_codeblock \<longleftrightarrow>
     md_codeblock (language_of (''python'' @ replicate 4 backtick))
       (text_of [''fizz()'', replicate 4 backtick, ''buzz()'', [], []]) (md_new ''foobar'')
     = text_of
      [''foobar'',
       ''======'',
       [],
       [backtick] @ [backtick] @ [backtick] @ ''python????'',
       ''fizz()'',
       ''???'' @ [backtick],
       ''buzz()'',
       [],
       [],
       [backtick] @ [backtick] @ [backtick],
       [],
       []]"

subsection \<open>The tests pass\<close>

definition fs_tests :: "test list" where
  "fs_tests = fs_tests_1 @ fs_tests_2 @ fs_tests_3 @ fs_tests_4"

definition module_tests :: "bool list" where
  "module_tests =
     [content_test_read_empty, content_test_read_bad_offset, content_test_read_from_start,
      content_test_read_from_middle, content_test_read_end, content_test_write_empty,
      content_test_write_bad_offset, content_test_write_in_middle, content_test_write_append,
      content_test_write_single, content_test_write_overwrite, encode_test_encode_c_empty,
      encode_test_encode_c, mutator_test_remove, mutator_test_append, trace_test_empty_trace,
      trace_test_header_only, trace_test_invalid_columns_count, trace_test_ok_trace,
      trace_test_invalid_errno_no_brackets, lcov_test_parse_lcov, kcov_test_parse_addr,
      markdown_test_heading, markdown_test_paragraph, markdown_test_codeblock]"

lemma computed_tests_pass:
  "content_test_read_empty"
  "content_test_read_bad_offset"
  "content_test_read_from_start"
  "content_test_read_from_middle"
  "content_test_read_end"
  "content_test_write_empty"
  "content_test_write_bad_offset"
  "content_test_write_in_middle"
  "content_test_write_append"
  "content_test_write_single"
  "content_test_write_overwrite"
  "encode_test_encode_c_empty"
  "encode_test_encode_c"
  "mutator_test_remove"
  "mutator_test_append"
  "trace_test_empty_trace"
  "trace_test_header_only"
  "trace_test_invalid_columns_count"
  "trace_test_ok_trace"
  "trace_test_invalid_errno_no_brackets"
  "lcov_test_parse_lcov"
  "markdown_test_heading"
  "markdown_test_paragraph"
  "markdown_test_codeblock"
  by code_simp+

lemma kcov_test_passes: "kcov_test_parse_addr"
  by (simp add: kcov_test_parse_addr_def parse_addr_def trim_0x.simps parse_hex_def hex_value_def)

lemma module_tests_pass: "list_all (\<lambda>t. t) module_tests"
  by (simp add: module_tests_def computed_tests_pass kcov_test_passes)

lemma fs_tests_pass: "list_all passes fs_tests"
  by (simp add: fs_tests_def fs_tests_1_pass fs_tests_2_pass fs_tests_3_pass fs_tests_4_pass)

end
