(* ===== verification/Spec2Isabelle.thy ===== *)
theory Spec2Isabelle
  imports Demo_World Unit_Tests
begin

text \<open>
  DIFFuzzer, a differential fuzzer for file systems: a random workload runs on two file systems, and
  their traces and directory trees are compared.

  \<^bold>\<open>The program and its parts.\<close> A workload is a list of operations. The generator and the mutator keep an
  abstract file system beside it, so that every operation they emit is possible. The encoder prints the
  workload as a C program. The runner compiles it, and for each of two file systems a harness mounts it,
  runs the program, lets the observers look at the result and unmounts. The objectives compare the two
  outcomes; a difference or a panic is reported with a reason in Markdown. The black box fuzzer loops over
  fresh workloads; the grey box fuzzer keeps a corpus of seeds, chooses and mutates one, and adds it to the
  corpus when the coverage feedback finds it interesting; the reducer shrinks a test that shows a
  difference; brokers run several fuzzers in threads and sum their statistics. A supervisor is the system
  under the tests, the host itself or a virtual machine with a snapshot.

  \<^bold>\<open>Modelling.\<close> A \<open>Result\<close>, a panic and exhausted stack are the three constructors of \<open>res\<close>. Pure state
  (the abstract file system) is passed and returned. Methods that touch the outside are programs over a
  state record that extends \<open>world\<close> (theory \<open>World\<close>): the environment answers every call from the history
  of calls, so nothing is assumed about processes, files, clocks and other threads, and the history is
  what the theorems about effects speak of. Machine integers are words; sizes that the code keeps in a
  \<open>Vec\<close> or computes from lengths are naturals.

  \<^bold>\<open>Theories and code\<close> (paths below \<open>src/diffuzzer/src\<close>):

  \<^item> \<open>Prelude\<close>: results, vectors, printing of numbers, splitting of strings; collections of facts.
  \<^item> \<open>Pathname\<close>, \<open>Operation\<close>: \<open>abstract_fs/pathname.rs\<close>, \<open>operation.rs\<close>, \<open>flags.rs\<close>, \<open>node.rs\<close>, \<open>workload.rs\<close>.
  \<^item> \<open>Content\<close>, \<open>Content_Correct\<close>: \<open>abstract_fs/content.rs\<close>. A file is a list of slices of an unbounded
    source; \<open>content_bytes\<close> is the abstraction, and reads and writes are \<open>take\<close>, \<open>drop\<close> and append on it.
  \<^item> \<open>Abstract_FS\<close>, \<open>Alive\<close>: \<open>abstract_fs/fs.rs\<close>, one definition per method of \<open>AbstractFS\<close>.
    \<open>FS_Invariant\<close> (\<open>inv_fs\<close> and its preservation), \<open>FS_Spec\<close> (the file system as a finite map of
    directory entries and each operation as one update), \<open>FS_Paths\<close> (what that means for paths),
    \<open>Resolve_Correct\<close> (recursion depth), \<open>Rename_Correct\<close> (atomicity of \<open>rename\<close> and of every operation),
    \<open>Any_Paths\<close> (what holds for paths that are not well formed, and links whose target leads through
    themselves), \<open>Ranked\<close> (when resolution cannot overflow the stack).
  \<^item> \<open>Generator\<close>, \<open>Generator_Correct\<close>, \<open>Generator_Ends\<close>, \<open>Mutator\<close>: \<open>abstract_fs/generator.rs\<close>, \<open>mutator.rs\<close>. The names of new
    entries come from the interface \<open>name_supply\<close>, with the counter of the generator and the unused names
    of the mutator as its providers.
  \<^item> \<open>Encode\<close>: \<open>abstract_fs/encode.rs\<close>; \<open>Trace\<close>: \<open>abstract_fs/trace.rs\<close> and \<open>fuzzing/objective/trace.rs\<close>;
    \<open>Executor\<close>: the list of traced calls in \<open>src/executor/executor.cpp\<close> and the text it dumps for the parser.
  \<^item> \<open>Dash\<close>: \<open>src/dash/src/lib.rs\<close> and \<open>fuzzing/objective/dash.rs\<close>; \<open>Feedback\<close>: \<open>fuzzing/greybox/feedback/\<close>.
  \<^item> \<open>Config\<close>, \<open>Command\<close>, \<open>Handle\<close>, \<open>Supervisor\<close>, \<open>Mount\<close>, \<open>Markdown\<close>, \<open>Save\<close>: \<open>config.rs\<close>; \<open>path.rs\<close> and
    \<open>command.rs\<close>; \<open>fuzzing/broker.rs\<close>; \<open>supervisor.rs\<close>; \<open>mount/\<close> and \<open>filesystems.rs\<close>; \<open>markdown.rs\<close> and
    \<open>reason.rs\<close>; \<open>compile.rs\<close>, \<open>save.rs\<close> and \<open>fuzzing/outcome.rs\<close>. A trait object is the record of its methods
    (\<open>command_interface\<close>, \<open>supervisor\<close>) or a datatype with one constructor for each implementation
    (\<open>fs_mount\<close>). The locales \<open>command_contract\<close> and \<open>supervisor_contract\<close> state which calls a method may make;
    both implementations of each trait are interpretations.
  \<^item> \<open>Harness\<close>, \<open>Runner\<close>: \<open>fuzzing/observer/\<close>, \<open>harness.rs\<close>, \<open>runner.rs\<close>. Observers shared through
    \<open>Rc<RefCell>\<close> are cells of a store in the state. \<open>Run_Order\<close>: the exact tests and monitor commands of a run.
  \<^item> \<open>Fuzzer\<close>: \<open>fuzzing/fuzzer.rs\<close>, \<open>blackbox/fuzzer.rs\<close>, \<open>duo_single.rs\<close>; \<open>Schedule\<close>, \<open>Mutate\<close>, \<open>Greybox\<close>,
    \<open>Greybox_Correct\<close>, \<open>Corpus_Correct\<close>, \<open>Corpus_Growth\<close>: \<open>fuzzing/greybox/\<close>. The locale \<open>counted_fuzzer\<close> is what the trait asks of an
    implementor, and its interpretations are the black box and the grey box fuzzer.
  \<^item> \<open>Reducer\<close>: \<open>fuzzing/reducer.rs\<close> and \<open>solo_single.rs\<close>; \<open>Broker\<close>: \<open>blackbox/broker.rs\<close>, \<open>greybox/broker.rs\<close>.
  \<^item> \<open>Program\<close>, \<open>Program_Correct\<close>: \<open>main.rs\<close> and \<open>args.rs\<close>, the five modes from the parsed command line on, and how
    many tests a run starts (the destructor of the supervisor, \<open>qemu_drop\<close>, is not run at the end of a mode); \<open>src/dash/src/main.rs\<close>, the binary that the Dash observer runs.
  \<^item> \<open>FS_Tests\<close>, \<open>Unit_Tests\<close>: the unit tests of the repository as programs over the model, evaluated.
  \<^item> \<open>Examples\<close>, \<open>Demo_World\<close>: concrete file systems and a concrete environment for the witnesses.

  \<^bold>\<open>What the theorems show.\<close> About the abstract file system: the invariant, absence of panics, atomicity,
  the tree structure, reads and writes through descriptors and hard links, replay of a recording. About
  workloads: what is generated or mutated replays without error and without a stack overflow, over a whole
  run of the grey box fuzzer, which need not end; the printed program declares what it uses. About comparison:
  the trace parser reads back what the executor dumps, the trace diff and the directory diff report exactly the
  differences. About the fuzzing layer: coverage, corpus and scheduling, which tests run in which order and when
  the snapshot is loaded, the counters, the reducer and the brokers. About the whole program: how many tests a
  run of each mode starts. Single theorems evaluate the findings: an unsorted walk makes the directory diff
  report too much, a rename to itself removes, a failing rename can be half applied, an entry at the root is lost.

  \<^bold>\<open>Side conditions.\<close> \<open>canonical\<close>: a path that is absolute without empty segments; \<open>wf_op\<close>: all paths of the
  operation are canonical and no new entry is at the root. \<open>fits\<close>, \<open>sizes_fit\<close>: what was and is written stays
  below 2^64 bytes. \<open>good_rng\<close>: the contract of \<open>rand\<close>; \<open>usable_weights\<close>: one of the kinds that are always
  applicable has a positive weight and the weights sum below 2^32, without which \<open>choose_weighted\<close> panics;
  \<open>fair_rng\<close>: every position is drawn sooner or later, without which the retry loop of the generator need not
  end. \<open>launched\<close>: the command interface and the supervisor are those of the host or those of a virtual machine;
  \<open>dash_paths_ok\<close>: no Dash binary is at the path \<open>timeout\<close>, so that it is not counted as a test.

  \<^bold>\<open>Loops, bounds and fuel.\<close> Recursion is structural or has a measure, with these exceptions. Path resolution
  recurses through symlinks and the code bounds it by nothing but the call stack: \<open>resolve_node_rec\<close>
  carries the depth and yields \<open>StackOverflow\<close> below it, and \<open>resolve_node\<close> takes the depth
  \<open>(length (symlinks fs) + 1) ^ 2\<close>. \<open>resolution_depth_suffices\<close> shows that a deeper stack changes no result,
  so that this overflow stands for a recursion that never ends, and \<open>symlink_below_itself_overflows\<close> that
  the code has one for a workload written by hand. The fuzzer itself never runs into it: \<open>ordered\<close> says
  that some rank of the names puts each link above all names of its target and each renamed entry above its
  old name; then nested resolutions descend in the rank (\<open>Ranked\<close>). Fresh names keep it, so every generated
  workload is ordered and mutations of ordered workloads are ordered. The retry loop
  of the generator for a rename takes fuel, as it depends on the random source; it ends with enough fuel when
  the source is fair (\<open>Generator_Ends\<close>). The loops of the fuzzers, of the mutator and of the event handler are
  \<open>partial_function (option)\<close>, since the code may stay in them for ever. File offsets and sizes are 64-bit
  words; the bounds \<open>fits\<close> and \<open>max_write\<close> keep them from wrapping.

  \<^bold>\<open>Not modelled.\<close> Parameters of the definitions, with what is relied on as named hypotheses: the \<open>rand\<close>
  crate (\<open>good_rng\<close>), \<open>twox-hash\<close>, \<open>serde_json\<close>, \<open>regex\<close>, \<open>walkdir\<close>, floating-point arithmetic of the power
  schedule, the \<open>Debug\<close> format of a process. Parsing the command line is \<open>clap\<close>; the
  arguments it builds are records. The generator of report names hashes a JSON text with the
  time and stays a parameter of the environment. The executor (C++) but for its dump, the shell scripts of the virtual machine,
  the smoke tests on seeds of a library random source and the tests of \<open>dash\<close> on a real directory are not modelled.
\<close>

text \<open>
  C1. Whatever its paths are, every operation (with offsets and sizes that stay within 64 bits)
  keeps the file system well formed: all stored indices are in range, directories have distinct
  entries, contents are well formed, open files and descriptors name each other and offsets stay
  inside the files. With paths that are absolute without empty segments, and no new entry at the
  root itself, it also keeps the full invariant: names are valid and the directories form a
  tree.
\<close>

theorem operations_keep_invariant:
  assumes "sizes_fit op fs" and "apply_op op fs = (r, fs')"
  shows "(wf_fs fs \<longrightarrow> wf_fs fs') \<and> (wf_op op \<and> inv_fs fs \<longrightarrow> inv_fs fs')"
proof (intro conjI impI; (elim conjE)?)
  assume "wf_fs fs"
  then show "wf_fs fs'" using assms by (rule apply_op_any_wf)
next
  assume op: "wf_op op" and inv: "inv_fs fs"
  have fits: "fits op fs" using assms(1) by (simp add: sizes_fit_def)
  show "inv_fs fs'"
  proof (cases "is_ok r")
    case True
    then obtain u where "r = Ok u" by (cases r) auto
    then show ?thesis
      using assms(2) op inv fits apply_op_good [of fs op] apply_op_tree [of fs op fs'] apply_op_names [of fs op fs']
      by (auto simp: inv_fs_def)
  next
    case False
    then show ?thesis using assms(2) op inv fits apply_op_atomic [of fs op] by (auto simp: inv_fs_def atomic_def)
  qed
qed

theorem operations_keep_invariant_witness:
  "inv_fs (snd (apply_op (OpRename ''/d/f'' ''/g'') demo_fs))
   \<and> wf_fs (snd (apply_op (OpMkDir ''/'' []) demo_fs))"
proof
  show "inv_fs (snd (apply_op (OpRename ''/d/f'' ''/g'') demo_fs))"
    using operations_keep_invariant [where op = "OpRename ''/d/f'' ''/g''" and fs = demo_fs, OF _ prod.collapse [symmetric]]
      demo_inv
    by (simp add: sizes_fit_def canonical_code path_of_def segments_def is_root_def demo_fits)
  show "wf_fs (snd (apply_op (OpMkDir ''/'' []) demo_fs))"
    using operations_keep_invariant [where op = "OpMkDir ''/'' []" and fs = demo_fs, OF _ prod.collapse [symmetric]]
      demo_wf
    by (simp add: sizes_fit_def demo_fits)
qed

text \<open>
  C2. On every file system reached from the empty one no operation of a well-formed workload
  panics: no dangling index, no failed assertion in the content code. Nor does it overflow the
  stack while a rank orders the names of the links (each link above all names of its target); an
  operation that respects the rank keeps it.
\<close>

theorem operations_never_panic:
  assumes "fs_reach fs" and "wf_op op" and "fits op fs"
  shows "fst (apply_op op fs) \<noteq> Crash Panicked
    \<and> (\<forall>rk. ranked rk fs \<and> op_ranked rk op \<longrightarrow>
         fst (apply_op op fs) \<noteq> Crash StackOverflow
         \<and> (is_ok (fst (apply_op op fs)) \<longrightarrow> ranked rk (snd (apply_op op fs))))"
proof -
  note wf = fs_reach_wf [OF assms(1)]
  have "ranked rk (snd (apply_op op fs))" if "ranked rk fs" "op_ranked rk op" "is_ok (fst (apply_op op fs))" for rk
  proof -
    have "apply_op op fs = (Ok (), snd (apply_op op fs))"
      using that(3) by (cases "apply_op op fs"; cases "fst (apply_op op fs)") auto
    from apply_op_ranked [OF wf assms(2) this that(1,2)] show ?thesis .
  qed
  then show ?thesis
    using apply_op_good [OF wf assms(2,3)] apply_op_no_overflow [OF wf _ assms(2)]
    by (auto simp: good_def no_panic_def)
qed

theorem operations_never_panic_witness:
  "fst (apply_op (OpWrite (FileDescriptorIndex 0) 7 9) demo_fs) \<noteq> Crash Panicked
   \<and> fst (apply_op (OpSymlink ''/d'' ''/l'') fs_new) \<noteq> Crash StackOverflow"
proof
  show "fst (apply_op (OpWrite (FileDescriptorIndex 0) 7 9) demo_fs) \<noteq> Crash Panicked"
    using operations_never_panic [OF demo_reach, of "OpWrite (FileDescriptorIndex 0) 7 9"] by (simp add: demo_fits)
  have "op_ranked (\<lambda>nm. if nm = ''l'' then 1 else 0) (OpSymlink ''/d'' ''/l'')" by code_simp
  moreover have "wf_op (OpSymlink ''/d'' ''/l'')" by (simp add: canonical_code path_of_def segments_def is_root_def)
  ultimately show "fst (apply_op (OpSymlink ''/d'' ''/l'') fs_new) \<noteq> Crash StackOverflow"
    using operations_never_panic [OF fs_reach.start, of "OpSymlink ''/d'' ''/l''"] ranked_new
    by (auto simp: fits_def fs_new_def workload_new_def written_def)
qed

text \<open>
  C3. An operation (with offsets and sizes that stay within 64 bits) that fails leaves the file
  system exactly as it was, so it is never half applied or recorded; the one exception is a
  rename with a path that is not absolute or has an empty segment, or with the root as the new
  path.
\<close>

theorem failed_operation_changes_nothing:
  assumes "wf_fs fs" and "sizes_fit op fs" and "apply_op op fs = (r, fs')" and "\<not> is_ok r"
  shows "fs' = fs
    \<or> (\<exists>old new. op = OpRename old new \<and> \<not> (canonical old \<and> canonical new \<and> \<not> is_root new))"
proof (cases "\<exists>old new. op = OpRename old new \<and> \<not> (canonical old \<and> canonical new \<and> \<not> is_root new)")
  case False
  have "atomic (apply_op op fs) fs"
  proof (cases "\<exists>old new. op = OpRename old new")
    case True
    then have "wf_op op" using False by auto
    then show ?thesis using apply_op_atomic [OF assms(1)] assms(2) by (simp add: sizes_fit_def)
  qed (use apply_op_atomic_any [OF assms(1,2)] in blast)
  then show ?thesis using assms(3,4) by (simp add: atomic_def)
qed simp

theorem failed_operation_changes_nothing_witness:
  "fst (apply_op (OpRename ''/d'' ''/d/x'') demo_fs) = Err (RenameToSubdirectoryError ''/d'' ''/d/x'')
   \<and> snd (apply_op (OpRename ''/d'' ''/d/x'') demo_fs) = demo_fs"
proof
  show fails: "fst (apply_op (OpRename ''/d'' ''/d/x'') demo_fs)
      = Err (RenameToSubdirectoryError ''/d'' ''/d/x'')"
    by code_simp
  show "snd (apply_op (OpRename ''/d'' ''/d/x'') demo_fs) = demo_fs"
    using failed_operation_changes_nothing [where op = "OpRename ''/d'' ''/d/x''", OF demo_wf _ prod.collapse [symmetric]] fails
    by (simp add: sizes_fit_def canonical_code path_of_def segments_def is_root_def demo_fits)
qed

text \<open>
  C4. Replaying the recording of a reachable file system on an empty one succeeds and rebuilds
  exactly this file system, descriptors, contents and recording included.
\<close>

theorem recording_rebuilds_file_system:
  assumes "fs_reach fs"
  shows "replay (recording fs) fs_new = (Ok (), fs)"
  using assms by (rule fs_reach_replay)

theorem recording_rebuilds_file_system_witness:
  "replay (recording demo_fs) fs_new = (Ok (), demo_fs)"
  by (rule recording_rebuilds_file_system [OF demo_reach])

text \<open>
  C5. In every reachable file system the directories form a tree: no directory lies below
  itself, each has one parent entry, and the root has none; rename cannot move a directory below
  itself.
\<close>

theorem directories_form_tree:
  assumes "fs_reach fs"
  shows "acyclic (dir_edges fs)
    \<and> (\<forall>e e' j. entry fs e = Some (NodeDir j) \<longrightarrow> entry fs e' = Some (NodeDir j) \<longrightarrow> e = e')
    \<and> (\<forall>e. entry fs e \<noteq> Some (NodeDir root_index))"
  using fs_reach_tree [OF assms] unfolding tree_fs_def by blast

theorem directories_form_tree_witness:
  "acyclic (dir_edges demo_fs) \<and> entry demo_fs (root_index, ''d'') = Some (NodeDir (DirIndex 1))"
proof
  show "acyclic (dir_edges demo_fs)" using directories_form_tree [OF demo_reach] by blast
  show "entry demo_fs (root_index, ''d'') = Some (NodeDir (DirIndex 1))" by code_simp
qed

text \<open>
  C6. On the map from entries to nodes a successful rename between well-formed paths is the
  deletion of the old entry and the update of the new one with the same node; files, links and
  descriptors are untouched.
\<close>

theorem rename_moves_entry:
  assumes "wf_fs fs" and "canonical old_path" and "canonical new_path" and "\<not> is_root new_path"
    and "rename old_path new_path fs = (Ok n, fs')"
  shows "\<exists>e e'. names fs old_path e \<and> names fs new_path e' \<and> entry fs e = Some n
    \<and> entry fs' = (entry fs)(e' \<mapsto> n, e := None)
    \<and> files fs' = files fs \<and> symlinks fs' = symlinks fs \<and> descriptors fs' = descriptors fs"
proof -
  obtain e e' ds where e: "names fs old_path e" "entry fs e = Some n"
    and e': "parent_entry fs new_path = Ok (ds, fst e', dirs fs ! dir_ix (fst e'), snd e')"
    and fs': "entry fs' = (entry fs)(e' \<mapsto> n, e := None)"
      "fs' = record_op (OpRename old_path new_path)
         (without_entry (fst e) (snd e) (with_entry (fst e') (snd e') n fs))"
    using rename_spec [OF assms] by blast
  have "names fs new_path e'" using parent_entry_names [OF e'] by simp
  then show ?thesis using e fs' by (intro exI [of _ e] exI [of _ e']) simp
qed

theorem rename_moves_entry_witness:
  "\<exists>fs' e e'. rename ''/d'' ''/e'' demo_fs = (Ok (NodeDir (DirIndex 1)), fs')
     \<and> names demo_fs ''/d'' e \<and> entry fs' = (entry demo_fs)(e' \<mapsto> NodeDir (DirIndex 1), e := None)"
proof -
  have "fst (rename ''/d'' ''/e'' demo_fs) = Ok (NodeDir (DirIndex 1))" by code_simp
  then have run: "rename ''/d'' ''/e'' demo_fs
      = (Ok (NodeDir (DirIndex 1)), snd (rename ''/d'' ''/e'' demo_fs))"
    by (simp add: prod_eq_iff)
  show ?thesis
    using rename_moves_entry [OF demo_wf _ _ _ run] run
    by (fastforce simp: canonical_code path_of_def segments_def is_root_def)
qed

text \<open>
  C7. A successful create adds one empty file with a fresh index, and every path that resolved
  before resolves to the same node. If the path is absolute without empty segments and not the
  root, it then resolves to the new file.
\<close>

theorem created_file_is_found:
  assumes "wf_fs fs" and "create path m fs = (Ok i, fs')"
  shows "i = FileIndex (length (files fs)) \<and> files fs' = files fs @ [\<lparr>descriptor = None, cont = content_new\<rparr>]
    \<and> file_bytes fs' i = []
    \<and> (canonical path \<and> \<not> is_root path \<longrightarrow> (\<exists>ds. resolve_file fs' path = Ok (ds, i)))
    \<and> (\<forall>q follow r. resolve_node fs q follow = Ok r \<longrightarrow> resolve_node fs' q follow = Ok r)"
proof -
  obtain e where e: "entry fs e = None" "i = FileIndex (length (files fs))" "entry fs' = (entry fs)(e \<mapsto> NodeFile i)"
    "fs' = record_op (OpCreate path m) (with_entry (fst e) (snd e) (NodeFile i)
           (fs\<lparr>files := files fs @ [\<lparr>descriptor = None, cont = content_new\<rparr>]\<rparr>))"
    using create_spec [OF assms(2)] by blast
  have "extends fs fs'" using e(1,3) by (rule extends_insert) (simp add: e(4))
  then show ?thesis
    using create_found(2) [OF assms(1) _ _ assms(2)] e(2)
    by (auto simp: e(4) file_bytes_def intro: resolve_node_extends)
qed

theorem created_file_is_found_witness:
  "\<exists>ds fs'. create ''/s/x'' [] demo_fs = (Ok (FileIndex 1), fs')
     \<and> resolve_file fs' ''/s/x'' = Ok (ds, FileIndex 1)"
proof -
  have "fst (create ''/s/x'' [] demo_fs) = Ok (FileIndex 1)" by code_simp
  then have run: "create ''/s/x'' [] demo_fs = (Ok (FileIndex 1), snd (create ''/s/x'' [] demo_fs))"
    by (simp add: prod_eq_iff)
  show ?thesis
    using created_file_is_found [OF demo_wf run] run demo_canonical(1) by blast
qed

text \<open>
  C8. After a successful remove of a well-formed path the path no longer resolves, and whatever
  still resolves already did, to the same node.
\<close>

theorem removed_path_is_gone:
  assumes "wf_fs fs" and "canonical path" and "remove path fs = (Ok (), fs')"
  shows "(\<forall>follow r. resolve_node fs' path False \<noteq> Ok r)
    \<and> (\<forall>q follow r. resolve_node fs' q follow = Ok r \<longrightarrow> resolve_node fs q follow = Ok r)"
  using remove_gone [OF assms] resolve_node_extends by blast

theorem removed_path_is_gone_witness:
  "is_ok (fst (remove ''/d'' demo_fs)) \<and> \<not> is_ok (resolve_node (snd (remove ''/d'' demo_fs)) ''/d'' False)"
proof -
  have "fst (remove ''/d'' demo_fs) = Ok ()" by code_simp
  then have run: "remove ''/d'' demo_fs = (Ok (), snd (remove ''/d'' demo_fs))"
    by (simp add: prod_eq_iff)
  show ?thesis
    using removed_path_is_gone [OF demo_wf _ run] \<open>fst (remove ''/d'' demo_fs) = Ok ()\<close>
    by (cases "resolve_node (snd (remove ''/d'' demo_fs)) ''/d'' False")
      (auto simp: canonical_code path_of_def segments_def)
qed

text \<open>
  C9. After a successful hardlink the old path resolves to the file it resolved to before, no
  content changed, and every path that resolved before resolves to the same node. If the new
  path is absolute without empty segments and not the root, it resolves to the same file.
\<close>

theorem hard_links_share_content:
  assumes "wf_fs fs" and "hardlink old_path new_path fs = (Ok i, fs')"
  shows "(\<exists>ds. resolve_file fs old_path = Ok (ds, i)) \<and> (\<exists>ds. resolve_file fs' old_path = Ok (ds, i))
    \<and> (canonical new_path \<and> \<not> is_root new_path \<longrightarrow> (\<exists>ds. resolve_file fs' new_path = Ok (ds, i)))
    \<and> files fs' = files fs
    \<and> (\<forall>q follow r. resolve_node fs q follow = Ok r \<longrightarrow> resolve_node fs' q follow = Ok r)"
proof -
  obtain e where e: "names fs new_path e" "entry fs e = None" "\<exists>ds. resolve_file fs old_path = Ok (ds, i)"
      "entry fs' = (entry fs)(e \<mapsto> NodeFile i)"
      "fs' = record_op (OpHardlink old_path new_path) (with_entry (fst e) (snd e) (NodeFile i) fs)"
    using hardlink_spec [OF assms(2)] by blast
  have ext: "extends fs fs'" using extends_insert [OF e(2,4)] e(5) by simp
  have wf: "wf_fs fs'"
  proof -
    obtain ds where "resolve_file fs old_path = Ok (ds, i)" using e(3) by blast
    then have "file_ix i < length (files fs)"
      using sound_D [OF resolve_file_sound [OF assms(1)]] by fastforce
    then show ?thesis
      unfolding e(5) with_entry_def
      using names_in_range [OF e(1)] assms(1)
      by (intro wf_record_op wf_set_dir wf_dir_insert) (auto intro: wf_fs_dir)
  qed
  have "\<exists>ds. resolve_file fs' new_path = Ok (ds, i)" if "canonical new_path" "\<not> is_root new_path"
    using names_found [OF wf ext e(1) that] e(4) resolve_nofollow_file by fastforce
  moreover have "\<exists>ds. resolve_file fs' old_path = Ok (ds, i)"
    using e(3) resolve_node_extends [OF ext] by (auto simp: resolve_file_Ok)
  ultimately show ?thesis using e(3,5) resolve_node_extends [OF ext] by auto
qed

theorem hard_links_share_content_witness:
  "\<exists>ds fs'. hardlink ''/h'' ''/d/g'' demo_fs = (Ok (FileIndex 0), fs')
     \<and> resolve_file fs' ''/d/g'' = Ok (ds, FileIndex 0)"
proof -
  have "fst (hardlink ''/h'' ''/d/g'' demo_fs) = Ok (FileIndex 0)" by code_simp
  then have run: "hardlink ''/h'' ''/d/g'' demo_fs
      = (Ok (FileIndex 0), snd (hardlink ''/h'' ''/d/g'' demo_fs))"
    by (simp add: prod_eq_iff)
  show ?thesis
    using hard_links_share_content [OF demo_wf run] run demo_canonical(2) by blast
qed


text \<open>
  C10. Against the byte sequence that a content stands for, write is the overwrite of a range
  with the source bytes, at any offset up to the size; the assertions in the code hold.
\<close>

theorem write_overwrites_range:
  assumes "wf_content c" and "unat write_offset \<le> length (content_bytes c)"
    and "unat src_offset + unat sz \<le> 2 ^ 64" and "unat write_offset + unat sz < 2 ^ 64"
  shows "\<exists>c'. content_write src_offset write_offset sz c = Ok c' \<and> wf_content c'
    \<and> content_bytes c' = take (unat write_offset) (content_bytes c)
        @ [unat src_offset ..< unat src_offset + unat sz]
        @ drop (unat write_offset + unat sz) (content_bytes c)"
  by (rule content_write_bytes [OF assms])

theorem write_overwrites_range_witness:
  "\<exists>c'. content_write 10 1 2 \<lparr>slices = [\<lparr>slice_from = 3, slice_to = 6\<rparr>]\<rparr> = Ok c'
     \<and> content_bytes c' = [3, 10, 11, 6]"
  using write_overwrites_range [of "\<lparr>slices = [\<lparr>slice_from = 3, slice_to = 6\<rparr>]\<rparr>" 1 10 2]
  by (auto simp: wf_content_def content_bytes_def slice_bytes_def upt_conv_Cons)

text \<open>
  C11. read returns the bytes of the asked range, cut at the end of the content, and fails with
  BadOffset exactly when the offset lies behind the end.
\<close>

theorem read_returns_range:
  assumes "wf_content c"
  shows "if unat read_offset \<le> length (content_bytes c)
    then \<exists>c'. content_read read_offset sz c = Ok c'
           \<and> content_bytes c' = take (unat sz) (drop (unat read_offset) (content_bytes c))
    else content_read read_offset sz c = Err (BadOffset read_offset (content_size c))"
  using content_read_bytes [OF assms, of read_offset sz] content_read_bad_offset [OF assms, of read_offset sz]
  by (auto simp: not_le)

theorem read_returns_range_witness:
  "\<exists>c'. content_read 1 2 \<lparr>slices = [\<lparr>slice_from = 3, slice_to = 6\<rparr>]\<rparr> = Ok c'
     \<and> content_bytes c' = [4, 5]"
  using read_returns_range [of "\<lparr>slices = [\<lparr>slice_from = 3, slice_to = 6\<rparr>]\<rparr>" 1 2]
  by (auto simp: wf_content_def content_bytes_def slice_bytes_def upt_conv_Cons)

text \<open>
  C12. A write through an open descriptor succeeds, overwrites the file at the offset of the
  descriptor, advances the offset by the size and changes no other file and no directory.
\<close>

theorem write_through_descriptor:
  assumes "fs_reach fs" and "opened_as fs des (d, f)" and "fits (OpWrite des src_offset sz) fs"
    and "unat src_offset + unat sz \<le> 2 ^ 64"
  shows "\<exists>fs'. write_fd des src_offset sz fs = (Ok (), fs') \<and> entry fs' = entry fs
    \<and> file_bytes fs' (fd_file d) = take (unat (offset d)) (file_bytes fs (fd_file d))
        @ [unat src_offset ..< unat src_offset + unat sz]
        @ drop (unat (offset d) + unat sz) (file_bytes fs (fd_file d))
    \<and> (\<forall>i. i \<noteq> fd_file d \<longrightarrow> file_bytes fs' i = file_bytes fs i)
    \<and> unat (offset (descriptors fs' ! fd_ix des)) = unat (offset d) + unat sz"
proof -
  have wf: "wf_fs fs" using assms(1) by (rule fs_reach_wf)
  note at = offset_in_file [OF wf assms(2)]
  have small: "unat (offset d) + unat sz < 2 ^ 64"
    using at(2,3) assms(3) by (simp add: fits_def)
  have ix: "fd_ix des < length (descriptors fs)" "file_ix (fd_file d) < length (files fs)"
    using assms(2) by (auto simp: opened_as_def)
  show ?thesis
    by (rule write_fd_open [OF wf assms(2,4) small])
      (use ix at(5) in \<open>auto simp: file_bytes_def nth_list_update\<close>)
qed

theorem write_through_descriptor_witness:
  "\<exists>fs'. write_fd (FileDescriptorIndex 0) 9 2 demo_fs = (Ok (), fs')
     \<and> file_bytes fs' (FileIndex 0) = [3, 4, 5, 6, 9, 10]"
  using write_through_descriptor [OF demo_reach demo_opened, of 9 2]
  by (auto simp: demo_fits demo_bytes upt_conv_Cons)

text \<open>
  C13. A read through an open descriptor returns the bytes after its offset and advances the
  offset by their number; files and directories stay.
\<close>

theorem read_through_descriptor:
  assumes "wf_fs fs" and "opened_as fs des (d, f)"
  shows "\<exists>c fs'. read_fd des sz fs = (Ok c, fs') \<and> files fs' = files fs \<and> entry fs' = entry fs
    \<and> content_bytes c = take (unat sz) (drop (unat (offset d)) (file_bytes fs (fd_file d)))
    \<and> unat (offset (descriptors fs' ! fd_ix des)) = unat (offset d) + length (content_bytes c)"
proof -
  have ix: "fd_ix des < length (descriptors fs)" using assms(2) by (auto simp: opened_as_def)
  show ?thesis
    by (rule read_fd_open [OF assms, of sz]) (use ix offset_in_file [OF assms] in auto)
qed

theorem read_through_descriptor_witness:
  "\<exists>c fs'. read_fd (FileDescriptorIndex 0) 8 demo_fs = (Ok c, fs') \<and> content_bytes c = []"
  using read_through_descriptor [OF demo_wf demo_opened, of 8] by (auto simp: demo_bytes)

text \<open>
  C14. A file opened once cannot be opened again; its descriptor can be closed, and then every
  read and write through it fails with DescriptorWasClosed.
\<close>

theorem descriptor_life_cycle:
  assumes "open_file path fs = (Ok des, fs')"
  shows "open_file path fs' = (Err (FileAlreadyOpened path), fs')
    \<and> (\<exists>fs''. close_fd des fs' = (Ok (), fs'') \<and> entry fs'' = entry fs
         \<and> read_fd des sz fs'' = (Err (DescriptorWasClosed des), fs'')
         \<and> write_fd des src_offset sz fs'' = (Err (DescriptorWasClosed des), fs''))"
proof -
  obtain ds i where res: "resolve_file fs path = Ok (ds, i)" and i: "file_ix i < length (files fs)"
    and f: "descriptor (files fs ! file_ix i) = None"
    and des: "des = FileDescriptorIndex (length (descriptors fs))"
    and fs': "fs' = record_op (OpOpen path des)
      (set_file i ((files fs ! file_ix i)\<lparr>descriptor := Some des\<rparr>) fs
         \<lparr>descriptors := descriptors fs @ [\<lparr>fd_file = i, offset = 0\<rparr>]\<rparr>)"
    using assms by (auto simp: open_file_def Let_def elim!: or_return_snd_record split: if_splits)
  have "extends fs fs'" by (simp add: extends_def fs')
  then have res': "resolve_file fs' path = Ok (ds, i)"
    using res resolve_node_extends by (auto simp: resolve_file_Ok)
  have op: "opened_as fs' des (\<lparr>fd_file = i, offset = 0\<rparr>, (files fs ! file_ix i)\<lparr>descriptor := Some des\<rparr>)"
    using i by (simp add: opened_as_def fs' des)
  have twice: "open_file path fs' = (Err (FileAlreadyOpened path), fs')"
    using res' i by (simp add: open_file_def fs')
  obtain fs'' where cl: "close_fd des fs' = (Ok (), fs'')"
      "fs'' = record_op (OpClose des) (set_file i ((files fs ! file_ix i)\<lparr>descriptor := None\<rparr>) fs')"
    using opened_asD(1) [OF op] by (simp add: close_fd_def)
  have "open_descriptor fs'' des = Err (DescriptorWasClosed des)"
    using i by (simp add: open_descriptor_def cl(2) fs' des)
  then have "read_fd des sz fs'' = (Err (DescriptorWasClosed des), fs'')"
      "write_fd des src_offset sz fs'' = (Err (DescriptorWasClosed des), fs'')"
    by (simp_all add: read_fd_def write_fd_def)
  then show ?thesis using twice cl(1) by (auto simp: cl(2) fs')
qed

theorem descriptor_life_cycle_witness:
  "\<exists>fs1 fs2. open_file ''/f'' (snd (create ''/f'' [] demo_fs)) = (Ok (FileDescriptorIndex 1), fs1)
     \<and> open_file ''/f'' fs1 = (Err (FileAlreadyOpened ''/f''), fs1)
     \<and> close_fd (FileDescriptorIndex 1) fs1 = (Ok (), fs2)"
proof -
  let ?fs = "snd (create ''/f'' [] demo_fs)"
  have "fst (open_file ''/f'' ?fs) = Ok (FileDescriptorIndex 1)" by code_simp
  then have run: "open_file ''/f'' ?fs = (Ok (FileDescriptorIndex 1), snd (open_file ''/f'' ?fs))"
    by (simp add: prod_eq_iff)
  show ?thesis using descriptor_life_cycle [OF run] run by blast
qed

text \<open>
  C15. Path resolution needs a call stack of at most (number of symlinks + 1) squared frames:
  with any deeper stack the result is the same, so a resolution that overflows that depth never
  ends; and none overflows when a rank orders the links.
\<close>

theorem resolution_depth_suffices:
  assumes "(length (symlinks fs) + 1)\<^sup>2 \<le> depth"
  shows "resolve_node_rec depth fs path follow_symlinks [] = resolve_node fs path follow_symlinks
    \<and> (wf_fs fs \<and> rankable fs \<longrightarrow> resolve_node fs path follow_symlinks \<noteq> Crash StackOverflow)"
proof
  show "resolve_node_rec depth fs path follow_symlinks [] = resolve_node fs path follow_symlinks"
    by (rule resolve_depth_enough) (use assms in \<open>simp add: resolve_depth_def\<close>)
  show "wf_fs fs \<and> rankable fs \<longrightarrow> resolve_node fs path follow_symlinks \<noteq> Crash StackOverflow"
    using resolve_no_overflow(1) by (auto simp: rankable_def)
qed

theorem resolution_depth_suffices_witness:
  "resolve_node_rec 1000 demo_fs ''/s/f'' True [] = resolve_node demo_fs ''/s/f'' True
   \<and> resolve_node fs_new ''/s'' True \<noteq> Crash StackOverflow"
proof -
  have "(length (symlinks demo_fs) + 1)\<^sup>2 \<le> 1000" by (simp add: demo_symlinks power2_eq_square)
  moreover have "(length (symlinks fs_new) + 1)\<^sup>2 \<le> (1 :: nat)" "wf_fs fs_new"
    using inv_fsD(1) [OF inv_fs_new] by (simp_all add: fs_new_def)
  ultimately show ?thesis
    using resolution_depth_suffices [of demo_fs 1000 "''/s/f''" True] resolution_depth_suffices [of fs_new 1 "''/s''" True]
      rankable_new by blast
qed

text \<open>
  C16. On a well-formed file system, for any link path that is absolute without empty segments
  and not the root, and any valid target that leads through the link itself (its segments
  properly extend those of the link path): if symlink accepts it, then the link can be followed
  in no call stack, every path through it exhausts every stack, from any start of the search,
  and so does the creation of any entry below it. And symlink accepts every target at a path
  where it accepts one. The directory part of a target is resolved with a fresh list of visited
  links.
\<close>

theorem symlink_below_itself_overflows:
  assumes "wf_fs fs" and "canonical linkpath" and "\<not> is_root linkpath" and "leads_through linkpath tgt"
    and "make_symlink tgt linkpath fs = (Ok s, fs')"
  shows "(\<forall>depth. resolve_node_rec depth fs' linkpath True [] = Crash StackOverflow)
    \<and> (\<forall>depth q follow visited. leads_through linkpath q \<longrightarrow>
         resolve_node_rec depth fs' q follow visited = Crash StackOverflow)
    \<and> (\<forall>nm m. valid_name nm \<longrightarrow> create (path_join linkpath nm) m fs' = (Crash StackOverflow, fs'))
    \<and> (\<forall>tgt'. is_ok (fst (make_symlink tgt' linkpath fs)))"
proof -
  obtain ds where link: "resolve_node fs' linkpath False = Ok (ds, NodeSymlink s)"
    using make_symlink_found(1) [OF assms(1-3,5)] by blast
  have get: "get_sym fs' s = (Ok \<lparr>target = tgt\<rparr> :: (fs_error, _) res)"
    by (rule make_symlink_found(2) [OF assms(1-3,5)])
  have through: "leads_through linkpath (target \<lparr>target = tgt\<rparr>)" using assms(4) by simp
  show ?thesis
    using link_through_itself_overflows [OF link get through] through_link_overflows [OF link get through]
      create_below_link [OF link assms(2) get through] make_symlink_any_target [of tgt linkpath fs] assms(5)
    by auto
qed

theorem symlink_below_itself_overflows_witness:
  "fst (make_symlink ''/a/b'' ''/a'' fs_new) = Ok (SymlinkIndex 0)
   \<and> fst (create ''/a/c'' [] (snd (make_symlink ''/a/b'' ''/a'' fs_new))) = Crash StackOverflow"
proof -
  have accepted: "fst (make_symlink ''/a/b'' ''/a'' fs_new) = Ok (SymlinkIndex 0)" by code_simp
  then have run: "make_symlink ''/a/b'' ''/a'' fs_new = (Ok (SymlinkIndex 0), snd (make_symlink ''/a/b'' ''/a'' fs_new))"
    by (simp add: prod_eq_iff)
  have "leads_through ''/a'' ''/a/b''" "path_join ''/a'' ''c'' = ''/a/c''" "valid_name ''c''"
    by (simp_all add: leads_through_def is_valid_def starts_with_def ends_with_def is_root_def segments_def path_join_def
        valid_name_def)
  then show ?thesis
    using symlink_below_itself_overflows [OF wf_fs_new _ _ _ run] demo_canonical(3) accepted by (metis fst_conv)
qed




text \<open>
  C18. For a random source that keeps its contract, and weights that sum below 2^32 and are
  positive for one of MkDir, Create and Symlink, which are always applicable (choose_weighted
  may panic otherwise), a workload generated with fewer than 2^64 / 100000 operations has the
  asked length, replays without error on an empty file system and is its own recording, with
  ordered links: never a panic, an error or a stack overflow. The generation ends, with enough
  fuel for its retry loop, whenever the random source draws every position sooner or later.
\<close>

theorem generated_workload_replays:
  assumes "good_rng rng" and "usable_weights weights" and "sz * 100000 < 2 ^ 64"
  shows "(\<forall>fuel r g'. generate_new fuel rng g sz weights = Some (r, g') \<longrightarrow>
      (\<exists>w fs. r = Ok w \<and> length (ops w) = sz \<and> wf_ops (ops w) \<and> ordered (ops w)
         \<and> replay w fs_new = (Ok (), fs) \<and> recording fs = w \<and> inv_fs fs))
    \<and> (fair_rng rng \<longrightarrow> (\<exists>enough. \<forall>fuel \<ge> enough. generate_new fuel rng g sz weights \<noteq> None))"
proof -
  have sz: "sz * max_write < 2 ^ 64" using assms(3) by (simp add: max_write_def)
  show ?thesis
    using generate_new_result [OF assms(1,2) sz] generate_new_ends [OF assms(1,2) _ sz] unfolding wf_ops_def by blast
qed

theorem generated_workload_replays_witness:
  "\<exists>fuel w g'. generate_new fuel demo_rng 0 20 uniform_weights = Some (Ok w, g') \<and> length (ops w) = 20"
proof -
  have "(20 :: nat) * 100000 < 2 ^ 64" by simp
  note run = generated_workload_replays [OF demo_rng_good uniform_usable this, of 0]
  then obtain fuel where "generate_new fuel demo_rng 0 20 uniform_weights \<noteq> None"
    using demo_rng_fair by blast
  then show ?thesis using run by fast
qed

text \<open>
  C19. On a file system that keeps the invariant, whose names are numbers below the counter and
  whose written sizes leave room for one more write: for a random source that keeps its
  contract, and weights that sum below 2^32 and are positive for one of MkDir, Create and
  Symlink, which are always applicable (choose_weighted may panic otherwise), append_one adds
  exactly one operation, of a kind with positive weight, which succeeds on that file system; the
  invariant, the bound on the names and the rank of the links are kept. It overflows the stack
  only where no rank orders the links, and it ends, with enough fuel for its retry loop,
  whenever the random source draws every position sooner or later. Reads are emitted for Write
  and writes for Read.
\<close>

theorem appended_operation_succeeds:
  fixes st :: "('g, nat) gen_state"
  assumes "good_rng rng" and "usable_weights weights" and "inv_fs (gs_fs st)"
    and "fs_names (gs_fs st) \<subseteq> numbers_below (gs_names st)"
    and "written (ops (recording (gs_fs st))) + 100000 < 2 ^ 64"
  shows "(\<forall>fuel r st'. append_one fuel rng weights numbered_name st = Some (r, st') \<longrightarrow>
      r = Crash StackOverflow \<and> \<not> rankable (gs_fs st)
      \<or> r = Ok () \<and> inv_fs (gs_fs st') \<and> fs_names (gs_fs st') \<subseteq> numbers_below (gs_names st')
        \<and> (rankable (gs_fs st) \<longrightarrow> rankable (gs_fs st'))
        \<and> (\<exists>op kind w. (kind, w) \<in> set weights \<and> 0 < w \<and> kind_of op = emitted kind
             \<and> wf_op op \<and> apply_op op (gs_fs st) = (Ok (), gs_fs st')
             \<and> ops (recording (gs_fs st')) = ops (recording (gs_fs st)) @ [op]))
    \<and> (fair_rng rng \<longrightarrow> (\<exists>enough. \<forall>fuel \<ge> enough. append_one fuel rng weights numbered_name st \<noteq> None))"
proof (intro conjI allI impI)
  have ok: "gen_ok numbers_below st" "fs_written st + max_write < 2 ^ 64"
    using assms(3-5) by (simp_all add: gen_ok_def fs_written_def max_write_def)
  show "\<exists>enough. \<forall>fuel \<ge> enough. append_one fuel rng weights numbered_name st \<noteq> None" if "fair_rng rng"
    using append_one_new_ends [OF assms(1) that ok(1)] .
  fix fuel r st'
  assume "append_one fuel rng weights numbered_name st = Some (r, st')"
  from counter.append_one_appended [OF assms(1,2) ok this]
  show "r = Crash StackOverflow \<and> \<not> rankable (gs_fs st)
      \<or> r = Ok () \<and> inv_fs (gs_fs st') \<and> fs_names (gs_fs st') \<subseteq> numbers_below (gs_names st')
        \<and> (rankable (gs_fs st) \<longrightarrow> rankable (gs_fs st'))
        \<and> (\<exists>op kind w. (kind, w) \<in> set weights \<and> 0 < w \<and> kind_of op = emitted kind
             \<and> wf_op op \<and> apply_op op (gs_fs st) = (Ok (), gs_fs st')
             \<and> ops (recording (gs_fs st')) = ops (recording (gs_fs st)) @ [op])"
  proof (elim disjE exE conjE)
    fix k w
    assume app: "(k, w) \<in> set weights" "0 < w" "appended numbers_below k st (r, st')"
    show ?thesis using app appended_rankable [OF ok(1) app(3)] by (auto simp: appended_def gen_ok_def)
  qed simp
qed

theorem appended_operation_succeeds_witness:
  "\<exists>fuel st'. append_one fuel demo_rng uniform_weights numbered_name \<lparr>gs_fs = fs_new, gs_rng = 0, gs_names = 0\<rparr>
      = Some (Ok (), st') \<and> inv_fs (gs_fs st')"
proof -
  let ?st = "\<lparr>gs_fs = fs_new, gs_rng = 0, gs_names = 0\<rparr> :: (nat, nat) gen_state"
  have "written (ops (recording fs_new)) + 100000 < 2 ^ 64" by (simp add: fs_new_def)
  then have st: "inv_fs (gs_fs ?st)" "fs_names (gs_fs ?st) \<subseteq> numbers_below (gs_names ?st)"
    "written (ops (recording (gs_fs ?st))) + 100000 < 2 ^ 64"
    by (simp_all add: inv_fs_new fs_names_new)
  note run = appended_operation_succeeds [OF demo_rng_good uniform_usable st]
  then obtain fuel r st' where o': "append_one fuel demo_rng uniform_weights numbered_name ?st = Some (r, st')"
    using demo_rng_fair by (metis not_Some_eq order_refl surj_pair)
  have "rankable (gs_fs ?st)" by (simp add: rankable_new)
  then have "r = Ok () \<and> inv_fs (gs_fs st')" using run o' by blast
  then show ?thesis using o' by blast
qed

text \<open>
  C20. On a well-formed workload (written sizes below 2^64) with the index in range, the remove
  mutation never panics, overflows no stack when the links of the workload are ordered, and what
  it returns is the workload without the operation, with renumbered descriptors, replaying
  without error and still ordered.
\<close>

theorem removal_keeps_workload_runnable:
  assumes "wf_ops (ops w)" and "written (ops w) < 2 ^ 64" and "index < length (ops w)"
  shows "mutator_remove w index \<noteq> Crash Panicked
    \<and> (ordered (ops w) \<longrightarrow> mutator_remove w index \<noteq> Crash StackOverflow)
    \<and> (\<forall>w'. mutator_remove w index = Ok (Some w') \<longrightarrow>
         list_all2 same_effect (take index (ops w) @ drop (Suc index) (ops w)) (ops w')
         \<and> wf_ops (ops w') \<and> (ordered (ops w) \<longrightarrow> ordered (ops w'))
         \<and> (\<exists>fs. replay w' fs_new = (Ok (), fs) \<and> recording fs = w'))"
  using mutator_remove_result [OF assms] by (simp add: remove_at_def)

theorem removal_keeps_workload_runnable_witness:
  "\<exists>w' fs. mutator_remove \<lparr>ops = demo_ops\<rparr> 4 = Ok (Some w') \<and> replay w' fs_new = (Ok (), fs)"
proof -
  have "(case mutator_remove \<lparr>ops = demo_ops\<rparr> 4 of Ok (Some w') \<Rightarrow> True | _ \<Rightarrow> False)" by code_simp
  then obtain w' where run: "mutator_remove \<lparr>ops = demo_ops\<rparr> 4 = Ok (Some w')"
    by (auto split: option.splits res.splits)
  then show ?thesis
    using removal_keeps_workload_runnable [of "\<lparr>ops = demo_ops\<rparr>" 4] demo_legal by auto
qed

text \<open>
  C21. On a well-formed workload (written sizes below 2^64 less one write) with the index in
  range, for a random source that keeps its contract, and weights that sum below 2^32 and are
  positive for one of MkDir, Create and Symlink, which are always applicable (choose_weighted
  may panic otherwise), the insert mutation never panics, overflows no stack when the links of
  the workload are ordered, and what it returns is the workload with one more well-formed
  operation at the index, with renumbered descriptors, replaying without error and still
  ordered. It ends, with enough fuel for its retry loop, whenever the random source draws every
  position sooner or later.
\<close>

theorem insertion_keeps_workload_runnable:
  assumes "good_rng rng" and "usable_weights weights" and "wf_ops (ops w)"
    and "written (ops w) + 100000 < 2 ^ 64" and "index \<le> length (ops w)"
  shows "(\<forall>fuel r g'. mutator_insert fuel rng g w index weights = Some (r, g') \<longrightarrow>
      r \<noteq> Crash Panicked \<and> (ordered (ops w) \<longrightarrow> r \<noteq> Crash StackOverflow)
      \<and> (\<forall>w'. r = Ok (Some w') \<longrightarrow>
           (\<exists>op. wf_op op \<and> list_all2 same_effect (take index (ops w) @ op # drop index (ops w)) (ops w'))
           \<and> wf_ops (ops w') \<and> (ordered (ops w) \<longrightarrow> ordered (ops w'))
           \<and> (\<exists>fs. replay w' fs_new = (Ok (), fs) \<and> recording fs = w')))
    \<and> (fair_rng rng \<longrightarrow> (\<exists>enough. \<forall>fuel \<ge> enough. mutator_insert fuel rng g w index weights \<noteq> None))"
proof (intro conjI allI impI)
  have small: "written (ops w) + max_write < 2 ^ 64" using assms(4) by (simp add: max_write_def)
  then show "\<exists>enough. \<forall>fuel \<ge> enough. mutator_insert fuel rng g w index weights \<noteq> None" if "fair_rng rng"
    by (intro mutator_insert_ends [OF assms(1) that assms(3)]) simp
  fix fuel r g'
  assume run: "mutator_insert fuel rng g w index weights = Some (r, g')"
  note result = mutator_insert_result [OF assms(1-3) small assms(5) run]
  show "r \<noteq> Crash Panicked" "ordered (ops w) \<Longrightarrow> r \<noteq> Crash StackOverflow" by (fact result(1), fact result(2))
  fix w'
  assume "r = Ok (Some w')"
  from result(3) [OF this]
  show "\<exists>op. wf_op op \<and> list_all2 same_effect (take index (ops w) @ op # drop index (ops w)) (ops w')"
    "wf_ops (ops w')" "ordered (ops w) \<Longrightarrow> ordered (ops w')" "\<exists>fs. replay w' fs_new = (Ok (), fs) \<and> recording fs = w'"
    by blast+
qed

theorem insertion_keeps_workload_runnable_witness:
  "(case mutator_insert 1 demo_rng 0 \<lparr>ops = demo_ops\<rparr> 1 uniform_weights of
      Some (Ok (Some w'), _) \<Rightarrow> length (ops w') = 7 | _ \<Rightarrow> False)"
proof -
  have "(case mutator_insert 1 demo_rng 0 \<lparr>ops = demo_ops\<rparr> 1 uniform_weights of
      Some (Ok (Some w'), _) \<Rightarrow> True | _ \<Rightarrow> False)" by code_simp
  then obtain w' g' where run: "mutator_insert 1 demo_rng 0 \<lparr>ops = demo_ops\<rparr> 1 uniform_weights = Some (Ok (Some w'), g')"
    by (auto split: option.splits prod.splits res.splits)
  have "wf_ops (ops \<lparr>ops = demo_ops\<rparr>)" "written (ops \<lparr>ops = demo_ops\<rparr>) + 100000 < 2 ^ 64"
    "1 \<le> length (ops \<lparr>ops = demo_ops\<rparr>)"
    using demo_legal by simp_all
  note inserted = insertion_keeps_workload_runnable [OF demo_rng_good uniform_usable this, of 0]
  obtain op where "list_all2 same_effect (take 1 demo_ops @ op # drop 1 demo_ops) (ops w')"
    using conjunct1 [OF inserted] run unfolding workload.select_convs by blast
  then show ?thesis using run by (auto simp: demo_ops_def dest!: list_all2_lengthD)
qed

text \<open>
  C22. The C program of a recorded workload is, character for character, the include line, a
  declaration of one integer variable for each open in the order of the opens (or the comment
  that there are none), and the texts of the operations in the body of test_workload. The
  declared names are distinct, and the variable that an operation uses occurs in its text and
  was opened by this operation or one before it.
\<close>

theorem encoded_descriptors_are_declared:
  assumes "replay w fs_new = (Ok (), fs)" and "recording fs = w"
  shows "\<exists>vars. encode_c w =
      ''#include '' @ quoted ''executor.h'' @ nl
      @ (if vars = [] then nl @ ''// no descriptors'' @ nl @ nl
         else nl @ ''int '' @ str_join '', '' vars @ '';'' @ nl @ nl)
      @ ''void test_workload()'' @ nl @ ''{'' @ nl @ concat (map encode_op (ops w)) @ ''}''
    \<and> vars = map descriptor_to_var (opened_fds (ops w)) \<and> distinct vars
    \<and> (\<forall>xs op ys des. ops w = xs @ op # ys \<and> op_fd op = Some des \<longrightarrow>
         sublist (descriptor_to_var des) (encode_op op) \<and> des \<in> set (opened_fds (xs @ [op])))"
proof -
  let ?n = "descriptors_n (ops w) 0"
  have vars: "map (\<lambda>it. ''fd_'' @ show_nat it) [0..<?n] = map descriptor_to_var (opened_fds (ops w))"
    by (rule recorded_variables [OF assms])
  have "encode_c w =
      ''#include '' @ quoted ''executor.h'' @ nl
      @ (if map descriptor_to_var (opened_fds (ops w)) = [] then nl @ ''// no descriptors'' @ nl @ nl
         else nl @ ''int '' @ str_join '', '' (map descriptor_to_var (opened_fds (ops w))) @ '';'' @ nl @ nl)
      @ ''void test_workload()'' @ nl @ ''{'' @ nl @ concat (map encode_op (ops w)) @ ''}''"
    unfolding encode_c_def encode_declarations_def vars [symmetric] by simp
  moreover have "distinct (map descriptor_to_var (opened_fds (ops w)))"
    unfolding vars [symmetric] by (rule distinct_variables)
  moreover have "opened_before_use (ops w)" using assms by (rule recorded_opened_before_use)
  ultimately show ?thesis using op_fd_in_text unfolding opened_before_use_def by blast
qed

theorem encoded_descriptors_are_declared_witness:
  "sublist ''fd_0'' (encode_c (recording demo_fs))"
proof -
  have fds: "opened_fds (ops (recording demo_fs)) = [FileDescriptorIndex 0]"
    "descriptor_to_var (FileDescriptorIndex 0) = ''fd_0''"
    by code_simp+
  let ?w = "recording demo_fs"
  obtain vars where vars: "vars = map descriptor_to_var (opened_fds (ops ?w))"
      "encode_c ?w = (''#include '' @ quoted ''executor.h'' @ nl)
         @ (if vars = [] then nl @ ''// no descriptors'' @ nl @ nl
            else nl @ ''int '' @ str_join '', '' vars @ '';'' @ nl @ nl)
         @ ''void test_workload()'' @ nl @ ''{'' @ nl @ concat (map encode_op (ops ?w)) @ ''}''"
    using encoded_descriptors_are_declared [OF fs_reach_replay [OF demo_reach] refl] unfolding append_assoc by blast
  have one: "vars = [''fd_0'']" using vars(1) fds by simp
  have inside: "sublist s (a @ (nl @ ''int '' @ s @ c) @ b)" for a b s c :: string
    by (metis append.assoc sublist_appendI)
  show ?thesis unfolding vars(2) one using inside by (simp del: append_Cons append_assoc)
qed


text \<open>
  C23. The text that the executor dumps for a list of traced calls, padded columns included,
  parses back to exactly these calls, for any calls with an index of at least 0 whose command,
  extra text and error message have no separator, line break or zero byte and no white space at
  their ends (and no parenthesis in the error message).
\<close>

theorem trace_text_parses_back:
  assumes "\<forall>t \<in> set ts. clean_call strerror t"
  shows "try_parse (dump_trace strerror ts) = Ok \<lparr>rows = map (read_back strerror) ts\<rparr>"
  by (rule try_parse_dump [OF assms])

theorem trace_text_parses_back_witness:
  "try_parse (dump_trace demo_strerror demo_executed) = Ok \<lparr>rows = map (read_back demo_strerror) demo_executed\<rparr>
   \<and> dump_line demo_strerror (hd demo_executed) = ''   1,       MKDIR,      -1,File exists(17),''"
proof
  show "try_parse (dump_trace demo_strerror demo_executed) = Ok \<lparr>rows = map (read_back demo_strerror) demo_executed\<rparr>"
    by (rule trace_text_parses_back)
      (simp add: demo_executed_def clean_call_def clean_def demo_strerror_def is_white_def newline_def)
  show "dump_line demo_strerror (hd demo_executed) = ''   1,       MKDIR,      -1,File exists(17),''"
    by code_simp
qed

text \<open>
  C24. The trace objective reports no difference exactly for equal traces; for traces of the
  same length it reports exactly the positions where the rows differ.
\<close>

theorem trace_diff_sound_and_complete:
  "(trace_objective_diff t t' = [] \<longleftrightarrow> t = t')
   \<and> (if length (rows t) = length (rows t')
      then set (trace_objective_diff t t')
           = {TraceRowIsDifferent (rows t ! i) (rows t' ! i) | i. i < length (rows t) \<and> rows t ! i \<noteq> rows t' ! i}
      else trace_objective_diff t t' = [DifferentLength])"
  using trace_diff_empty [of t t'] trace_diff_mem [of t t']
  by (auto simp: trace_objective_diff_def [of t t'])

text \<open>
  C25. On two listings sorted by path and with a common first entry that is not skipped, the
  merge of get_diff reports exactly the entries on one side only and the common ones whose
  hashes differ.
\<close>

theorem directory_diff_is_exact:
  assumes "path_sorted fs" and "path_sorted ss" and "fs \<noteq> []" and "ss \<noteq> []"
    and "rel_path (fs ! 0) = rel_path (ss ! 0)"
    and "\<not> fst_skip (rel_path (fs ! 0))" and "\<not> snd_skip (rel_path (fs ! 0))"
  shows "\<exists>D. get_diff hash fs ss fst_skip snd_skip opts = (Ok D :: (unit, _) res)
    \<and> set D = expected_diff hash fst_skip snd_skip opts fs ss (length fs - 1) (length ss - 1)"
  by (rule get_diff_rooted) (use assms in \<open>simp add: rooted_def\<close>)

theorem directory_diff_is_exact_witness:
  "\<exists>D. get_diff (\<lambda>b. 0) [info '''', info ''a''] [info '''', info ''b''] (\<lambda>_. False) (\<lambda>_. False)
        default_hasher_options = (Ok D :: (unit, _) res)
    \<and> OnlyOneExists (info ''a'') \<in> set D"
proof -
  have sorted: "path_sorted [info '''', info ''a'']" "path_sorted [info '''', info ''b'']"
    by (auto simp: path_sorted_def info_def less_Suc_eq)
  obtain D where D: "get_diff (\<lambda>b. 0) [info '''', info ''a''] [info '''', info ''b''] (\<lambda>_. False)
        (\<lambda>_. False) default_hasher_options = (Ok D :: (unit, _) res)"
      "set D = expected_diff (\<lambda>b. 0) (\<lambda>_. False) (\<lambda>_. False) default_hasher_options
        [info '''', info ''a''] [info '''', info ''b''] 1 1"
    using directory_diff_is_exact [OF sorted, of "\<lambda>_. False" "\<lambda>_. False" "\<lambda>b. 0" default_hasher_options]
    by (auto simp: info_def)
  have "1 \<in> only_in (\<lambda>_. False) (\<lambda>_. False) [info '''', info ''a''] [info '''', info ''b''] 1 1"
    by (auto simp: only_in_def info_def le_Suc_eq)
  then have "OnlyOneExists (info ''a'') \<in> set D"
    unfolding D(2) expected_diff_def by (auto intro!: image_eqI [where x = 1])
  then show ?thesis using D(1) by blast
qed

text \<open>
  Findings on concrete inputs. Listings in the order of the directory walk are not sorted by path: with \<open>a-b\<close> after
  \<open>a/x\<close>, directories that differ in \<open>a-b\<close> alone are reported to differ in \<open>a/x\<close> as well, twice.
\<close>

theorem unsorted_walk_gives_spurious_diff:
  "get_diff (\<lambda>b. 0) (map info ['''', ''a'', ''a/x'', ''a-b'']) (map info ['''', ''a'', ''a/x''])
     (\<lambda>_. False) (\<lambda>_. False) default_hasher_options
   = (Ok [OnlyOneExists (info ''a/x''), OnlyOneExists (info ''a-b''), OnlyOneExists (info ''a/x'')]
      :: (unit, _) res)"
  by code_simp

text \<open>Renaming a file to its own path succeeds and removes it.\<close>

theorem rename_to_itself_removes:
  "fst (rename ''/d/f'' ''/d/f'' demo_fs) = Ok (NodeFile (FileIndex 0))
   \<and> resolve_node (snd (rename ''/d/f'' ''/d/f'' demo_fs)) ''/d/f'' True = Err (NotFound ''/d/f'')"
  by (intro conjI; code_simp)

text \<open>A failing rename with an empty segment in the old path leaves the new entry behind, unrecorded.\<close>

theorem rename_half_applied:
  "fst (rename ''/d//f'' ''/c'' demo_fs) = Err (InvalidPath ''/d/'')
   \<and> is_ok (resolve_node (snd (rename ''/d//f'' ''/c'' demo_fs)) ''/c'' True)
   \<and> \<not> is_ok (resolve_node demo_fs ''/c'' True)
   \<and> recording (snd (rename ''/d//f'' ''/c'' demo_fs)) = recording demo_fs"
  by (intro conjI; code_simp)

text \<open>The root as the path of a new entry is accepted, and the entry cannot be found there. A path without a slash panics.\<close>

theorem root_entry_is_lost:
  "fst (create ''/'' [] demo_fs) = Ok (FileIndex 1)
   \<and> resolve_file (snd (create ''/'' [] demo_fs)) ''/'' = Err (NotAFile ''/'')
   \<and> fst (hardlink ''/h'' ''/'' demo_fs) = Ok (FileIndex 0)
   \<and> resolve_file (snd (hardlink ''/h'' ''/'' demo_fs)) ''/'' = Err (NotAFile ''/'')
   \<and> is_ok (fst (mkdir ''/'' [] demo_fs)) \<and> is_ok (fst (make_symlink ''/d'' ''/'' demo_fs))
   \<and> fst (mkdir ''d'' [] demo_fs) = Crash Panicked"
  by (intro conjI; code_simp)


text \<open>
  C26. Over any sequence of inputs to a fresh coverage feedback (no coverage, KCov or LCov), an
  input is judged interesting exactly when it reaches an address that no input before it
  reached.
\<close>

theorem new_coverage_is_interesting:
  assumes "opinions (\<lambda>input fb. feedback_opinion_on hash_name fb input) inputs (feedback_new t) = (Ok given, fb)"
    and "i < length given" and "length given < 2 ^ 64"
  shows "is_interesting (given ! i) \<longleftrightarrow>
    (\<exists>a \<in> set (opinion_coverage (given ! i)). \<forall>j < i. a \<notin> set (opinion_coverage (given ! j)))"
  by (rule feedback.interesting_iff_new [OF assms])
    (cases t; simp add: feedback_new_def hits_def)

theorem new_coverage_is_interesting_witness:
  "\<exists>given. fst (opinions (\<lambda>input fb. feedback_opinion_on (\<lambda>_. 0) fb input) [''0x1'', ''1''] (feedback_new CoverageKCov)) = Ok given
     \<and> \<not> is_interesting (given ! 1)"
proof -
  let ?run = "opinions (\<lambda>input fb. feedback_opinion_on (\<lambda>_. 0) fb input) [''0x1'', ''1''] (feedback_new CoverageKCov)"
  have parse: "kcov_parse ''0x1'' = Ok [(1, 1)]" "kcov_parse ''1'' = Ok [(1, 1)]"
    by (simp_all add: kcov_parse_def str_lines_def drop_cr_def newline_def parse_addr_def trim_0x.simps
        parse_hex_def hex_value_def hits_def Let_def)
  have run: "?run = (Ok [Interesting [1], NotInteresting [1]], KCovFeedback [(1, 2)])"
    by (simp add: feedback_new_def parse opinion_of_def hits_def Let_def)
  then show ?thesis using new_coverage_is_interesting [OF run, of 1] by simp
qed

text \<open>
  C27. The LCov records of files with executed lines parse back to the same files, lines and
  counts.
\<close>

theorem lcov_text_parses_back:
  assumes "\<forall>r \<in> set records. lcov_record_ok r" and "distinct (map fst records)"
  shows "lcov_lines (concat (map (\<lambda>(f, ls). lcov_record_lines f ls) records)) None [] [] = records"
  using lcov_records [OF assms(1), of "[]"] assms(2) by simp

theorem lcov_text_parses_back_witness:
  "lcov_lines (lcov_record_lines ''a.c'' [(3, 1), (7, 2)]) None [] [] = [(''a.c'', [(3, 1), (7, 2)])]"
  using lcov_text_parses_back [of "[(''a.c'', [(3, 1), (7, 2)])]"]
  by (simp add: lcov_record_ok_def trimmed_def is_white_def)

text \<open>
  C28. A code block of a report cannot be closed from within: the text put between the fences
  contains no fence, keeps its length, is unchanged when it had none, and the language tag has
  no backtick.
\<close>

theorem code_block_stays_closed:
  "\<exists>body. md_codeblock (language_of lang) code md
       = md @ fence @ language_of lang @ [newline] @ body @ [newline] @ fence @ [newline, newline]
     \<and> \<not> sublist fence body \<and> backtick \<notin> set (language_of lang)
     \<and> length body = length code \<and> (\<not> sublist fence code \<longrightarrow> body = code)"
proof (intro exI [of _ "str_replace fence ''???'' code"] conjI impI)
qed (simp_all add: md_codeblock_def no_fence_inside language_no_backtick replaced_length replaced_nothing)

theorem code_block_stays_closed_witness:
  "\<exists>body. md_codeblock (language_of ''csv'') ''x'' [] = fence @ language_of ''csv'' @ [newline] @ body @ [newline] @ fence @ [newline, newline]
     \<and> body = ''x''"
proof -
  have "\<not> sublist fence ''x''"
    by (metis fence_def length_Cons list.size(3) not_less_eq_eq sublist_length_le le_numeral_extra(4) Suc_le_mono le_zero_eq nat.distinct(1))
  then show ?thesis using code_block_stays_closed [of "''csv''" "''x''" "[]"] by auto
qed

text \<open>
  C29. As many choices of the queue scheduler as there are seeds serve every seed exactly once,
  in cyclic order from the current position, and count one choice for each.
\<close>

theorem queue_serves_every_seed:
  assumes "corpus \<noteq> []" and "i \<le> length corpus"
    and "queue_choices (length corpus) i corpus = (ws, i', corpus')"
  shows "ws = map (\<lambda>j. sd_workload (corpus ! ((i + j) mod length corpus))) [0..<length corpus]
    \<and> length corpus' = length corpus
    \<and> (\<forall>j < length corpus. sd_times_choosen (corpus' ! j) = sd_times_choosen (corpus ! j) + 1)"
proof -
  have "0 < length corpus" using assms(1) by simp
  from cycle_once [OF this] show ?thesis using queue_choices_cycle [OF assms] by simp
qed

theorem queue_serves_every_seed_witness:
  "fst (queue_choices 2 1 [seed_new \<lparr>ops = [OpRemove ''/a'']\<rparr> [] [], seed_new workload_new [] []])
    = [workload_new, \<lparr>ops = [OpRemove ''/a'']\<rparr>]"
proof -
  let ?corpus = "[seed_new \<lparr>ops = [OpRemove ''/a'']\<rparr> [] [], seed_new workload_new [] []]"
  obtain ws i' corpus' where run: "queue_choices 2 1 ?corpus = (ws, i', corpus')" by (metis prod_cases3)
  then show ?thesis
    using queue_serves_every_seed [of ?corpus 1 ws i' corpus'] by (simp add: upt_conv_Cons seed_new_def numeral_2_eq_2)
qed

text \<open>
  C30. In every state between two iterations of the grey box fuzzer, in a run that need not end,
  every workload of the initial corpus and of the corpus replays without error, is its own
  recording, is well formed with ordered links and stays within the limits, if that holds at the
  start; for a random source that keeps its contract, and weights that sum below 2^32 and are
  positive for one of MkDir, Create and Symlink, which are always applicable (choose_weighted
  may panic otherwise). When an input is picked there, by the scheduler and the mutations, it
  has all these properties too, and picking it overflows no stack. So do the corpora after a run
  that ends, with any result.
\<close>

theorem fuzzer_inputs_stay_runnable:
  assumes "good_rng (gp_rng gp)" and "usable_weights (mt_operation_weights (gp_mutator gp))"
    and "launched (rp_cmdi parts) (rp_supervisor parts) w" and "dash_paths_ok s"
    and "\<forall>w \<in> fuzzer_inputs s. good_input w"
    and "grey_box_reach parts gp s s'"
  shows "(\<forall>w \<in> fuzzer_inputs s'. good_input w)
    \<and> (\<forall>r1 s1. pick_input gp s' = Some (r1, s1) \<longrightarrow> r1 \<noteq> Crash StackOverflow
         \<and> (\<forall>w. r1 = Ok w \<longrightarrow> good_input w \<and> (\<exists>fs. replay w fs_new = (Ok (), fs) \<and> recording fs = w)))
    \<and> (\<forall>test_count r2 s2. grey_box_run parts gp test_count s' = Some (r2, s2) \<longrightarrow>
         (\<forall>w \<in> fuzzer_inputs s2. good_input w))"
proof -
  have "good_inputs s" using assms(4,5) by (simp add: good_inputs_def)
  then have s': "good_inputs s'" using reach_keeps [OF assms(1-3,6)] by (simp add: keeps_inputs_def)
  have "good_inputs s2" if "grey_box_run parts gp test_count s' = Some (r2, s2)" for test_count r2 s2
    using stepsD [OF grey_box_run_keeps [OF assms(1-3)] that] s' by (simp add: keeps_inputs_def)
  then show ?thesis
    using pick_input_good [OF assms(1,2) s'] s' by (auto simp: good_inputs_def good_input_def runnable_def)
qed

text \<open>One iteration that replays the only seed, finds a new address and appends the seed to the corpus.\<close>

theorem fuzzer_inputs_stay_runnable_witness:
  "\<exists>s'. runs (grey_box_fuzz_one demo_parts demo_grey_box_parts)
       (grey_box_send_stats (demo_parts :: (nat, nat) grey_box runner_parts)) demo_seeded = Some (Ok (), s')
     \<and> workload_new \<in> fuzzer_inputs s' \<and> (\<forall>w \<in> fuzzer_inputs s'. good_input w)"
proof -
  obtain s' where run: "runs (grey_box_fuzz_one demo_parts demo_grey_box_parts)
      (grey_box_send_stats (demo_parts :: (nat, nat) grey_box runner_parts)) demo_seeded = Some (Ok (), s')" "gx_initial_corpus s' = [workload_new]"
    using demo_iteration by blast
  have reach: "grey_box_reach demo_parts demo_grey_box_parts demo_seeded s'"
    by (rule grey_box_reach.iterate [OF grey_box_reach.here run(1)])
  have "dash_paths_ok demo_seeded"
    by (simp add: dash_paths_ok_def demo_seeded_fields demo_observer_def)
  moreover have "\<forall>w \<in> fuzzer_inputs demo_seeded. good_input w"
    by (simp add: fuzzer_inputs_def demo_seeded_fields good_input_empty)
  moreover have "good_rng (gp_rng demo_grey_box_parts)" "usable_weights (mt_operation_weights (gp_mutator demo_grey_box_parts))"
    by (simp_all add: demo_grey_box_parts_def demo_rng_good mutator_new_def uniform_usable)
  ultimately have "\<forall>w \<in> fuzzer_inputs s'. good_input w"
    using fuzzer_inputs_stay_runnable [OF _ _ demo_launched _ _ reach] by blast
  moreover have "workload_new \<in> fuzzer_inputs s'" using run(2) by (simp add: fuzzer_inputs_def)
  ultimately show ?thesis using run(1) by blast
qed


text \<open>
  C31. Both harnesses together start processes under timeout and write to the monitor exactly as
  the outcome says, in this order: the test binary once in the first harness, with its timeout,
  on its mount point, and once in the second unless the first panicked or timed out; and
  directly after a panic, with a virtual machine and only then, the one line loadvm fresh. On
  the host the command runs in the directory of the harness, with a machine it is the ssh
  command that does so there. The path of the Dash binary is not timeout.
\<close>

theorem test_runs_once_per_harness:
  assumes "launched_with (rp_cmdi parts) (rp_supervisor parts) remote" and "dash_paths_ok s"
    and "run_harness parts binary_path s = Some (Ok out, s')"
  shows "\<exists>cs obs. s' = s\<lparr>calls := calls s @ cs, observers_heap := obs\<rparr>
    \<and> filter (\<lambda>c. is_test_run c \<or> is_monitor_write c) cs = run_effects parts remote (env s) binary_path out"
  using run_harness_does [OF assms] assms(2)
  by (auto simp: rig_does_def effects_def is_plain_def)

theorem test_runs_once_per_harness_witness:
  "\<exists>s'. run_harness demo_parts ''/t'' demo_runner = Some (Ok (DiffCompleted demo_diff), s')
     \<and> filter (\<lambda>c. is_test_run c \<or> is_monitor_write c) (calls s')
       = [Run \<lparr>cmd_program = ''timeout'', cmd_args = [''5'', ''/t'', ''/mnt/a''], cmd_dir = Some ''/tmp/x''\<rparr>,
          Run \<lparr>cmd_program = ''timeout'', cmd_args = [''5'', ''/t'', ''/mnt/b''], cmd_dir = Some ''/tmp/x''\<rparr>]"
proof -
  have five: "show_nat 5 = ''5''" by code_simp
  have "ready demo_runner" by (simp add: ready_def demo_runner_def)
  then obtain s' where run: "run_harness demo_parts ''/t'' demo_runner = Some (Ok (DiffCompleted demo_diff), s')"
    using demo_run_harness by blast
  have "run_effects demo_parts None e ''/t'' (DiffCompleted demo_diff)
      = [Run \<lparr>cmd_program = ''timeout'', cmd_args = [''5'', ''/t'', ''/mnt/a''], cmd_dir = Some ''/tmp/x''\<rparr>,
         Run \<lparr>cmd_program = ''timeout'', cmd_args = [''5'', ''/t'', ''/mnt/b''], cmd_dir = Some ''/tmp/x''\<rparr>]" for e
    by (simp add: run_effects_def test_command_def demo_fields harness_new_def five)
  moreover have "calls demo_runner = []" by (simp add: demo_runner_def)
  ultimately show ?thesis
    using test_runs_once_per_harness [OF demo_launched_with demo_paths_ok(1) run] run by fastforce
qed

text \<open>
  C32. A bounded run of the black box fuzzer that ends well counts exactly the asked number of
  executions and at most as many crashes; a run without a bound never ends well.
\<close>

theorem fuzzer_counts_executions_and_crashes:
  assumes "launched (rp_cmdi parts) (rp_supervisor parts) w" and "dash_paths_ok s"
    and "black_box_run fuel rng parts (Some n) s = Some (Ok (), s')"
  shows "executions s' = executions s + n \<and> (\<exists>k \<le> unat n. crashes s' = crashes s + word_of_nat k)
    \<and> (\<forall>s1 y. black_box_run fuel rng parts None s1 = Some y \<longrightarrow> \<not> is_ok (fst y))"
proof -
  have "\<not> is_ok (fst y)" if "black_box_run fuel rng parts None s1 = Some y" for s1 y
    using that unfolding black_box_run_def fuzzer_run_def option.case by (rule repeat_forever_no_Ok)
  then show ?thesis
    using counted_fuzzer.fuzzer_run_counts [OF black_box_counted [OF assms(1)] assms(3) [unfolded black_box_run_def] assms(2)]
    by blast
qed

theorem fuzzer_counts_executions_and_crashes_witness:
  "\<exists>s'. black_box_run 1 demo_rng demo_parts (Some 1) demo_black_box = Some (Ok (), s') \<and> executions s' = 1"
proof -
  obtain s' where run: "black_box_run 1 demo_rng demo_parts (Some 1) demo_black_box = Some (Ok (), s')"
    using demo_black_box_run by blast
  have "executions demo_black_box = 0"
    by (simp add: demo_black_box_def demo_runner_def runner.extend_def black_box.fields_def)
  then show ?thesis
    using fuzzer_counts_executions_and_crashes [OF demo_launched demo_paths_ok(2) run] run by auto
qed

text \<open>
  C33. One iteration of the grey box fuzzer that ends well: picking the input changes no
  coverage and no workload of the corpus. A panic, a timeout, an interesting difference or a
  test with errors on both file systems leaves corpus and coverage as they are. Any other
  completed test appends its input to the corpus exactly when one of the two file systems
  reached an address that was never reached there before, and counts each reached address once;
  the addresses are those that the coverage file of each outcome names, each file counted for
  its own file system.
\<close>

theorem corpus_grows_with_new_coverage:
  assumes "launched (rp_cmdi parts) (rp_supervisor parts) w" and "dash_paths_ok s"
    and "pick_input gp s = Some (Ok input, s0)"
    and "compile_test parts input s0 = Some (Ok binary_path, s1)"
    and "run_harness parts binary_path s1 = Some (Ok out, s2)"
    and "grey_box_fuzz_one parts gp s = Some (Ok (), s')"
  shows "map sd_workload (gx_corpus s0) = map sd_workload (gx_corpus s)
    \<and> gx_fst_feedback s0 = gx_fst_feedback s \<and> gx_snd_feedback s0 = gx_snd_feedback s
    \<and> (case out of
         DiffCompleted diff \<Rightarrow>
           if any_interesting diff \<or> trace_errors (dc_fst_trace diff) \<noteq> [] \<and> trace_errors (dc_snd_trace diff) \<noteq> []
           then corpus_view s' = corpus_view s0
           else (\<exists>c1 c2.
             coverage_of (env s2) (calls s2) (gx_fst_feedback s0) (dc_fst_outcome diff) = Some c1
             \<and> coverage_of (env s2) (calls s2 @ coverage_reads (gx_fst_feedback s0) (dc_fst_outcome diff))
                  (gx_snd_feedback s0) (dc_snd_outcome diff) = Some c2
             \<and> (\<forall>a. hits (fb_map (gx_fst_feedback s')) a = hits (fb_map (gx_fst_feedback s0)) a + of_bool (a \<in> set c1))
             \<and> (\<forall>a. hits (fb_map (gx_snd_feedback s')) a = hits (fb_map (gx_snd_feedback s0)) a + of_bool (a \<in> set c2))
             \<and> gx_corpus s' = gx_corpus s0 @
                 (if (\<exists>a \<in> set c1. hits (fb_map (gx_fst_feedback s0)) a = 0)
                     \<or> (\<exists>a \<in> set c2. hits (fb_map (gx_snd_feedback s0)) a = 0)
                  then [seed_new input c1 c2] else []))
       | _ \<Rightarrow> corpus_view s' = corpus_view s0)"
proof -
  note one = fuzz_one_corpus [OF assms]
  have pick: "map sd_workload (gx_corpus s0) = map sd_workload (gx_corpus s)
      \<and> gx_fst_feedback s0 = gx_fst_feedback s \<and> gx_snd_feedback s0 = gx_snd_feedback s"
    by (rule pick_keeps [OF assms(3)])
  show ?thesis
  proof (cases "\<exists>diff. out = DiffCompleted diff \<and> \<not> any_interesting diff
           \<and> (trace_errors (dc_fst_trace diff) = [] \<or> trace_errors (dc_snd_trace diff) = [])")
    case True
    then obtain diff where diff: "out = DiffCompleted diff" "\<not> any_interesting diff"
        "trace_errors (dc_fst_trace diff) = [] \<or> trace_errors (dc_snd_trace diff) = []" by blast
    have cond: "\<not> (any_interesting diff \<or> trace_errors (dc_fst_trace diff) \<noteq> [] \<and> trace_errors (dc_snd_trace diff) \<noteq> [])"
      using diff(2,3) by blast
    from consider_input_reads [OF assms(1) one(3) [OF diff]] show ?thesis
      using pick one(1) cond diff(1) by (auto simp: considered_def corpus_view_def)
  next
    case False
    then show ?thesis using pick one(2) by (cases out) auto
  qed
qed

theorem corpus_grows_with_new_coverage_witness:
  "\<exists>s'. grey_box_fuzz_one demo_parts demo_grey_box_parts demo_seeded = Some (Ok (), s')
     \<and> (\<exists>c1 c2. gx_corpus s' = [] \<or> gx_corpus s' = [seed_new workload_new c1 c2])"
proof -
  obtain s0 bin s1 s2 s' where run:
      "pick_input demo_grey_box_parts demo_seeded = Some (Ok workload_new, s0)"
      "compile_test demo_parts workload_new s0 = Some (Ok bin, s1)"
      "run_harness demo_parts bin s1 = Some (Ok (DiffCompleted demo_diff), s2)"
      "grey_box_fuzz_one demo_parts demo_grey_box_parts demo_seeded = Some (Ok (), s')"
    and s0: "gx_corpus s0 = []"
    using demo_grey_box_one by blast
  have ok: "dash_paths_ok demo_seeded"
    by (simp add: dash_paths_ok_def demo_seeded_fields demo_observer_def)
  have "trace_errors (dc_fst_trace demo_diff) = []" by (simp add: demo_diff_def demo_no_diff)
  then show ?thesis
    using corpus_grows_with_new_coverage [OF demo_launched ok run] run(4) s0 demo_not_interesting
    by (auto split: if_splits)
qed

text \<open>
  C34. The reducer ends with the test it was given, or with one that it took in a state of this
  run: in the reached state the workload without one operation was compiled and run and showed
  the same difference, and no later step took another. The operations of the result are a
  subsequence of those given, up to the numbers of their descriptors, and a reduced test replays
  without error and is its own recording.
\<close>

theorem reduced_test_shows_same_difference:
  assumes "wf_ops (ops w)" and "written (ops w) < 2 ^ 64"
    and "reduce_loop parts output_dir original_diff (length (ops w)) w s = Some (Ok w', s')"
  shows "(w' = w
      \<or> (\<exists>idx b s1 s2.
           reduce_reach parts output_dir original_diff (length (ops w), w, s) (Suc idx, b, s1)
           \<and> taken_at parts original_diff idx b s1 w'
           \<and> reduce_step parts output_dir original_diff idx b s1 = Some (Ok w', s2)
           \<and> reduce_reach parts output_dir original_diff (idx, w', s2) (0, w', s'))
         \<and> (\<exists>fs. replay w' fs_new = (Ok (), fs) \<and> recording fs = w'))
    \<and> (\<exists>os. subseq os (ops w) \<and> list_all2 same_effect os (ops w'))"
proof -
  have reach: "reduce_reach parts output_dir original_diff (length (ops w), w, s) (0, w', s')"
    by (rule reduce_loop_reach [OF assms(3)])
  have "reduces_to w w' \<and> (w' = w \<or> (\<exists>fs. replay w' fs_new = (Ok (), fs) \<and> recording fs = w'))"
    using reach_reduces [OF reach order.refl assms(1,2)] by blast
  moreover note reach_last_taken [OF reach, unfolded fst_conv snd_conv]
  ultimately show ?thesis unfolding reduces_to_def by blast
qed

theorem reduced_test_shows_same_difference_witness:
  "\<exists>w' s'. reduce_loop demo_parts [] demo_diff 1 \<lparr>ops = [OpMkDir ''/d'' []]\<rparr> demo_runner = Some (Ok w', s')
     \<and> length (ops w') \<le> 1"
proof -
  let ?w = "\<lparr>ops = [OpMkDir ''/d'' []]\<rparr>"
  have "(case mutator_remove ?w 0 of Ok (Some w') \<Rightarrow> True | _ \<Rightarrow> False)" by code_simp
  then obtain w1 where w1: "mutator_remove ?w 0 = Ok (Some w1)" by (auto split: option.splits res.splits)
  define s1 where "s1 = record_call (Log LogInfo (''trying to remove operation at index '' @ show_nat 0)) demo_runner"
  have r: "ready s1" by (simp add: ready_def s1_def demo_runner_def record_call_def)
  obtain bin cs where 1: "compile_test demo_parts w1 s1 = Some (Ok bin, s1\<lparr>calls := calls s1 @ cs\<rparr>)"
    using demo_compile [OF r] by blast
  obtain ds where 2: "run_harness demo_parts bin (s1\<lparr>calls := calls s1 @ cs\<rparr>)
      = Some (Ok (DiffCompleted demo_diff), s1\<lparr>calls := (calls s1 @ cs) @ ds\<rparr>)"
    using demo_run_harness [of "s1\<lparr>calls := calls s1 @ cs\<rparr>" bin] r by auto
  have "\<exists>s'. reduce_loop demo_parts [] demo_diff 1 ?w demo_runner = Some (Ok ?w, s')"
    by (simp add: reduce_step_def run_steps then_result_simps w1 1 2 log_message_def s1_def [simplified, symmetric] Let_def
        demo_not_interesting cong: frozen_congs)
  then obtain s' where run: "reduce_loop demo_parts [] demo_diff 1 ?w demo_runner = Some (Ok ?w, s')" by blast
  have "wf_ops (ops ?w)" "written (ops ?w) < 2 ^ 64"
    by (simp_all add: canonical_code path_of_def segments_def is_root_def)
  from reduced_test_shows_same_difference [OF this, of demo_parts "[]" demo_diff demo_runner ?w s'] run
  show ?thesis by (auto intro!: exI [of _ ?w] exI [of _ s'])
qed

text \<open>
  C35. The check for a panic polls until the first poll without an event, reports a panic
  exactly when there was an event before, fails when the channel is closed, and does not return
  when events never stop.
\<close>

theorem panic_check_drains_events:
  "(\<forall>n. drained n s \<longrightarrow> event_handler_had_panic_event False s =
      Some (if event_after n s = NoEvent then Ok (0 < n) else Err [''event channel disconnected''], polled (Suc n) s))
   \<and> ((\<nexists>n. drained n s) \<longrightarrow> event_handler_had_panic_event False s = None)"
proof (intro conjI allI impI)
  fix n assume n: "drained n s"
  obtain y where y: "event_handler_had_panic_event False s = Some y" using had_panic_event_ends [OF n] by blast
  obtain k where k: "drained k s" "snd y = polled (Suc k) s"
      "fst y = (if event_after k s = NoEvent then Ok (0 < k) else Err [''event channel disconnected''])"
    using had_panic_event_drains [OF y] by auto
  have "k = n" using n k(1) unfolding drained_def by (metis linorder_neqE_nat)
  then show "event_handler_had_panic_event False s =
      Some (if event_after n s = NoEvent then Ok (0 < n) else Err [''event channel disconnected''], polled (Suc n) s)"
    using y k by (cases y) simp
next
  assume "\<nexists>n. drained n s"
  then show "event_handler_had_panic_event False s = None"
    using had_panic_event_drains [of False s] by (cases "event_handler_had_panic_event False s") auto
qed

theorem panic_check_drains_events_witness:
  "\<exists>s'. event_handler_had_panic_event False demo_events = Some (Ok True, s')"
proof -
  have "drained 2 demo_events" "event_after 2 demo_events = NoEvent"
    by (auto simp: drained_def event_after_def demo_events_def)
  then show ?thesis using panic_check_drains_events [of demo_events] by auto
qed

text \<open>
  C36. After any sequence of messages the broker holds for each instance the statistics it sent
  last, and the totals it shows are the sums over those.
\<close>

theorem broker_keeps_latest_statistics:
  assumes "bi_stats s = replicate n None" and "for_each msgs black_box_handle s = Some (Ok (), s')"
  shows "bi_stats s' = map (latest msgs) [0..<n]
    \<and> bb_crashes (black_box_total s') = (\<Sum>st \<leftarrow> present (map (latest msgs) [0..<n]). bb_crashes st)
    \<and> bb_executions (black_box_total s') = (\<Sum>st \<leftarrow> present (map (latest msgs) [0..<n]). bb_executions st)"
proof -
  have "bi_stats s' = map (latest msgs) [0..<n]"
    using black_box_handles [OF assms(2)] assms(1)
    by (intro nth_equalityI) (auto split: option.splits)
  then show ?thesis by (simp add: black_box_total_def black_box_aggregate_sums)
qed

theorem broker_keeps_latest_statistics_witness:
  "\<exists>s'. for_each [MsgInfo 1 ''m'', MsgBlackBoxStats 1 \<lparr>bb_crashes = 2, bb_executions = 5\<rparr>] black_box_handle
       \<lparr>env = demo_env, calls = [], bi_stats = [None, None], bi_start = 0\<rparr> = Some (Ok (), s')
     \<and> bb_crashes (black_box_total s') = 2"
proof -
  let ?s = "\<lparr>env = demo_env, calls = [], bi_stats = [None, None], bi_start = 0\<rparr> :: black_box_broker"
    and ?msgs = "[MsgInfo 1 ''m'', MsgBlackBoxStats 1 \<lparr>bb_crashes = 2, bb_executions = 5\<rparr>]"
  have "\<exists>s'. for_each ?msgs black_box_handle ?s = Some (Ok (), s')"
    by (simp add: run_steps then_result_simps run_calls black_box_record_stats_def vec_get_def demo_answers
        black_box_display_def cong: frozen_congs)
  then obtain s' where run: "for_each ?msgs black_box_handle ?s = Some (Ok (), s')" by blast
  have "bi_stats ?s = replicate 2 None" by (simp add: numeral_2_eq_2)
  from broker_keeps_latest_statistics [OF this run] show ?thesis
    using run by (auto simp: latest_simps present_def map_filter_simps upt_conv_Cons)
qed


text \<open>
  C37. A run of the whole program that ends well starts the tests that the command line asks
  for: one for a single test on one file system, one or two for a single test on two, and for a
  fuzzer with one instance and a test count between that count and twice that count; whether the
  tests run on the host or in the virtual machine.
\<close>

theorem program_starts_asked_tests:
  assumes "program_run cr a w = Some (Ok (), w')" and "asked_tests (pa_mode a) = Some (lo, hi)"
  shows "\<exists>cs. calls w' = calls w @ cs \<and> lo \<le> length (filter is_test_run cs) \<and> length (filter is_test_run cs) \<le> hi"
  using program_run_tests [OF assms] .

theorem program_starts_asked_tests_witness:
  "\<exists>w'. program_run demo_crates demo_args demo_world = Some (Ok (), w')
     \<and> length (filter is_test_run (calls w')) = 1"
proof -
  obtain w' where run: "program_run demo_crates demo_args demo_world = Some (Ok (), w')"
    using demo_program_run by blast
  have "asked_tests (pa_mode demo_args) = Some (1, 1)" by (simp add: demo_args_def)
  from program_starts_asked_tests [OF run this] run show ?thesis by (auto simp: demo_world_def)
qed

text \<open>
  C38. The names that the command line accepts are exactly those, up to case, that convert to a
  file system without a panic, and a name converts to one file system only.
\<close>

theorem accepted_names_convert:
  "((mount_from value :: (anyhow, fs_mount) res) \<noteq> Crash Panicked) = (to_lowercase value \<in> set filesystems_available)
   \<and> ((mount_from value :: (anyhow, fs_mount) res) = Ok fs) = (to_lowercase value = to_lowercase (mount_name fs))"
  by (rule conjI [OF mount_from_accepts mount_from_name])

end
